(* ===== verification/Prelude.thy ===== *)
theory Prelude
  imports Main "HOL-Library.AList"
begin

text \<open>
  The shared vocabulary of the development: Python exceptions as values, insertion-ordered
  dicts as association lists, sets as duplicate-free lists, and the generic lemmas that the
  component theories rest on.

  A Python \<open>dict\<close> keeps the insertion order of its keys and a store to a present key leaves
  the key at its place: exactly \<^const>\<open>AList.update\<close>. A Python \<open>set\<close> has no specified iteration
  order; a set is kept here as a duplicate-free list in insertion order and every property that
  iterates over one is stated on the set of its elements.
\<close>

named_theorems dict_simps \<open>lookup after a store or a deletion\<close>
named_theorems wf_intros \<open>well-formedness is kept\<close>

subsection \<open>Exceptions\<close>

text \<open>
  An exception is its class name and its text, so that the source's
  \<^verbatim>\<open>f"{type(exc).__name__}: {exc}"\<close> is \<open>describe\<close>. \<open>CancelledError\<close> is not an \<open>Exception\<close>
  in Python; it is modelled where it is handled, in the supervisor.
\<close>

datatype exn = Exn (exn_type: string) (exn_text: string)

abbreviation ValueError :: "string \<Rightarrow> exn" where
  "ValueError \<equiv> Exn ''ValueError''"
abbreviation RuntimeError :: "string \<Rightarrow> exn" where
  "RuntimeError \<equiv> Exn ''RuntimeError''"
abbreviation TypeError :: "string \<Rightarrow> exn" where
  "TypeError \<equiv> Exn ''TypeError''"
abbreviation KeyError :: "string \<Rightarrow> exn" where
  "KeyError \<equiv> Exn ''KeyError''"
abbreviation AttributeError :: "string \<Rightarrow> exn" where
  "AttributeError \<equiv> Exn ''AttributeError''"
abbreviation ConnectionError :: "string \<Rightarrow> exn" where
  "ConnectionError \<equiv> Exn ''ConnectionError''"
abbreviation TimeoutError :: "string \<Rightarrow> exn" where
  "TimeoutError \<equiv> Exn ''TimeoutError''"

definition describe :: "exn \<Rightarrow> string" where
  "describe e = exn_type e @ '': '' @ exn_text e"

type_synonym 'a res = "exn + 'a"

text \<open>Sequencing of fallible pure code: the first exception ends the computation.\<close>

fun res_bind :: "'a res \<Rightarrow> ('a \<Rightarrow> 'b res) \<Rightarrow> 'b res" where
  "res_bind (Inl e) f = Inl e"
| "res_bind (Inr x) f = f x"

lemma res_bind_cong [fundef_cong]:
  "r = r' \<Longrightarrow> (\<And>x. r' = Inr x \<Longrightarrow> f x = g x) \<Longrightarrow> res_bind r f = res_bind r' g"
  by (cases r') auto

lemma res_bind_Inr_iff [simp]:
  "res_bind r f = Inr y \<longleftrightarrow> (\<exists>x. r = Inr x \<and> f x = Inr y)"
  by (cases r) auto

lemma res_bind_return [simp]: "res_bind r Inr = r"
  by (cases r) auto

lemma res_bind_assoc: "res_bind (res_bind r f) g = res_bind r (\<lambda>x. res_bind (f x) g)"
  by (cases r) auto

subsection \<open>Text: the repr of a string\<close>

text \<open>
  Error texts use \<^verbatim>\<open>{name!r}\<close>. The quotes and escapes are those of Python's \<open>repr\<close> on code
  points below 256.
\<close>

definition hex_digit :: "nat \<Rightarrow> char" where
  "hex_digit d = ''0123456789abcdef'' ! (d mod 16)"

definition printable :: "char \<Rightarrow> bool" where
  "printable c = (let n = of_char c :: nat in (32 \<le> n \<and> n < 127) \<or> (160 < n \<and> n \<noteq> 173))"

definition repr_char :: "char \<Rightarrow> char \<Rightarrow> string" where
  "repr_char q c =
     (if c = q \<or> c = CHR 0x5C then [CHR 0x5C, c]
      else if c = CHR 0x0A then [CHR 0x5C, CHR ''n'']
      else if c = CHR 0x0D then [CHR 0x5C, CHR ''r'']
      else if c = CHR 0x09 then [CHR 0x5C, CHR ''t'']
      else if printable c then [c]
      else [CHR 0x5C, CHR ''x'', hex_digit (of_char c div 16), hex_digit (of_char c)])"

definition py_repr :: "string \<Rightarrow> string" where
  "py_repr s =
     (let q = (if CHR 0x27 \<in> set s \<and> CHR 0x22 \<notin> set s then CHR 0x22 else CHR 0x27)
      in [q] @ concat (map (repr_char q) s) @ [q])"

subsection \<open>Text: splitting\<close>

text \<open>\<^verbatim>\<open>str.rpartition\<close> (without the separator itself) and \<^verbatim>\<open>str.split\<close> on one character.\<close>

definition rpartition :: "char \<Rightarrow> string \<Rightarrow> string \<times> string" where
  "rpartition c s =
     (if c \<in> set s
      then (rev (tl (dropWhile (\<lambda>x. x \<noteq> c) (rev s))), rev (takeWhile (\<lambda>x. x \<noteq> c) (rev s)))
      else ([], s))"

fun py_split :: "char \<Rightarrow> string \<Rightarrow> string list" where
  "py_split c [] = [[]]"
| "py_split c (x # s) =
     (if x = c then [] # py_split c s
      else (case py_split c s of [] \<Rightarrow> [[x]] | p # ps \<Rightarrow> (x # p) # ps))"

lemma rpartition_last:
  "c \<notin> set t \<Longrightarrow> rpartition c (s @ [c] @ t) = (s, t)"
proof -
  assume c: "c \<notin> set t"
  have "takeWhile (\<lambda>x. x \<noteq> c) (rev t @ c # rev s) = rev t"
    using c by (subst takeWhile_append2) auto
  moreover have "dropWhile (\<lambda>x. x \<noteq> c) (rev t @ c # rev s) = c # rev s"
    using c by (subst dropWhile_append2) auto
  ultimately show ?thesis by (simp add: rpartition_def)
qed

lemma py_split_none: "c \<notin> set s \<Longrightarrow> py_split c s = [s]"
  by (induction s) auto

subsection \<open>Dicts\<close>

type_synonym ('k, 'v) dict = "('k \<times> 'v) list"

abbreviation dict_set :: "'k \<Rightarrow> 'v \<Rightarrow> ('k, 'v) dict \<Rightarrow> ('k, 'v) dict" where
  "dict_set k v d \<equiv> AList.update k v d"

abbreviation dict_del :: "'k \<Rightarrow> ('k, 'v) dict \<Rightarrow> ('k, 'v) dict" where
  "dict_del k d \<equiv> AList.delete k d"

abbreviation keys :: "('k, 'v) dict \<Rightarrow> 'k list" where
  "keys d \<equiv> map fst d"

abbreviation has_key :: "'k \<Rightarrow> ('k, 'v) dict \<Rightarrow> bool" where
  "has_key k d \<equiv> map_of d k \<noteq> None"

definition get_or :: "'v \<Rightarrow> ('k, 'v) dict \<Rightarrow> 'k \<Rightarrow> 'v" where
  "get_or x d k = (case map_of d k of None \<Rightarrow> x | Some v \<Rightarrow> v)"

lemma lookup_set [dict_simps, simp]:
  "map_of (dict_set k v d) k' = (if k' = k then Some v else map_of d k')"
  by (simp add: update_conv')

lemma lookup_del [dict_simps, simp]:
  "map_of (dict_del k d) k' = (if k' = k then None else map_of d k')"
  by (simp add: delete_conv')

lemma get_or_set [dict_simps, simp]:
  "get_or x (dict_set k v d) k' = (if k' = k then v else get_or x d k')"
  by (simp add: get_or_def)

lemma get_or_del [dict_simps, simp]:
  "get_or x (dict_del k d) k' = (if k' = k then x else get_or x d k')"
  by (simp add: get_or_def)

lemma get_or_Nil [simp]: "get_or x [] k = x"
  by (simp add: get_or_def)

lemma distinct_keys_set [wf_intros]: "distinct (keys d) \<Longrightarrow> distinct (keys (dict_set k v d))"
  by (rule distinct_update)

lemma distinct_keys_del [wf_intros]: "distinct (keys d) \<Longrightarrow> distinct (keys (dict_del k d))"
  by (rule distinct_delete)

lemma has_key_iff: "has_key k d \<longleftrightarrow> k \<in> set (keys d)"
  by (simp add: map_of_eq_None_iff)

lemma keys_set [simp]: "set (keys (dict_set k v d)) = insert k (set (keys d))"
  using dom_update [of k v d] by simp

lemma keys_del [simp]: "set (keys (dict_del k d)) = set (keys d) - {k}"
  using delete_keys [of k d] by simp

subsection \<open>Sets as duplicate-free lists\<close>

definition set_add :: "'a \<Rightarrow> 'a list \<Rightarrow> 'a list" where
  "set_add x xs = (if x \<in> set xs then xs else xs @ [x])"

definition set_discard :: "'a \<Rightarrow> 'a list \<Rightarrow> 'a list" where
  "set_discard x xs = removeAll x xs"

lemma set_set_add [simp]: "set (set_add x xs) = insert x (set xs)"
  by (auto simp: set_add_def)

lemma set_set_discard [simp]: "set (set_discard x xs) = set xs - {x}"
  by (auto simp: set_discard_def)

lemma distinct_set_add [wf_intros, simp]: "distinct xs \<Longrightarrow> distinct (set_add x xs)"
  by (simp add: set_add_def)

lemma distinct_set_discard [wf_intros, simp]: "distinct xs \<Longrightarrow> distinct (set_discard x xs)"
  by (simp add: set_discard_def distinct_removeAll)

lemma set_add_Nil [simp]: "set_add x [] = [x]"
  by (simp add: set_add_def)

lemma set_discard_Nil [simp]: "set_discard x [] = []"
  by (simp add: set_discard_def)

text \<open>\<^verbatim>\<open>d.setdefault(k, set()).add(x)\<close> and \<^verbatim>\<open>d.get(k, set()).discard(x)\<close>, the two ways the
  modules update a dict of sets. The second has no effect on an absent key.\<close>

definition bucket_add :: "'k \<Rightarrow> 'a \<Rightarrow> ('k, 'a list) dict \<Rightarrow> ('k, 'a list) dict" where
  "bucket_add k x d = dict_set k (set_add x (get_or [] d k)) d"

definition bucket_discard :: "'k \<Rightarrow> 'a \<Rightarrow> ('k, 'a list) dict \<Rightarrow> ('k, 'a list) dict" where
  "bucket_discard k x d =
     (case map_of d k of None \<Rightarrow> d | Some xs \<Rightarrow> dict_set k (set_discard x xs) d)"

abbreviation bucket :: "('k, 'a list) dict \<Rightarrow> 'k \<Rightarrow> 'a set" where
  "bucket d k \<equiv> set (get_or [] d k)"

definition buckets_wf :: "('k, 'a list) dict \<Rightarrow> bool" where
  "buckets_wf d \<longleftrightarrow> distinct (keys d) \<and> (\<forall>x \<in> set d. distinct (snd x))"

lemma bucket_add [dict_simps, simp]:
  "bucket (bucket_add k x d) k' = (if k' = k then insert x (bucket d k) else bucket d k')"
  by (simp add: bucket_add_def)

lemma bucket_discard [dict_simps, simp]:
  "bucket (bucket_discard k x d) k' = (if k' = k then bucket d k - {x} else bucket d k')"
proof (cases "map_of d k")
  case None
  then have "get_or [] d k = []" by (simp add: get_or_def)
  with None show ?thesis by (simp add: bucket_discard_def)
next
  case (Some xs)
  then have "get_or [] d k = xs" by (simp add: get_or_def)
  with Some show ?thesis by (simp add: bucket_discard_def)
qed

lemma in_dict_setD: "x \<in> set (dict_set k v d) \<Longrightarrow> x = (k, v) \<or> x \<in> set d"
  by (induction d) (auto split: if_splits)

lemma buckets_wf_Nil [wf_intros, simp]: "buckets_wf []"
  by (simp add: buckets_wf_def)

lemma buckets_wf_get: "buckets_wf d \<Longrightarrow> distinct (get_or [] d k)"
  by (auto simp: buckets_wf_def get_or_def split: option.split dest!: map_of_SomeD)

lemma buckets_wf_set [wf_intros]:
  "buckets_wf d \<Longrightarrow> distinct xs \<Longrightarrow> buckets_wf (dict_set k xs d)"
  by (auto simp: buckets_wf_def distinct_update dest!: in_dict_setD)

lemma buckets_wf_del [wf_intros]: "buckets_wf d \<Longrightarrow> buckets_wf (dict_del k d)"
  using distinct_keys_del [of d k] by (auto simp: buckets_wf_def AList.delete_eq)

lemma buckets_wf_add [wf_intros]: "buckets_wf d \<Longrightarrow> buckets_wf (bucket_add k x d)"
  by (simp add: bucket_add_def buckets_wf_set buckets_wf_get)

lemma buckets_wf_discard [wf_intros]: "buckets_wf d \<Longrightarrow> buckets_wf (bucket_discard k x d)"
  by (auto simp: bucket_discard_def split: option.split intro!: buckets_wf_set)
    (auto simp: buckets_wf_def dest!: map_of_SomeD)

end
