(* ===== verification/Py_Values.thy ===== *)
theory Py_Values
  imports Prelude
begin

text \<open>
  Python values as they travel in messages, and the conversion to and from JSON that the
  native extension performs on every remote send (\<^verbatim>\<open>src/src/py/convert.rs\<close>).

  \<^verbatim>\<open>PObj\<close> is an instance of a class, with its attributes in definition order. A dict of a
  payload has string keys: the wire refuses any other. A finite float is kept as its exact value
  \<open>m * 2 ^ e\<close>; the JSON text of a number or of a string is the business of \<^verbatim>\<open>serde_json\<close> and is
  not modelled, only the tree it carries.
\<close>

datatype pyfloat = Finite int int | Infinite bool | NotANumber

datatype pycls = Cls (cls_module: string) (cls_qualname: string)

datatype pyval =
    PNone
  | PBool bool
  | PInt int
  | PFloat pyfloat
  | PStr string
  | PList "pyval list"
  | PTuple "pyval list"
  | PDict "(string \<times> pyval) list"
  | PObj pycls "(string \<times> pyval) list"

datatype json =
    JNull
  | JBool bool
  | JInt int
  | JFloat int int
  | JStr string
  | JArr "json list"
  | JObj "(string \<times> json) list"

fun builtin :: "string \<Rightarrow> pycls" where
  "builtin n = Cls ''builtins'' n"

fun type_of :: "pyval \<Rightarrow> pycls" where
  "type_of PNone = builtin ''NoneType''"
| "type_of (PBool b) = builtin ''bool''"
| "type_of (PInt i) = builtin ''int''"
| "type_of (PFloat f) = builtin ''float''"
| "type_of (PStr s) = builtin ''str''"
| "type_of (PList xs) = builtin ''list''"
| "type_of (PTuple xs) = builtin ''tuple''"
| "type_of (PDict d) = builtin ''dict''"
| "type_of (PObj c d) = c"

definition i64_or_u64 :: "int \<Rightarrow> bool" where
  "i64_or_u64 i \<longleftrightarrow> - (2 ^ 63) \<le> i \<and> i < 2 ^ 64"

text \<open>\<^verbatim>\<open>py_to_json\<close>: the first value that JSON cannot carry decides the exception.\<close>

fun py_to_json :: "pyval \<Rightarrow> json res"
  and py_to_json_list :: "pyval list \<Rightarrow> json list res"
  and py_to_json_items :: "(string \<times> pyval) list \<Rightarrow> (string \<times> json) list res" where
  "py_to_json PNone = Inr JNull"
| "py_to_json (PBool b) = Inr (JBool b)"
| "py_to_json (PStr s) = Inr (JStr s)"
| "py_to_json (PInt i) =
     (if i64_or_u64 i then Inr (JInt i)
      else Inl (TypeError ''integer out of range: must fit in i64 or u64''))"
| "py_to_json (PFloat f) =
     (case f of Finite m e \<Rightarrow> Inr (JFloat m e)
      | _ \<Rightarrow> Inl (ValueError ''non-finite floats are not supported''))"
| "py_to_json (PList xs) = res_bind (py_to_json_list xs) (\<lambda>js. Inr (JArr js))"
| "py_to_json (PTuple xs) = res_bind (py_to_json_list xs) (\<lambda>js. Inr (JArr js))"
| "py_to_json (PDict d) = res_bind (py_to_json_items d) (\<lambda>js. Inr (JObj js))"
| "py_to_json (PObj c d) =
     Inl (TypeError (''value of type '' @ cls_qualname c @ '' is not JSON-compatible''))"
| "py_to_json_list [] = Inr []"
| "py_to_json_list (x # xs) =
     res_bind (py_to_json x) (\<lambda>j. res_bind (py_to_json_list xs) (\<lambda>js. Inr (j # js)))"
| "py_to_json_items [] = Inr []"
| "py_to_json_items ((k, v) # d) =
     res_bind (py_to_json v) (\<lambda>j. res_bind (py_to_json_items d) (\<lambda>js. Inr ((k, j) # js)))"

text \<open>\<^verbatim>\<open>PyJsonVisitor\<close>: an array becomes a list, an object a dict filled key by key.\<close>

fun json_to_py :: "json \<Rightarrow> pyval"
  and json_to_py_list :: "json list \<Rightarrow> pyval list"
  and json_to_py_items :: "(string \<times> json) list \<Rightarrow> (string \<times> pyval) list \<Rightarrow> (string \<times> pyval) list"
where
  "json_to_py JNull = PNone"
| "json_to_py (JBool b) = PBool b"
| "json_to_py (JInt i) = PInt i"
| "json_to_py (JFloat m e) = PFloat (Finite m e)"
| "json_to_py (JStr s) = PStr s"
| "json_to_py (JArr js) = PList (json_to_py_list js)"
| "json_to_py (JObj js) = PDict (json_to_py_items js [])"
| "json_to_py_list [] = []"
| "json_to_py_list (j # js) = json_to_py j # json_to_py_list js"
| "json_to_py_items [] d = d"
| "json_to_py_items ((k, j) # js) d = json_to_py_items js (dict_set k (json_to_py j) d)"

text \<open>What a payload becomes when it crosses the wire.\<close>

definition over_wire :: "pyval \<Rightarrow> pyval res" where
  "over_wire v = res_bind (py_to_json v) (\<lambda>j. Inr (json_to_py j))"

subsection \<open>Wire-safe values\<close>

fun wire_safe :: "pyval \<Rightarrow> bool"
  and wire_safe_list :: "pyval list \<Rightarrow> bool"
  and wire_safe_items :: "(string \<times> pyval) list \<Rightarrow> bool" where
  "wire_safe (PInt i) = i64_or_u64 i"
| "wire_safe (PFloat f) = (case f of Finite m e \<Rightarrow> True | _ \<Rightarrow> False)"
| "wire_safe (PList xs) = wire_safe_list xs"
| "wire_safe (PTuple xs) = wire_safe_list xs"
| "wire_safe (PDict d) = (distinct (keys d) \<and> wire_safe_items d)"
| "wire_safe (PObj c d) = False"
| "wire_safe _ = True"
| "wire_safe_list [] = True"
| "wire_safe_list (x # xs) = (wire_safe x \<and> wire_safe_list xs)"
| "wire_safe_items [] = True"
| "wire_safe_items ((k, v) # d) = (wire_safe v \<and> wire_safe_items d)"

text \<open>The JSON image of a value: tuples become lists, everything else is kept.\<close>

fun untuple :: "pyval \<Rightarrow> pyval"
  and untuple_list :: "pyval list \<Rightarrow> pyval list"
  and untuple_items :: "(string \<times> pyval) list \<Rightarrow> (string \<times> pyval) list" where
  "untuple (PList xs) = PList (untuple_list xs)"
| "untuple (PTuple xs) = PList (untuple_list xs)"
| "untuple (PDict d) = PDict (untuple_items d)"
| "untuple (PObj c d) = PObj c (untuple_items d)"
| "untuple v = v"
| "untuple_list [] = []"
| "untuple_list (x # xs) = untuple x # untuple_list xs"
| "untuple_items [] = []"
| "untuple_items ((k, v) # d) = (k, untuple v) # untuple_items d"

lemma keys_untuple_items [simp]: "keys (untuple_items d) = keys d"
  by (induction d) auto

lemma map_of_untuple_items [simp]: "map_of (untuple_items d) k = map_option untuple (map_of d k)"
  by (induction d) auto

lemma untuple_list_map: "untuple_list xs = map untuple xs"
  by (induction xs) auto

lemma json_to_py_items_append:
  "distinct (keys d @ keys js) \<Longrightarrow>
   json_to_py_items js d = d @ map (\<lambda>(k, j). (k, json_to_py j)) js"
proof (induction js arbitrary: d)
  case Nil
  then show ?case by simp
next
  case (Cons x js)
  obtain k j where x: "x = (k, j)" by (cases x)
  have fresh: "k \<notin> set (keys d)" using Cons.prems x by auto
  have "dict_set k (json_to_py j) d = d @ [(k, json_to_py j)]"
    using fresh by (induction d) auto
  moreover have "distinct (keys (d @ [(k, json_to_py j)]) @ keys js)"
    using Cons.prems x by auto
  ultimately show ?case using Cons.IH x by simp
qed

lemma json_to_py_items_Nil:
  "distinct (keys js) \<Longrightarrow> json_to_py_items js [] = map (\<lambda>(k, j). (k, json_to_py j)) js"
  using json_to_py_items_append [of "[]" js] by simp

lemma wire_safe_json:
  shows "wire_safe v \<Longrightarrow> \<exists>j. py_to_json v = Inr j \<and> json_to_py j = untuple v"
    and "wire_safe_list xs \<Longrightarrow>
           \<exists>js. py_to_json_list xs = Inr js \<and> json_to_py_list js = untuple_list xs"
    and "wire_safe_items d \<Longrightarrow>
           \<exists>js. py_to_json_items d = Inr js \<and> keys js = keys d
                \<and> map (\<lambda>(k, j). (k, json_to_py j)) js = untuple_items d"
proof (induction v and xs and d rule: py_to_json_py_to_json_list_py_to_json_items.induct)
  case (8 d)
  then obtain js where "py_to_json_items d = Inr js" "keys js = keys d"
    "map (\<lambda>(k, j). (k, json_to_py j)) js = untuple_items d" by auto
  with 8 show ?case by (auto simp: json_to_py_items_Nil)
next
  case (13 k v d)
  then show ?case by fastforce
qed (auto split: pyfloat.splits)

lemma over_wire_safe: "wire_safe v \<Longrightarrow> over_wire v = Inr (untuple v)"
  using wire_safe_json(1) [of v] by (auto simp: over_wire_def)

end
