(* ===== verification/Codec.thy ===== *)
theory Codec
  imports Py_Values
begin

text \<open>
  The type-preserving codec of \<^verbatim>\<open>src/lapinbeam/codec.py\<close>.

  The interpreter and the third-party libraries the codec calls are the fields of
  \<open>codec_env\<close>: the kind of a class (dataclass, Pydantic model or plain), \<^verbatim>\<open>importlib\<close>, and
  Pydantic's \<^verbatim>\<open>model_dump\<close>/\<^verbatim>\<open>model_validate\<close>. The module's own state is \<open>registry\<close>, the
  \<^verbatim>\<open>_registry\<close> dict filled by \<^verbatim>\<open>register_codec\<close>.

  \<^verbatim>\<open>_encode_obj\<close> and \<^verbatim>\<open>_decode_obj\<close> compare objects by identity (\<^verbatim>\<open>ev is not v\<close>) to reuse
  containers in which nothing changed. The models return the identity along with the value: the
  second component is True when the very object that was passed in is returned.
\<close>

definition RESERVED :: string where
  "RESERVED = ''__lb_type__''"

datatype class_kind =
    Dataclass "(string \<times> pyval option) list"
  | PydanticModel
  | PlainClass

datatype namespace = NS "pycls option" "(string \<times> namespace) list"

record codec_entry =
  entry_encode :: "pyval \<Rightarrow> pyval res"
  entry_decode :: "pyval \<Rightarrow> pyval res"

record codec_env =
  registry :: "(string, codec_entry) dict"
  kind_of :: "pycls \<Rightarrow> class_kind"
  import_module :: "string \<Rightarrow> namespace res"
  model_dump :: "pyval \<Rightarrow> pyval res"
  model_validate :: "pycls \<Rightarrow> pyval \<Rightarrow> pyval res"

definition json_native :: "pyval \<Rightarrow> bool" where
  "json_native v = (case v of PNone \<Rightarrow> True | PBool b \<Rightarrow> True | PInt i \<Rightarrow> True
     | PFloat f \<Rightarrow> True | PStr s \<Rightarrow> True | _ \<Rightarrow> False)"

definition tag_of :: "pycls \<Rightarrow> string" where
  "tag_of c = cls_module c @ ''.'' @ cls_qualname c"

subsection \<open>Importing a class by its tag\<close>

fun getattr_path :: "namespace \<Rightarrow> string list \<Rightarrow> namespace res" where
  "getattr_path ns [] = Inr ns"
| "getattr_path (NS c attrs) (part # parts) =
     (case map_of attrs part of
        None \<Rightarrow> Inl (AttributeError (''no attribute '' @ py_repr part))
      | Some ns \<Rightarrow> getattr_path ns parts)"

definition import_class :: "codec_env \<Rightarrow> string \<Rightarrow> namespace res" where
  "import_class env tag =
     (let (module_name, qualname) = rpartition (CHR ''.'') tag
      in res_bind (import_module env module_name)
           (\<lambda>ns. getattr_path ns (py_split (CHR ''.'') qualname)))"

definition import_failed :: "exn \<Rightarrow> bool" where
  "import_failed e \<longleftrightarrow>
     exn_type e \<in> {''ImportError'', ''ModuleNotFoundError'', ''AttributeError''}"

definition no_codec :: "string \<Rightarrow> exn" where
  "no_codec tag = ValueError (''no codec registered for '' @ py_repr tag)"

definition register_codec ::
  "codec_env \<Rightarrow> pycls \<Rightarrow> (pyval \<Rightarrow> pyval res) \<Rightarrow> (pyval \<Rightarrow> pyval res) \<Rightarrow> codec_env" where
  "register_codec env c enc dec =
     env\<lparr>registry := dict_set (tag_of c) \<lparr>entry_encode = enc, entry_decode = dec\<rparr> (registry env)\<rparr>"

text \<open>The constructor a dataclass generates: keyword arguments against the declared fields.\<close>

definition construct :: "pycls \<Rightarrow> (string \<times> pyval option) list \<Rightarrow> (string \<times> pyval) list \<Rightarrow> pyval res"
where
  "construct c fs kwargs =
     (if \<not> set (keys kwargs) \<subseteq> set (keys fs)
      then Inl (TypeError (cls_qualname c @ ''.__init__() got an unexpected keyword argument''))
      else if \<exists>(f, dflt) \<in> set fs. dflt = None \<and> map_of kwargs f = None
      then Inl (TypeError (cls_qualname c @ ''.__init__() missing a required argument''))
      else Inr (PObj c (map (\<lambda>(f, dflt).
             (f, case map_of kwargs f of Some v \<Rightarrow> v | None \<Rightarrow> the dflt)) fs)))"

subsection \<open>Encoding\<close>

definition envelope :: "pycls \<Rightarrow> pyval \<Rightarrow> pyval" where
  "envelope c data = PDict [(RESERVED, PStr (tag_of c)), (''data'', data)]"

abbreviation attrs_size :: "(string \<times> pyval) list \<Rightarrow> nat" where
  "attrs_size d \<equiv> size_list (size_prod (\<lambda>x. 0) size) d"

lemma attrs_size_lookup [termination_simp]:
  "map_of d k = Some v \<Longrightarrow> size v < attrs_size d"
  by (induction d) (auto split: if_splits)

function (sequential) encode_obj :: "codec_env \<Rightarrow> pyval \<Rightarrow> (pyval \<times> bool) res"
  and encode_fields ::
    "codec_env \<Rightarrow> (string \<times> pyval option) list \<Rightarrow> (string \<times> pyval) list \<Rightarrow> (string \<times> pyval) list res"
  and encode_items :: "codec_env \<Rightarrow> (string \<times> pyval) list \<Rightarrow> ((string \<times> pyval) list \<times> bool) res"
  and encode_list :: "codec_env \<Rightarrow> pyval list \<Rightarrow> (pyval list \<times> bool) res" where
  "encode_obj env v =
     (if json_native v then Inr (v, True)
      else case map_of (registry env) (tag_of (type_of v)) of
        Some entry \<Rightarrow>
          res_bind (entry_encode entry v) (\<lambda>data. Inr (envelope (type_of v) data, False))
      | None \<Rightarrow>
         (case v of
            PObj c attrs \<Rightarrow>
              (case kind_of env c of
                 Dataclass fs \<Rightarrow>
                   res_bind (encode_fields env fs attrs)
                     (\<lambda>data. Inr (envelope c (PDict data), False))
               | PydanticModel \<Rightarrow>
                   res_bind (model_dump env v) (\<lambda>data. Inr (envelope c data, False))
               | PlainClass \<Rightarrow> Inr (v, True))
          | PDict d \<Rightarrow>
              res_bind (encode_items env d) (\<lambda>(out, same).
                Inr (if same then v else PDict out, same))
          | PList xs \<Rightarrow>
              res_bind (encode_list env xs) (\<lambda>(out, same).
                Inr (if same then v else PList out, same))
          | PTuple xs \<Rightarrow>
              res_bind (encode_list env xs) (\<lambda>(out, same).
                Inr (if same then v else PList out, same))
          | _ \<Rightarrow> Inr (v, True)))"
| "encode_fields env [] attrs = Inr []"
| "encode_fields env ((f, dflt) # fs) attrs =
     (case map_of attrs f of
        None \<Rightarrow> Inl (AttributeError (''no attribute '' @ py_repr f))
      | Some v \<Rightarrow>
          res_bind (encode_obj env v) (\<lambda>(ev, same).
            res_bind (encode_fields env fs attrs) (\<lambda>out. Inr ((f, ev) # out))))"
| "encode_items env [] = Inr ([], True)"
| "encode_items env ((k, v) # d) =
     res_bind (encode_obj env v) (\<lambda>(ev, same).
       res_bind (encode_items env d) (\<lambda>(out, same'). Inr ((k, ev) # out, same \<and> same')))"
| "encode_list env [] = Inr ([], True)"
| "encode_list env (v # xs) =
     res_bind (encode_obj env v) (\<lambda>(ev, same).
       res_bind (encode_list env xs) (\<lambda>(out, same'). Inr (ev # out, same \<and> same')))"
  by pat_completeness auto
termination
  by (relation "measures
       [\<lambda>x. case x of Inl (Inl (e, v)) \<Rightarrow> size v | Inl (Inr (e, fs, attrs)) \<Rightarrow> attrs_size attrs
             | Inr (Inl (e, d)) \<Rightarrow> attrs_size d | Inr (Inr (e, xs)) \<Rightarrow> size_list size xs,
        \<lambda>x. case x of Inl (Inr (e, fs, attrs)) \<Rightarrow> length fs | _ \<Rightarrow> 0]")
    (auto simp: attrs_size_lookup less_Suc_eq_le)

declare encode_obj.simps [simp del]

definition encode_payload :: "codec_env \<Rightarrow> pyval \<Rightarrow> pyval res" where
  "encode_payload env v = res_bind (encode_obj env v) (\<lambda>(ev, same). Inr ev)"

subsection \<open>Decoding\<close>

text \<open>
  \<^verbatim>\<open>_rebuild\<close> looks a tag up in the registry first, then imports the class it names. A tag that
  is not a string is never found: looking up a list or a dict raises TypeError (unhashable),
  anything else has no \<^verbatim>\<open>rpartition\<close> and counts as a failed import.
\<close>

definition class_of_namespace :: "namespace \<Rightarrow> pycls option" where
  "class_of_namespace ns = (case ns of NS c attrs \<Rightarrow> c)"

fun rebuild_tag :: "pyval \<Rightarrow> string res" where
  "rebuild_tag (PStr t) = Inr t"
| "rebuild_tag (PList xs) = Inl (TypeError ''unhashable type: list'')"
| "rebuild_tag (PDict d) = Inl (TypeError ''unhashable type: dict'')"
| "rebuild_tag _ = Inl (ValueError ''no codec registered'')"

function (sequential) decode_obj :: "codec_env \<Rightarrow> pyval \<Rightarrow> (pyval \<times> bool) res"
  and decode_items :: "codec_env \<Rightarrow> (string \<times> pyval) list \<Rightarrow> ((string \<times> pyval) list \<times> bool) res"
  and decode_list :: "codec_env \<Rightarrow> pyval list \<Rightarrow> (pyval list \<times> bool) res"
  and rebuild :: "codec_env \<Rightarrow> string \<Rightarrow> pyval \<Rightarrow> pyval res" where
  "decode_obj env (PDict d) =
     (case map_of d RESERVED of
        Some t \<Rightarrow>
          if t = PNone then
            res_bind (decode_items env d) (\<lambda>(out, same).
              Inr (if same then PDict d else PDict out, same))
          else
            (case map_of d ''data'' of
               None \<Rightarrow> Inl (KeyError (py_repr ''data''))
             | Some data \<Rightarrow>
                 res_bind (rebuild_tag t) (\<lambda>tag.
                   res_bind (rebuild env tag data) (\<lambda>v. Inr (v, False))))
      | None \<Rightarrow>
          res_bind (decode_items env d) (\<lambda>(out, same).
            Inr (if same then PDict d else PDict out, same)))"
| "decode_obj env (PList xs) =
     res_bind (decode_list env xs) (\<lambda>(out, same).
       Inr (if same then PList xs else PList out, same))"
| "decode_obj env v = Inr (v, True)"
| "decode_items env [] = Inr ([], True)"
| "decode_items env ((k, v) # d) =
     res_bind (decode_obj env v) (\<lambda>(dv, same).
       res_bind (decode_items env d) (\<lambda>(out, same'). Inr ((k, dv) # out, same \<and> same')))"
| "decode_list env [] = Inr ([], True)"
| "decode_list env (v # xs) =
     res_bind (decode_obj env v) (\<lambda>(dv, same).
       res_bind (decode_list env xs) (\<lambda>(out, same'). Inr (dv # out, same \<and> same')))"
| "rebuild env tag data =
     (case map_of (registry env) tag of
        Some entry \<Rightarrow> entry_decode entry data
      | None \<Rightarrow>
         (case import_class env tag of
            Inl e \<Rightarrow> if import_failed e then Inl (no_codec tag) else Inl e
          | Inr ns \<Rightarrow>
             (case class_of_namespace ns of
                None \<Rightarrow> Inl (no_codec tag)
              | Some c \<Rightarrow>
                 (case kind_of env c of
                    Dataclass fs \<Rightarrow>
                      (case data of
                         PDict d \<Rightarrow>
                           res_bind (decode_items env d) (\<lambda>(kwargs, same). construct c fs kwargs)
                       | _ \<Rightarrow> Inl (AttributeError ''no attribute items''))
                  | PydanticModel \<Rightarrow> model_validate env c data
                  | PlainClass \<Rightarrow> Inl (no_codec tag)))))"
  by pat_completeness auto
termination
  by (relation "measure
       (\<lambda>x. case x of Inl (Inl (e, v)) \<Rightarrow> size v | Inl (Inr (e, d)) \<Rightarrow> attrs_size d
             | Inr (Inl (e, xs)) \<Rightarrow> size_list size xs | Inr (Inr (e, t, v)) \<Rightarrow> size v)")
    (auto simp: attrs_size_lookup less_Suc_eq)

declare rebuild.simps [simp del]

definition decode_payload :: "codec_env \<Rightarrow> pyval \<Rightarrow> pyval res" where
  "decode_payload env v = res_bind (decode_obj env v) (\<lambda>(dv, same). Inr dv)"

subsection \<open>Classes found by their tag\<close>

lemma import_class_toplevel:
  assumes "CHR ''.'' \<notin> set (cls_qualname c)"
  shows "import_class env (tag_of c) =
           res_bind (import_module env (cls_module c)) (\<lambda>ns. getattr_path ns [cls_qualname c])"
  using assms rpartition_last [of "CHR ''.''" "cls_qualname c" "cls_module c"]
  by (simp add: import_class_def tag_of_def py_split_none)

text \<open>\<open>importable\<close>: the class is found under its own name in its own module.\<close>

definition importable :: "codec_env \<Rightarrow> pycls \<Rightarrow> bool" where
  "importable env c \<longleftrightarrow>
     CHR ''.'' \<notin> set (cls_qualname c) \<and>
     (case import_module env (cls_module c) of
        Inl e \<Rightarrow> False
      | Inr (NS x attrs) \<Rightarrow>
         (case map_of attrs (cls_qualname c) of
            None \<Rightarrow> False
          | Some ns \<Rightarrow> class_of_namespace ns = Some c))"

lemma importable_import:
  assumes "importable env c"
  shows "\<exists>attrs. import_class env (tag_of c) = Inr (NS (Some c) attrs)"
proof -
  from assms obtain x attrs attrs' where "CHR ''.'' \<notin> set (cls_qualname c)"
    "import_module env (cls_module c) = Inr (NS x attrs)"
    "map_of attrs (cls_qualname c) = Some (NS (Some c) attrs')"
    by (auto simp: importable_def class_of_namespace_def
        split: sum.splits namespace.splits option.splits)
  then show ?thesis by (simp add: import_class_toplevel)
qed

subsection \<open>Portable payloads\<close>

text \<open>
  The payloads that are promised to arrive: JSON data that avoids the reserved key, dataclass
  instances and Pydantic models that the receiver can import, and instances of a class with a
  registered codec whose \<^verbatim>\<open>decode\<close> undoes its \<^verbatim>\<open>encode\<close>.
\<close>

definition plain_builtin :: "codec_env \<Rightarrow> string \<Rightarrow> bool" where
  "plain_builtin env n \<longleftrightarrow> map_of (registry env) (tag_of (builtin n)) = None"

definition dumps_back :: "(pyval \<Rightarrow> pyval res) \<Rightarrow> (pyval \<Rightarrow> pyval res) \<Rightarrow> pyval \<Rightarrow> bool" where
  "dumps_back enc dec v \<longleftrightarrow>
     (case enc v of Inl e \<Rightarrow> False
      | Inr data \<Rightarrow> wire_safe data \<and> dec (untuple data) = Inr (untuple v))"

fun portable :: "codec_env \<Rightarrow> pyval \<Rightarrow> bool"
  and portable_list :: "codec_env \<Rightarrow> pyval list \<Rightarrow> bool"
  and portable_items :: "codec_env \<Rightarrow> (string \<times> pyval) list \<Rightarrow> bool" where
  "portable env (PList xs) = (plain_builtin env ''list'' \<and> portable_list env xs)"
| "portable env (PTuple xs) = (plain_builtin env ''tuple'' \<and> portable_list env xs)"
| "portable env (PDict d) =
     (plain_builtin env ''dict'' \<and> distinct (keys d) \<and> RESERVED \<notin> set (keys d)
      \<and> portable_items env d)"
| "portable env (PObj c attrs) =
     (case map_of (registry env) (tag_of c) of
        Some entry \<Rightarrow> dumps_back (entry_encode entry) (entry_decode entry) (PObj c attrs)
      | None \<Rightarrow> importable env c \<and>
         (case kind_of env c of
            Dataclass fs \<Rightarrow>
              keys attrs = keys fs \<and> distinct (keys fs) \<and> portable_items env attrs
          | PydanticModel \<Rightarrow> dumps_back (model_dump env) (model_validate env c) (PObj c attrs)
          | PlainClass \<Rightarrow> False))"
| "portable env v = wire_safe v"
| "portable_list env [] = True"
| "portable_list env (v # xs) = (portable env v \<and> portable_list env xs)"
| "portable_items env [] = True"
| "portable_items env ((k, v) # d) = (portable env v \<and> portable_items env d)"

subsection \<open>Sharing is sound\<close>

lemma encode_shares:
  shows "encode_obj env v = Inr (e, True) \<Longrightarrow> e = v"
    and "True"
    and "encode_items env d = Inr (out, True) \<Longrightarrow> out = d"
    and "encode_list env xs = Inr (outs, True) \<Longrightarrow> outs = xs"
proof (induction env v and env "fs :: (string \<times> pyval option) list" "attrs :: (string \<times> pyval) list"
      and env d and env xs arbitrary: e and e and out and outs rule: encode_obj_encode_fields_encode_items_encode_list.induct)
  case (1 env v)
  then show ?case
    by (subst (asm) encode_obj.simps)
      (auto split: if_splits option.splits pyval.splits class_kind.splits)
next
  case (5 env k v d)
  from "5.prems" obtain ev out' where
    ev: "encode_obj env v = Inr (ev, True)" and out': "encode_items env d = Inr (out', True)"
    and out: "out = (k, ev) # out'" by auto
  from "5.IH"(1) [OF ev] "5.IH"(2) [OF ev refl out'] out show ?case by simp
next
  case (7 env v xs)
  from "7.prems" obtain ev outs' where
    ev: "encode_obj env v = Inr (ev, True)" and outs': "encode_list env xs = Inr (outs', True)"
    and outs: "outs = ev # outs'" by auto
  from "7.IH"(1) [OF ev] "7.IH"(2) [OF ev refl outs'] outs show ?case by simp
qed auto

subsection \<open>Round trip\<close>

lemma encode_fields_items:
  assumes "keys fs = keys ps" and "\<And>f v. (f, v) \<in> set ps \<Longrightarrow> map_of attrs f = Some v"
  shows "encode_fields env fs attrs = res_bind (encode_items env ps) (\<lambda>(out, same). Inr out)"
  using assms
proof (induction ps arbitrary: fs)
  case Nil
  then show ?case by simp
next
  case (Cons p ps)
  obtain f v where p: "p = (f, v)" by (cases p)
  obtain dflt fs' where fs: "fs = (f, dflt) # fs'" "keys fs' = keys ps"
    using Cons.prems(1) p by (cases fs) auto
  have "encode_fields env fs' attrs = res_bind (encode_items env ps) (\<lambda>(out, same). Inr out)"
    using Cons.IH [OF fs(2)] Cons.prems(2) by simp
  moreover have "map_of attrs f = Some v" using Cons.prems(2) p by simp
  ultimately show ?case
    by (cases "encode_obj env v"; cases "encode_items env ps") (auto simp: fs p)
qed

lemma lookup_self: "distinct (keys d) \<Longrightarrow> (k, v) \<in> set d \<Longrightarrow> map_of d k = Some v"
  by simp

lemma map_lookup_fields:
  assumes "keys ps = keys fs" and "\<And>f v. (f, v) \<in> set ps \<Longrightarrow> map_of d f = Some v"
  shows "map (\<lambda>(f, dflt). (f, case map_of d f of Some v \<Rightarrow> v | None \<Rightarrow> the dflt)) fs = ps"
  using assms
proof (induction ps arbitrary: fs)
  case Nil
  then show ?case by simp
next
  case (Cons p ps)
  obtain f v where p: "p = (f, v)" by (cases p)
  obtain dflt fs' where fs: "fs = (f, dflt) # fs'" "keys ps = keys fs'"
    using Cons.prems(1) p by (cases fs) auto
  have "map (\<lambda>(f, dflt). (f, case map_of d f of Some v \<Rightarrow> v | None \<Rightarrow> the dflt)) fs' = ps"
    using Cons.IH [OF fs(2)] Cons.prems(2) by simp
  moreover have "map_of d f = Some v" using Cons.prems(2) p by simp
  ultimately show ?case by (simp add: fs p)
qed

lemma construct_all_fields:
  assumes "keys kwargs = keys fs" and "distinct (keys fs)"
  shows "construct c fs kwargs = Inr (PObj c kwargs)"
proof -
  have "map_of kwargs f \<noteq> None" if "(f, dflt) \<in> set fs" for f dflt
  proof -
    have "f \<in> set (keys fs)" using that by force
    then show ?thesis using assms(1) by (simp only: has_key_iff)
  qed
  then have "\<not> (\<exists>(f, dflt) \<in> set fs. dflt = None \<and> map_of kwargs f = None)" by blast
  moreover have "map (\<lambda>(f, dflt). (f, case map_of kwargs f of Some v \<Rightarrow> v | None \<Rightarrow> the dflt)) fs = kwargs"
    using assms by (intro map_lookup_fields) (auto intro: lookup_self)
  moreover have "set (keys kwargs) \<subseteq> set (keys fs)" using assms(1) by simp
  ultimately show ?thesis by (simp only: construct_def if_False not_True_eq_False)
qed

lemma envelope_decode:
  "decode_obj env (untuple (envelope c data)) =
     res_bind (rebuild env (tag_of c) (untuple data)) (\<lambda>v. Inr (v, False))"
  by (simp add: envelope_def RESERVED_def)

lemma wire_safe_envelope [simp]: "wire_safe (envelope c data) \<longleftrightarrow> wire_safe data"
  by (simp add: envelope_def RESERVED_def)

definition trips :: "codec_env \<Rightarrow> pyval \<Rightarrow> bool" where
  "trips env v \<longleftrightarrow> (\<exists>e same same'. encode_obj env v = Inr (e, same) \<and> wire_safe e
     \<and> decode_obj env (untuple e) = Inr (untuple v, same'))"

lemma trips_dump:
  assumes "dumps_back enc dec v" and "encode_obj env v = res_bind (enc v) (\<lambda>data. Inr (envelope c data, False))"
    and "\<And>data. rebuild env (tag_of c) data = dec data"
  shows "trips env v"
proof -
  from assms(1) obtain data where "enc v = Inr data" "wire_safe data"
    "dec (untuple data) = Inr (untuple v)"
    by (auto simp: dumps_back_def split: sum.splits)
  with assms(2,3) show ?thesis by (auto simp: trips_def envelope_decode)
qed

lemma decode_shares:
  shows "decode_obj env v = Inr (w, True) \<Longrightarrow> w = v"
    and "decode_items env d = Inr (out, True) \<Longrightarrow> out = d"
    and "decode_list env xs = Inr (outs, True) \<Longrightarrow> outs = xs"
    and "True"
proof (induction env v and env d and env xs and env "tag :: string" "data :: pyval"
    arbitrary: w and out and outs and w rule: decode_obj_decode_items_decode_list_rebuild.induct)
  case (1 env d)
  then show ?case by (auto split: if_splits option.splits)
qed auto

lemma decode_dict:
  "map_of d RESERVED = None \<Longrightarrow>
   decode_obj env (PDict d) = res_bind (decode_items env d) (\<lambda>(out, same). Inr (PDict out, same))"
  using decode_shares(2) [of env d] by (cases "decode_items env d") auto

lemma decode_plist:
  "decode_obj env (PList xs) = res_bind (decode_list env xs) (\<lambda>(out, same). Inr (PList out, same))"
  using decode_shares(3) [of env xs] by (cases "decode_list env xs") auto

lemma portable_trips:
  shows "portable env v \<Longrightarrow> trips env v"
    and "portable_list env xs \<Longrightarrow> \<exists>out same same'. encode_list env xs = Inr (out, same)
           \<and> wire_safe_list out
           \<and> decode_list env (untuple_list out) = Inr (untuple_list xs, same')"
    and "portable_items env d \<Longrightarrow> \<exists>out same same'. encode_items env d = Inr (out, same)
           \<and> keys out = keys d \<and> wire_safe_items out
           \<and> decode_items env (untuple_items out) = Inr (untuple_items d, same')"
proof (induction env v and env xs and env d rule: portable_portable_list_portable_items.induct)
  case (1 env xs)
  then obtain out same same' where enc: "encode_list env xs = Inr (out, same)"
    and safe: "wire_safe_list out"
    and dec: "decode_list env (untuple_list out) = Inr (untuple_list xs, same')" by auto
  have "encode_obj env (PList xs) = Inr (PList out, same)"
    using 1 enc encode_shares(4) [of env xs out]
    by (auto simp: encode_obj.simps json_native_def plain_builtin_def)
  with safe dec show ?case by (auto simp: trips_def decode_plist simp del: decode_obj.simps)
next
  case (2 env xs)
  then obtain out same same' where enc: "encode_list env xs = Inr (out, same)"
    and safe: "wire_safe_list out"
    and dec: "decode_list env (untuple_list out) = Inr (untuple_list xs, same')" by auto
  have "encode_obj env (PTuple xs) = Inr (if same then PTuple xs else PList out, same)"
    using 2 enc by (simp add: encode_obj.simps json_native_def plain_builtin_def)
  moreover have "same \<Longrightarrow> out = xs" using enc encode_shares(4) [of env xs out] by simp
  ultimately show ?case using safe dec
    by (auto simp: trips_def decode_plist simp del: decode_obj.simps)
next
  case (3 env d)
  then obtain out same same' where enc: "encode_items env d = Inr (out, same)"
    and keys: "keys out = keys d" and safe: "wire_safe_items out"
    and dec: "decode_items env (untuple_items out) = Inr (untuple_items d, same')" by auto
  have "encode_obj env (PDict d) = Inr (PDict out, same)"
    using 3 enc encode_shares(3) [of env d out]
    by (auto simp: encode_obj.simps json_native_def plain_builtin_def)
  moreover have "map_of (untuple_items out) RESERVED = None"
    using 3 keys has_key_iff [of out RESERVED] by auto
  ultimately show ?case using 3 safe dec keys
    by (auto simp: trips_def decode_dict simp del: decode_obj.simps)
next
  case (4 env c attrs)
  show ?case
  proof (cases "map_of (registry env) (tag_of c)")
    case (Some entry)
    with 4 show ?thesis
      by (intro trips_dump [of "entry_encode entry" "entry_decode entry" _ _ c])
        (auto simp: encode_obj.simps json_native_def rebuild.simps)
  next
    case None
    with 4 obtain ns where imp: "import_class env (tag_of c) = Inr (NS (Some c) ns)"
      using importable_import by (fastforce)
    show ?thesis
    proof (cases "kind_of env c")
      case (Dataclass fs)
      with 4 None obtain out same same' where enc: "encode_items env attrs = Inr (out, same)"
        and keys: "keys out = keys attrs" and safe: "wire_safe_items out"
        and dec: "decode_items env (untuple_items out) = Inr (untuple_items attrs, same')"
        by auto
      from 4 None Dataclass have fs: "keys attrs = keys fs" "distinct (keys fs)" by auto
      have "encode_fields env fs attrs = Inr out"
        using encode_fields_items [of fs attrs attrs env] fs enc by (auto intro: lookup_self)
      then have "encode_obj env (PObj c attrs) = Inr (envelope c (PDict out), False)"
        using None Dataclass by (simp add: encode_obj.simps json_native_def)
      moreover have "rebuild env (tag_of c) (untuple (PDict out)) = Inr (untuple (PObj c attrs))"
        using None Dataclass imp dec fs construct_all_fields [of "untuple_items attrs" fs c]
        by (simp add: rebuild.simps class_of_namespace_def)
      ultimately show ?thesis using safe fs keys
        by (auto simp: trips_def envelope_decode simp del: decode_obj.simps untuple.simps)
    next
      case PydanticModel
      with 4 None imp show ?thesis
        by (intro trips_dump [of "model_dump env" "model_validate env c" _ _ c])
          (auto simp: encode_obj.simps json_native_def rebuild.simps class_of_namespace_def)
    next
      case PlainClass
      with 4 None show ?thesis by simp
    qed
  qed
qed (auto simp: trips_def encode_obj.simps json_native_def split: pyfloat.splits)

subsection \<open>The channel contract\<close>

text \<open>
  What the node promises its actors about a payload codec: an acceptable message crosses the wire
  and comes out as its canonical form. The clients of the contract need no more than this law.
\<close>

locale payload_channel =
  fixes enc :: "'m \<Rightarrow> pyval res"
    and dec :: "pyval \<Rightarrow> 'm res"
    and ok :: "'m \<Rightarrow> bool"
    and canon :: "'m \<Rightarrow> 'm"
  assumes trip: "ok m \<Longrightarrow> res_bind (enc m) (\<lambda>e. res_bind (over_wire e) dec) = Inr (canon m)"
begin

lemma send_accepted:
  "ok m \<Longrightarrow> \<exists>e w. enc m = Inr e \<and> over_wire e = Inr w \<and> dec w = Inr (canon m)"
  using trip [of m] by auto

lemma same_encoding_same_message:
  "ok m \<Longrightarrow> ok m' \<Longrightarrow> enc m = enc m' \<Longrightarrow> canon m = canon m'"
  using trip [of m] trip [of m'] by simp

lemma decode_never_fails: "ok m \<Longrightarrow> enc m = Inr e \<Longrightarrow> over_wire e = Inr w \<Longrightarrow> \<not> isl (dec w)"
  using trip [of m] by auto

end

lemma encode_decode_trip:
  assumes "portable env v"
  shows "res_bind (encode_payload env v) (\<lambda>e. res_bind (over_wire e) (decode_payload env))
         = Inr (untuple v)"
proof -
  from portable_trips(1) [OF assms] obtain e same same' where
    "encode_obj env v = Inr (e, same)" "wire_safe e"
    "decode_obj env (untuple e) = Inr (untuple v, same')" by (auto simp: trips_def)
  then show ?thesis by (simp add: encode_payload_def decode_payload_def over_wire_safe)
qed

interpretation codec: payload_channel
  "encode_payload env" "decode_payload env" "portable env" untuple for env
  by unfold_locales (rule encode_decode_trip)

subsection \<open>Properties of the codec\<close>

text \<open>A module \<^verbatim>\<open>app\<close> with one dataclass, for the examples below.\<close>

definition task_cls :: pycls where
  "task_cls = Cls ''app'' ''Task''"

definition sample_env :: codec_env where
  "sample_env = \<lparr>registry = [],
     kind_of = (\<lambda>c. if c = task_cls then Dataclass [(''payload_id'', None), (''name'', None)]
                    else PlainClass),
     import_module = (\<lambda>m. if m = ''app'' then Inr (NS None [(''Task'', NS (Some task_cls) [])])
                          else Inl (Exn ''ModuleNotFoundError'' m)),
     model_dump = (\<lambda>v. Inl (TypeError ''no'')), model_validate = (\<lambda>c v. Inl (TypeError ''no''))\<rparr>"

definition sample_msg :: pyval where
  "sample_msg = PDict [(''task'', PObj task_cls [(''payload_id'', PInt 7), (''name'', PStr ''x'')]),
                       (''tags'', PTuple [PBool True, PNone])]"



fun objectless :: "pyval \<Rightarrow> bool"
  and objectless_list :: "pyval list \<Rightarrow> bool"
  and objectless_items :: "(string \<times> pyval) list \<Rightarrow> bool" where
  "objectless (PList xs) = objectless_list xs"
| "objectless (PTuple xs) = objectless_list xs"
| "objectless (PDict d) = objectless_items d"
| "objectless (PObj c d) = False"
| "objectless v = True"
| "objectless_list [] = True"
| "objectless_list (x # xs) = (objectless x \<and> objectless_list xs)"
| "objectless_items [] = True"
| "objectless_items ((k, v) # d) = (objectless v \<and> objectless_items d)"

lemma encode_objectless:
  assumes "\<forall>n. plain_builtin env n"
  shows "objectless v \<Longrightarrow> encode_obj env v = Inr (v, True)"
    and "objectless_list xs \<Longrightarrow> encode_list env xs = Inr (xs, True)"
    and "objectless_items d \<Longrightarrow> encode_items env d = Inr (d, True)"
proof -
  have plain [simp]: "map_of (registry env) (tag_of (Cls ''builtins'' n)) = None" for n
    using assms by (simp add: plain_builtin_def)
  show "objectless v \<Longrightarrow> encode_obj env v = Inr (v, True)"
    and "objectless_list xs \<Longrightarrow> encode_list env xs = Inr (xs, True)"
    and "objectless_items d \<Longrightarrow> encode_items env d = Inr (d, True)"
    by (induction v and xs and d rule: objectless_objectless_list_objectless_items.induct)
      (auto simp: encode_obj.simps json_native_def)
qed

text \<open>A payload of JSON data only, with no codec registered for a built-in type, is not
  copied: \<^verbatim>\<open>_encode_obj\<close> returns the very object it was given, tuples included.\<close>

lemma json_payload_not_copied:
  assumes "objectless v" and "\<forall>n. map_of (registry env) (tag_of (builtin n)) = None"
  shows "encode_obj env v = Inr (v, True)"
  using assms by (intro encode_objectless(1)) (auto simp: plain_builtin_def)

lemma encode_dataclass:
  assumes "kind_of env c = Dataclass fs" and "map_of (registry env) (tag_of c) = None"
    and "encode_payload env (PObj c attrs) = Inr e"
  shows "\<exists>data. e = envelope c (PDict data)"
  using assms by (auto simp: encode_payload_def encode_obj.simps json_native_def)

lemma over_wire_envelope:
  "over_wire (envelope c (PDict data)) = Inr w \<Longrightarrow>
   \<exists>d'. w = PDict [(RESERVED, PStr (tag_of c)), (''data'', d')]"
  by (auto simp: over_wire_def envelope_def RESERVED_def)

lemma rebuild_no_import:
  assumes "map_of (registry env) (tag_of c) = None"
    and "import_module env (fst (rpartition (CHR ''.'') (tag_of c))) = Inl err"
    and "import_failed err"
  shows "rebuild env (tag_of c) d = Inl (no_codec (tag_of c))"
  using assms by (simp add: rebuild.simps import_class_def case_prod_beta)

text \<open>C31. A dataclass nested in another class can be sent but never received. Its tag is split at
  the last dot, so the receiver imports the enclosing class as a module; that import fails, and
  decoding ends in \<^verbatim>\<open>ValueError\<close> although the class is a dataclass and is importable.\<close>

theorem nested_dataclass_undecodable:
  assumes "kind_of env c = Dataclass fs" and "map_of (registry env) (tag_of c) = None"
    and "cls_qualname c = outer @ ''.'' @ inner" and "CHR ''.'' \<notin> set inner"
    and "import_module env (cls_module c @ ''.'' @ outer) = Inl err" and "import_failed err"
    and "encode_payload env (PObj c attrs) = Inr e" and "over_wire e = Inr w"
  shows "decode_payload env w = Inl (no_codec (tag_of c))"
proof -
  obtain data where "e = envelope c (PDict data)"
    using encode_dataclass assms(1,2,7) by blast
  then obtain d' where w: "w = PDict [(RESERVED, PStr (tag_of c)), (''data'', d')]"
    using over_wire_envelope assms(8) by blast
  have "fst (rpartition (CHR ''.'') (tag_of c)) = cls_module c @ ''.'' @ outer"
    using rpartition_last [of "CHR ''.''" inner "cls_module c @ ''.'' @ outer"] assms(3,4)
    by (simp add: tag_of_def)
  then have "rebuild env (tag_of c) d' = Inl (no_codec (tag_of c))"
    using rebuild_no_import assms(2,5,6) by simp
  with w show ?thesis by (simp add: decode_payload_def RESERVED_def)
qed

definition nested_cls :: pycls where
  "nested_cls = Cls ''app'' ''Outer.Inner''"

definition nested_env :: codec_env where
  "nested_env = sample_env\<lparr>kind_of := (\<lambda>c. Dataclass [(''x'', None)]),
     import_module := (\<lambda>m. if m = ''app''
        then Inr (NS None [(''Outer'', NS None [(''Inner'', NS (Some nested_cls) [])])])
        else Inl (Exn ''ModuleNotFoundError'' m))\<rparr>"

theorem nested_dataclass_undecodable_witness:
  "encode_payload nested_env (PObj nested_cls [(''x'', PInt 1)])
     = Inr (envelope nested_cls (PDict [(''x'', PInt 1)]))
   \<and> decode_payload nested_env (envelope nested_cls (PDict [(''x'', PInt 1)]))
     = Inl (no_codec ''app.Outer.Inner'')"
proof -
  have enc: "encode_payload nested_env (PObj nested_cls [(''x'', PInt 1)])
      = Inr (envelope nested_cls (PDict [(''x'', PInt 1)]))"
    by (simp add: encode_payload_def encode_obj.simps nested_env_def nested_cls_def sample_env_def
        json_native_def)
  have wire: "over_wire (envelope nested_cls (PDict [(''x'', PInt 1)]))
      = Inr (envelope nested_cls (PDict [(''x'', PInt 1)]))"
    by (simp add: over_wire_def envelope_def RESERVED_def i64_or_u64_def)
  have "decode_payload nested_env (envelope nested_cls (PDict [(''x'', PInt 1)]))
      = Inl (no_codec (tag_of nested_cls))"
    by (rule nested_dataclass_undecodable [where outer = "''Outer''" and inner = "''Inner''",
          OF _ _ _ _ _ _ enc wire])
      (auto simp: nested_env_def nested_cls_def sample_env_def import_failed_def)
  with enc show ?thesis by (simp add: nested_cls_def tag_of_def)
qed

end
