(* ===== verification/Mailbox.thy ===== *)
theory Mailbox
  imports Py_Values
begin

text \<open>
  \<^verbatim>\<open>asyncio.Queue\<close> as the library uses it: actor mailboxes, the hidden reply mailboxes of
  \<^verbatim>\<open>ask\<close>, and the queues of a worker pool. Only the non-blocking ends are used for writing
  (\<^verbatim>\<open>put_nowait\<close>), and a reader that finds the queue empty waits. A queue whose \<^verbatim>\<open>maxsize\<close> is
  not positive is unbounded.
\<close>

record 'm queue =
  maxsize :: int
  items :: "'m list"

definition new_queue :: "int \<Rightarrow> 'm queue" where
  "new_queue n = \<lparr>maxsize = n, items = []\<rparr>"

definition queue_full :: "'m queue \<Rightarrow> bool" where
  "queue_full q \<longleftrightarrow> 0 < maxsize q \<and> maxsize q \<le> int (length (items q))"

text \<open>\<^verbatim>\<open>put_nowait\<close>: None is the exception QueueFull.\<close>

definition put_nowait :: "'m \<Rightarrow> 'm queue \<Rightarrow> 'm queue option" where
  "put_nowait x q = (if queue_full q then None else Some (q\<lparr>items := items q @ [x]\<rparr>))"

text \<open>\<^verbatim>\<open>get\<close>: None means that the reader waits.\<close>

definition get_item :: "'m queue \<Rightarrow> ('m \<times> 'm queue) option" where
  "get_item q = (case items q of [] \<Rightarrow> None | x # xs \<Rightarrow> Some (x, q\<lparr>items := xs\<rparr>))"

definition queue_wf :: "'m queue \<Rightarrow> bool" where
  "queue_wf q \<longleftrightarrow> (0 < maxsize q \<longrightarrow> int (length (items q)) \<le> maxsize q)"

subsection \<open>Bounded first-in first-out channels\<close>

text \<open>
  The contract the senders and the readers rely on. \<open>traffic\<close> runs any interleaving of writes and
  reads and returns what was accepted, what was refused and what was read, each in order.
\<close>

datatype 'm op = Put 'm | Get

fun traffic :: "('m \<Rightarrow> 'q \<Rightarrow> 'q option) \<Rightarrow> ('q \<Rightarrow> ('m \<times> 'q) option) \<Rightarrow> 'q \<Rightarrow> 'm op list
                \<Rightarrow> 'm list \<times> 'm list \<times> 'm list \<times> 'q" where
  "traffic put get q [] = ([], [], [], q)"
| "traffic put get q (Put x # ops) =
     (case put x q of
        None \<Rightarrow> (let (acc, ref, got, q') = traffic put get q ops in (acc, x # ref, got, q'))
      | Some q1 \<Rightarrow> (let (acc, ref, got, q') = traffic put get q1 ops in (x # acc, ref, got, q')))"
| "traffic put get q (Get # ops) =
     (case get q of
        None \<Rightarrow> traffic put get q ops
      | Some (x, q1) \<Rightarrow> (let (acc, ref, got, q') = traffic put get q1 ops in (acc, ref, x # got, q')))"

locale bounded_fifo =
  fixes put :: "'m \<Rightarrow> 'q \<Rightarrow> 'q option"
    and get :: "'q \<Rightarrow> ('m \<times> 'q) option"
    and contents :: "'q \<Rightarrow> 'm list"
    and bound :: "'q \<Rightarrow> int"
  assumes put_Some: "put x q = Some q' \<Longrightarrow> contents q' = contents q @ [x] \<and> bound q' = bound q"
    and put_None: "put x q = None \<longleftrightarrow> 0 < bound q \<and> bound q \<le> int (length (contents q))"
    and get_Some: "get q = Some (x, q') \<Longrightarrow> contents q = x # contents q' \<and> bound q' = bound q"
    and get_None: "get q = None \<longleftrightarrow> contents q = []"
begin

lemma traffic_fifo:
  "traffic put get q ops = (acc, ref, got, q') \<Longrightarrow> got @ contents q' = contents q @ acc"
proof (induction ops arbitrary: q acc ref got)
  case Nil
  then show ?case by simp
next
  case (Cons p ops)
  then show ?case
  proof (cases p)
    case (Put x)
    with Cons show ?thesis
      by (cases "put x q") (auto split: prod.splits dest!: put_Some)
  next
    case Get
    with Cons show ?thesis
      by (cases "get q") (auto split: prod.splits dest!: get_Some)
  qed
qed

lemma traffic_bound:
  "traffic put get q ops = (acc, ref, got, q') \<Longrightarrow>
   bound q' = bound q \<and>
   (0 < bound q \<longrightarrow> int (length (contents q)) \<le> bound q \<longrightarrow> int (length (contents q')) \<le> bound q)"
proof (induction ops arbitrary: q acc ref got)
  case Nil
  then show ?case by simp
next
  case (Cons p ops)
  show ?case
  proof (cases p)
    case (Put x)
    show ?thesis
    proof (cases "put x q")
      case None
      with Put Cons show ?thesis by (auto split: prod.splits)
    next
      case (Some q1)
      then have "\<not> (0 < bound q \<and> bound q \<le> int (length (contents q)))"
        using put_None [of x q] by simp
      with Some Put Cons put_Some [OF Some] show ?thesis by (fastforce split: prod.splits)
    qed
  next
    case Get
    show ?thesis
    proof (cases "get q")
      case None
      with Get Cons show ?thesis by auto
    next
      case (Some r)
      with Get Cons get_Some [of q "fst r" "snd r"] show ?thesis
        by (cases r) (fastforce split: prod.splits)
    qed
  qed
qed

lemma unbounded_never_refuses:
  "bound q \<le> 0 \<Longrightarrow> traffic put get q ops = (acc, ref, got, q') \<Longrightarrow> ref = []"
proof (induction ops arbitrary: q acc ref got)
  case Nil
  then show ?case by simp
next
  case (Cons p ops)
  show ?case
  proof (cases p)
    case (Put x)
    with Cons.prems obtain q1 where q1: "put x q = Some q1"
      using put_None [of x q] by (cases "put x q") auto
    then have "bound q1 \<le> 0" using put_Some Cons.prems(1) by simp
    with Put Cons.prems q1 Cons.IH [of q1] show ?thesis by (auto split: prod.splits)
  next
    case Get
    show ?thesis
    proof (cases "get q")
      case None
      with Get Cons show ?thesis by simp
    next
      case (Some r)
      then have "bound (snd r) \<le> 0" using get_Some [of q "fst r" "snd r"] Cons.prems(1) by simp
      with Get Some Cons.prems(2) Cons.IH [of "snd r"] show ?thesis
        by (cases r) (auto split: prod.splits)
    qed
  qed
qed

end

interpretation mailbox: bounded_fifo put_nowait get_item items maxsize
  by unfold_locales
    (auto simp: put_nowait_def queue_full_def get_item_def split: if_splits list.splits)

subsection \<open>Properties of the queues\<close>

lemma queue_wf_iff: "queue_wf q \<longleftrightarrow> maxsize q \<le> 0 \<or> int (length (items q)) \<le> maxsize q"
  by (auto simp: queue_wf_def)

lemma queue_wf_new [wf_intros, simp]: "queue_wf (new_queue n)"
  by (simp add: queue_wf_def new_queue_def)

lemma queue_wf_put [wf_intros]: "put_nowait x q = Some q' \<Longrightarrow> queue_wf q'"
  by (auto simp: queue_wf_def put_nowait_def queue_full_def split: if_splits)

lemma queue_wf_get [wf_intros]: "queue_wf q \<Longrightarrow> get_item q = Some (x, q') \<Longrightarrow> queue_wf q'"
  by (auto simp: queue_wf_def get_item_def split: list.splits)

lemma put_nowait_Some [simp]:
  "put_nowait x q = Some q' \<longleftrightarrow> \<not> queue_full q \<and> q' = q\<lparr>items := items q @ [x]\<rparr>"
  by (auto simp: put_nowait_def)

lemma put_nowait_None [simp]: "put_nowait x q = None \<longleftrightarrow> queue_full q"
  by (simp add: put_nowait_def)

lemma get_item_Some: "get_item q = Some (x, q') \<longleftrightarrow> items q = x # items q' \<and> q' = q\<lparr>items := items q'\<rparr>"
  by (cases q; cases q') (auto simp: get_item_def split: list.splits)

text \<open>Any interleaving of sends and reads: what was read followed by what is still queued is what was
  queued followed by what was accepted; a positive capacity is never exceeded and an unbounded
  mailbox refuses nothing.\<close>

lemma mailbox_traffic:
  assumes "traffic put_nowait get_item q ops = (accepted, refused, received, q')" and "queue_wf q"
  shows "received @ items q' = items q @ accepted" and "queue_wf q'"
    and "maxsize q \<le> 0 \<Longrightarrow> refused = []"
  using assms mailbox.traffic_fifo [OF assms(1)] mailbox.traffic_bound [OF assms(1)]
    mailbox.unbounded_never_refuses [OF _ assms(1)]
  by (auto simp: queue_wf_iff)

end
