(* ===== verification/Node_Id.thy ===== *)
theory Node_Id
  imports Prelude "HOL-Library.Word"
begin

text \<open>
  Node identities, \<^verbatim>\<open>name@host:port\<close> (\<^verbatim>\<open>src/src/runtime/node_id.rs\<close>), and the id a \<^verbatim>\<open>Node\<close> builds
  from its constructor arguments (\<^verbatim>\<open>Node._build_id\<close> of \<^verbatim>\<open>src/lapinbeam/node.py\<close>).
\<close>

datatype node_id_error = MissingAt | MissingPort | EmptyName | EmptyHost | InvalidPort

record nodeid =
  nid_name :: string
  nid_host :: string
  nid_port :: "16 word"

subsection \<open>Decimal numbers\<close>

definition digit_char :: "nat \<Rightarrow> char" where
  "digit_char d = char_of (48 + d)"

definition digit_val :: "char \<Rightarrow> nat option" where
  "digit_val c = (let n = of_char c :: nat in if 48 \<le> n \<and> n < 58 then Some (n - 48) else None)"

fun show_nat :: "nat \<Rightarrow> string" where
  "show_nat n = (if n < 10 then [digit_char n] else show_nat (n div 10) @ [digit_char (n mod 10)])"

declare show_nat.simps [simp del]

fun parse_digits :: "nat \<Rightarrow> string \<Rightarrow> nat option" where
  "parse_digits acc [] = Some acc"
| "parse_digits acc (c # s) =
     (case digit_val c of None \<Rightarrow> None | Some d \<Rightarrow> parse_digits (10 * acc + d) s)"

text \<open>\<^verbatim>\<open>str::parse::<u16>\<close>: an optional plus sign, at least one digit, no overflow.\<close>

definition parse_u16 :: "string \<Rightarrow> 16 word option" where
  "parse_u16 s =
     (let ds = (case s of c # s' \<Rightarrow> if c = CHR ''+'' then s' else s | [] \<Rightarrow> [])
      in if ds = [] then None
         else case parse_digits 0 ds of
                None \<Rightarrow> None
              | Some n \<Rightarrow> if n < 2 ^ 16 then Some (of_nat n) else None)"

lemma digit_val_char [simp]: "d < 10 \<Longrightarrow> digit_val (digit_char d) = Some d"
  by (simp add: digit_val_def digit_char_def)

lemma parse_digits_append:
  "parse_digits acc (s @ t) =
     (case parse_digits acc s of None \<Rightarrow> None | Some n \<Rightarrow> parse_digits n t)"
  by (induction acc s rule: parse_digits.induct) (auto split: option.split)

lemma parse_show_nat [simp]: "parse_digits 0 (show_nat n) = Some n"
proof (induction n rule: show_nat.induct)
  case (1 n)
  show ?case
  proof (cases "n < 10")
    case True
    then show ?thesis by (subst show_nat.simps) simp
  next
    case False
    then show ?thesis using 1 by (subst show_nat.simps) (simp add: parse_digits_append)
  qed
qed

lemma show_nat_digits: "c \<in> set (show_nat n) \<Longrightarrow> \<exists>d < 10. c = digit_char d"
proof (induction n rule: show_nat.induct)
  case (1 n)
  show ?case
  proof (cases "n < 10")
    case True
    then show ?thesis using "1.prems" by (subst (asm) show_nat.simps) auto
  next
    case False
    then have "c \<in> set (show_nat (n div 10)) \<or> c = digit_char (n mod 10)"
      using "1.prems" by (subst (asm) show_nat.simps) auto
    then show ?thesis using 1 False by (auto intro: exI [of _ "n mod 10"])
  qed
qed

lemma digit_char_not [simp]:
  "d < 10 \<Longrightarrow> of_char c < (48 :: nat) \<or> 58 \<le> (of_char c :: nat) \<Longrightarrow> digit_char d \<noteq> c"
  by (auto simp: digit_char_def)

lemma show_nat_avoids:
  assumes "of_char c < (48 :: nat) \<or> 58 \<le> (of_char c :: nat)"
  shows "c \<notin> set (show_nat n)"
  using show_nat_digits digit_char_not [OF _ assms] by blast

lemma show_nat_nonempty [simp]: "show_nat n \<noteq> []"
  by (subst show_nat.simps) simp

lemma parse_show_u16 [simp]: "parse_u16 (show_nat (unat p)) = Some p"
proof -
  have plus: "CHR ''+'' \<notin> set (show_nat (unat p))" by (rule show_nat_avoids) simp
  have "(case show_nat (unat p) of c # s' \<Rightarrow> if c = CHR ''+'' then s' else show_nat (unat p) | [] \<Rightarrow> [])
        = show_nat (unat p)"
    using plus by (cases "show_nat (unat p)") auto
  moreover have "unat p < 2 ^ 16" using unsigned_less [of p] by simp
  ultimately show ?thesis by (simp add: parse_u16_def)
qed

subsection \<open>Parsing and printing\<close>

text \<open>\<^verbatim>\<open>split_once\<close> cuts at the first, \<^verbatim>\<open>rsplit_once\<close> at the last occurrence.\<close>

definition split_once :: "char \<Rightarrow> string \<Rightarrow> (string \<times> string) option" where
  "split_once c s =
     (if c \<in> set s then Some (takeWhile (\<lambda>x. x \<noteq> c) s, tl (dropWhile (\<lambda>x. x \<noteq> c) s)) else None)"

definition rsplit_once :: "char \<Rightarrow> string \<Rightarrow> (string \<times> string) option" where
  "rsplit_once c s = (if c \<in> set s then Some (rpartition c s) else None)"

definition parse :: "string \<Rightarrow> node_id_error + nodeid" where
  "parse s =
     (case split_once (CHR ''@'') s of
        None \<Rightarrow> Inl MissingAt
      | Some (name, addr) \<Rightarrow>
         (case rsplit_once (CHR '':'') addr of
            None \<Rightarrow> Inl MissingPort
          | Some (host, port_str) \<Rightarrow>
              if name = [] then Inl EmptyName
              else if host = [] then Inl EmptyHost
              else case parse_u16 port_str of
                     None \<Rightarrow> Inl InvalidPort
                   | Some port \<Rightarrow>
                       Inr \<lparr>nid_name = name, nid_host = host, nid_port = port\<rparr>))"

definition with_port :: "nodeid \<Rightarrow> 16 word \<Rightarrow> nodeid" where
  "with_port i p = i\<lparr>nid_port := p\<rparr>"

definition address :: "nodeid \<Rightarrow> string" where
  "address i = nid_host i @ '':'' @ show_nat (unat (nid_port i))"

definition to_full :: "nodeid \<Rightarrow> string" where
  "to_full i = nid_name i @ ''@'' @ address i"

fun error_text :: "node_id_error \<Rightarrow> string" where
  "error_text MissingAt = ''expected '' @ py_repr ''name@host:port''"
| "error_text MissingPort = ''expected '' @ py_repr ''host:port'' @ '' in node id''"
| "error_text EmptyName = ''node name must not be empty''"
| "error_text EmptyHost = ''host must not be empty''"
| "error_text InvalidPort = ''port must be a number''"

text \<open>\<^verbatim>\<open>Node._build_id(node_name, listen_port)\<close>, with the machine's host name as an argument.\<close>

definition build_id :: "string \<Rightarrow> string \<Rightarrow> nat option \<Rightarrow> string" where
  "build_id hostname node_name listen_port =
     (if CHR ''@'' \<in> set node_name then node_name
      else let host = (if hostname = [] then ''127.0.0.1'' else hostname);
               port = (case listen_port of None \<Rightarrow> 0 | Some p \<Rightarrow> p)
           in node_name @ ''@'' @ host @ '':'' @ show_nat port)"

lemma split_once_append:
  "c \<notin> set s \<Longrightarrow> split_once c (s @ [c] @ t) = Some (s, t)"
proof -
  assume c: "c \<notin> set s"
  have "takeWhile (\<lambda>x. x \<noteq> c) (s @ c # t) = s" using c by (subst takeWhile_append2) auto
  moreover have "dropWhile (\<lambda>x. x \<noteq> c) (s @ c # t) = c # t"
    using c by (subst dropWhile_append2) auto
  ultimately show ?thesis by (simp add: split_once_def)
qed

lemma parse_of_parts:
  assumes "CHR ''@'' \<notin> set name" and "CHR '':'' \<notin> set port_str"
  shows "parse (name @ ''@'' @ host @ '':'' @ port_str) =
           (if name = [] then Inl EmptyName else if host = [] then Inl EmptyHost
            else case parse_u16 port_str of None \<Rightarrow> Inl InvalidPort
                 | Some p \<Rightarrow> Inr \<lparr>nid_name = name, nid_host = host, nid_port = p\<rparr>)"
proof -
  have "split_once (CHR ''@'') (name @ ''@'' @ host @ '':'' @ port_str)
      = Some (name, host @ '':'' @ port_str)"
    using split_once_append [OF assms(1), of "host @ '':'' @ port_str"] by simp
  moreover have "rsplit_once (CHR '':'') (host @ '':'' @ port_str) = Some (host, port_str)"
    using rpartition_last [OF assms(2), of host] by (simp add: rsplit_once_def)
  ultimately show ?thesis by (simp add: parse_def)
qed

definition nodeid_ok :: "nodeid \<Rightarrow> bool" where
  "nodeid_ok i \<longleftrightarrow> CHR ''@'' \<notin> set (nid_name i) \<and> nid_name i \<noteq> [] \<and> nid_host i \<noteq> []"

lemma parse_to_full_ok: "nodeid_ok i \<Longrightarrow> parse (to_full i) = Inr i"
proof -
  assume ok: "nodeid_ok i"
  have "CHR '':'' \<notin> set (show_nat (unat (nid_port i)))" by (rule show_nat_avoids) simp
  with ok parse_of_parts [of "nid_name i" "show_nat (unat (nid_port i))" "nid_host i"]
  show ?thesis by (simp add: nodeid_ok_def to_full_def address_def)
qed

lemma split_once_Some:
  assumes "split_once c s = Some (a, b)"
  shows "s = a @ [c] @ b \<and> c \<notin> set a"
proof -
  from assms have c: "c \<in> set s" and a: "a = takeWhile (\<lambda>x. x \<noteq> c) s"
    and b: "b = tl (dropWhile (\<lambda>x. x \<noteq> c) s)" by (auto simp: split_once_def split: if_splits)
  have ne: "dropWhile (\<lambda>x. x \<noteq> c) s \<noteq> []" using c by (simp add: dropWhile_eq_Nil_conv)
  from hd_dropWhile [OF ne] ne b have "dropWhile (\<lambda>x. x \<noteq> c) s = c # b"
    by (cases "dropWhile (\<lambda>x. x \<noteq> c) s") simp_all
  then have "s = a @ c # b"
    using takeWhile_dropWhile_id [of "\<lambda>x. x \<noteq> c" s] a by simp
  moreover have "c \<notin> set a" using a by (auto dest: set_takeWhileD)
  ultimately show ?thesis by simp
qed

lemma parse_ok: "parse s = Inr i \<Longrightarrow> nodeid_ok i"
  by (auto simp: parse_def nodeid_ok_def split: option.splits prod.splits if_splits
      dest: split_once_Some)

text \<open>Two ids print the same only if they are the same.\<close>

lemma to_full_inject: "nodeid_ok i \<Longrightarrow> nodeid_ok j \<Longrightarrow> to_full i = to_full j \<longleftrightarrow> i = j"
  using parse_to_full_ok by (metis Inr_inject)

subsection \<open>Properties of node ids\<close>

text \<open>C33. Every accepted id is printed to a text that parses back to the same id, and the printed text
  identifies it: two accepted ids with the same full text are equal.\<close>

theorem node_id_roundtrip:
  assumes "parse s = Inr i" and "parse t = Inr j"
  shows "parse (to_full i) = Inr i \<and> (to_full i = to_full j \<longleftrightarrow> i = j)"
  using parse_to_full_ok [OF parse_ok] to_full_inject [OF parse_ok parse_ok] assms by blast

theorem node_id_roundtrip_witness:
  "\<exists>i. parse ''a@::1:+080'' = Inr i \<and> parse (to_full i) = Inr i
       \<and> to_full i = ''a@::1:80''"
proof -
  have p: "parse ''a@::1:+080'' = Inr \<lparr>nid_name = ''a'', nid_host = ''::1'', nid_port = 80\<rparr>"
    by (simp add: parse_def split_once_def rsplit_once_def rpartition_def parse_u16_def
        digit_val_def)
  have "to_full \<lparr>nid_name = ''a'', nid_host = ''::1'', nid_port = 80\<rparr> = ''a@::1:80''"
    by code_simp
  with p node_id_roundtrip [OF p p] show ?thesis by blast
qed

text \<open>A node named without a host gets a full id that the transport accepts, with the machine's
  host name, or the loopback address when there is none, and the requested port or 0.\<close>

lemma build_id_parses:
  assumes "CHR ''@'' \<notin> set node_name" and "node_name \<noteq> []"
    and "case listen_port of None \<Rightarrow> True | Some p \<Rightarrow> p < 2 ^ 16"
  shows "parse (build_id hostname node_name listen_port) =
           Inr \<lparr>nid_name = node_name,
                nid_host = (if hostname = [] then ''127.0.0.1'' else hostname),
                nid_port = (case listen_port of None \<Rightarrow> 0 | Some p \<Rightarrow> of_nat p)\<rparr>"
proof -
  define port where "port = (case listen_port of None \<Rightarrow> 0 | Some p \<Rightarrow> p)"
  define host where "host = (if hostname = [] then ''127.0.0.1'' else hostname)"
  have lt: "port < 2 ^ 16" using assms(3) by (cases listen_port) (auto simp: port_def)
  then have u: "unat (of_nat port :: 16 word) = port" by (simp add: unat_of_nat)
  have colon: "CHR '':'' \<notin> set (show_nat port)" by (rule show_nat_avoids) simp
  have "parse_u16 (show_nat port) = Some (of_nat port)"
    using parse_show_u16 [of "of_nat port :: 16 word"] u by simp
  then have "parse (node_name @ ''@'' @ host @ '':'' @ show_nat port) =
      Inr \<lparr>nid_name = node_name, nid_host = host, nid_port = of_nat port\<rparr>"
    using parse_of_parts [OF assms(1) colon, of host] assms(2) by (simp add: host_def)
  moreover have "(of_nat port :: 16 word) = (case listen_port of None \<Rightarrow> 0 | Some p \<Rightarrow> of_nat p)"
    by (cases listen_port) (simp_all add: port_def)
  ultimately show ?thesis using assms(1) by (simp add: build_id_def Let_def host_def port_def)
qed

end
