(* ===== verification/Node_State.thy ===== *)
theory Node_State
  imports Codec Mailbox Node_Id
begin

text \<open>
  The state of a node: the attributes that \<^verbatim>\<open>Node.__init__\<close> creates (\<^verbatim>\<open>src/lapinbeam/node.py\<close>), the
  part of the native transport that the Python side observes (\<^verbatim>\<open>src/src/transport/mod.rs\<close> behind
  \<^verbatim>\<open>src/src/py/node.rs\<close>), and the vocabulary of events and background tasks.

  Objects that the code compares or shares by identity live in stores indexed by a number:
  mailboxes (\<open>queues\<close>), futures (\<open>futures\<close>) and the supervisor's child records (\<open>children\<close>).
  \<^verbatim>\<open>asyncio.create_task\<close> appends to \<open>tasks\<close>, the loop's queue of coroutines that have not run
  yet; a coroutine without a suspension point runs to its end in one turn, so a task is the call
  it will make. User callbacks registered with \<^verbatim>\<open>on_event\<close> are arbitrary code whose exceptions
  the node swallows: the model records the calls in \<open>event_log\<close>.
\<close>

subsection \<open>Messages\<close>

record meta =
  m_src :: "string option"
  m_reply_to :: "string option"
  m_correlation_id :: "int option"
  m_msg_id :: "nat option"

type_synonym message = "pyval \<times> meta"

subsection \<open>Events and tasks\<close>

datatype event =
    Ev_peer_connected string
  | Ev_peer_disconnected string
  | Ev_error string string "int option"
  | Ev_decode_error string string
  | Ev_reconnect_gave_up string
  | Ev_supervisor_gave_up string string
  | Ev_mailbox_full string
  | Ev_registry_conflict string "string \<times> string" "string \<times> string"
  | Ev_pool_worker_error string string
  | Ev_pool_queue_full string string

datatype listener = User_listener nat | Groups_listener | Registry_listener | Discovery_listener

datatype task =
    Deliver_exit string string string
  | Notify_remote_exit string string string string
  | Deliver_down string string string
  | Notify_remote_down string string string string
  | Send_group_delta string string "string \<times> string" string
  | Send_group_snapshot string
  | Send_registry_delta string string "string \<times> string" string
  | Send_registry_snapshot string
  | Deliver_callback string nat pyval meta

subsection \<open>The native transport\<close>

datatype frame =
    Data_frame nodeid string json nat "string option" "int option"
  | Error_frame nodeid string nat "int option"

text \<open>
  \<open>core_running\<close> says that \<^verbatim>\<open>start\<close> has bound the listener; \<open>core_closed\<close> holds the peers whose
  writer task has ended while the connection is still listed; the routing table maps a name to the
  mailbox that its delivery callback was created with; \<open>json_len\<close> is the size of a payload in
  bytes.
\<close>

record core =
  core_local :: nodeid
  core_running :: bool
  core_peers :: "nodeid list"
  core_closed :: "nodeid list"
  core_desired :: "nodeid list"
  core_routing :: "(string, nat) dict"
  core_out :: "frame list"
  core_events :: "event list"
  core_msg_id :: nat
  json_len :: "json \<Rightarrow> nat"

definition MAX_FRAME_SIZE :: nat where
  "MAX_FRAME_SIZE = 16 * 1024 * 1024"

definition not_started :: exn where
  "not_started = RuntimeError ''node has not been started''"

definition require :: "core \<Rightarrow> unit res" where
  "require c = (if core_running c then Inr () else Inl not_started)"

text \<open>A correlation id crosses the boundary as an unsigned 64-bit integer; the conversion of the
  arguments comes before the body of a call.\<close>

definition u64_arg :: "int option \<Rightarrow> unit res" where
  "u64_arg corr =
     (case corr of
        None \<Rightarrow> Inr ()
      | Some c \<Rightarrow>
          if c < 0 then Inl (Exn ''OverflowError''
                              (''can'' @ [CHR 0x27] @ ''t convert negative int to unsigned''))
          else if 2 ^ 64 \<le> c then Inl (Exn ''OverflowError'' ''int too big to convert'')
          else Inr ())"

definition parse_peer :: "string \<Rightarrow> nodeid res" where
  "parse_peer peer_id =
     (case parse peer_id of
        Inl e \<Rightarrow> Inl (ValueError (''invalid peer id: '' @ error_text e))
      | Inr p \<Rightarrow> Inr p)"

text \<open>The arguments of \<^verbatim>\<open>send_data\<close>, in the order in which they are checked.\<close>

definition send_args ::
  "core \<Rightarrow> string \<Rightarrow> pyval \<Rightarrow> int option \<Rightarrow> (nodeid \<times> json) res" where
  "send_args c peer_id payload corr =
     res_bind (u64_arg corr) (\<lambda>_.
     res_bind (parse_peer peer_id) (\<lambda>peer.
     res_bind (py_to_json payload) (\<lambda>j.
     res_bind (require c) (\<lambda>_. Inr (peer, j)))))"

text \<open>\<^verbatim>\<open>Transport::send_data_bytes\<close>; the message id is drawn before the peer is looked up.\<close>

definition send_data_bytes ::
  "core \<Rightarrow> nodeid \<Rightarrow> string \<Rightarrow> json \<Rightarrow> string option \<Rightarrow> int option \<Rightarrow> unit res \<times> core" where
  "send_data_bytes c peer dst j reply_to corr =
     (if MAX_FRAME_SIZE < json_len c j
      then (Inl (ValueError (''send failed: payload too large ('' @ show_nat (json_len c j)
                 @ '' bytes)'')), c)
      else let c' = c\<lparr>core_msg_id := core_msg_id c + 1\<rparr>
           in if peer \<notin> set (core_peers c)
              then (Inl (ValueError ''send failed: peer not connected''), c')
              else if peer \<in> set (core_closed c)
              then (Inl (ValueError ''send failed: peer connection is closed''), c')
              else (Inr (), c'\<lparr>core_out := core_out c
                      @ [Data_frame peer dst j (core_msg_id c) reply_to corr]\<rparr>))"

definition core_send_data ::
  "core \<Rightarrow> string \<Rightarrow> string \<Rightarrow> pyval \<Rightarrow> string option \<Rightarrow> int option \<Rightarrow> unit res \<times> core" where
  "core_send_data c peer_id dst payload reply_to corr =
     (case send_args c peer_id payload corr of
        Inl e \<Rightarrow> (Inl e, c)
      | Inr (peer, j) \<Rightarrow> send_data_bytes c peer dst j reply_to corr)"

text \<open>\<^verbatim>\<open>Transport::send_error\<close>, whose own failure both callers ignore.\<close>

definition send_error :: "core \<Rightarrow> nodeid \<Rightarrow> string \<Rightarrow> int option \<Rightarrow> core" where
  "send_error c peer detail corr =
     (let c' = c\<lparr>core_msg_id := core_msg_id c + 1\<rparr>
      in if peer \<in> set (core_peers c) \<and> peer \<notin> set (core_closed c)
         then c'\<lparr>core_out := core_out c @ [Error_frame peer detail (core_msg_id c) corr]\<rparr>
         else c')"

definition core_notify_peer_error ::
  "core \<Rightarrow> string \<Rightarrow> string \<Rightarrow> int option \<Rightarrow> unit res \<times> core" where
  "core_notify_peer_error c peer_id detail corr =
     (case res_bind (u64_arg corr) (\<lambda>_. res_bind (parse_peer peer_id) (\<lambda>p.
             res_bind (require c) (\<lambda>_. Inr p))) of
        Inl e \<Rightarrow> (Inl e, c)
      | Inr peer \<Rightarrow> (Inr (), send_error c peer detail corr))"

definition core_register_actor :: "core \<Rightarrow> string \<Rightarrow> nat \<Rightarrow> unit res \<times> core" where
  "core_register_actor c name mailbox =
     (case require c of
        Inl e \<Rightarrow> (Inl e, c)
      | Inr _ \<Rightarrow> (Inr (), c\<lparr>core_routing := dict_set name mailbox (core_routing c)\<rparr>))"

definition core_unregister_actor :: "core \<Rightarrow> string \<Rightarrow> unit res \<times> core" where
  "core_unregister_actor c name =
     (case require c of
        Inl e \<Rightarrow> (Inl e, c)
      | Inr _ \<Rightarrow> (Inr (), c\<lparr>core_routing := dict_del name (core_routing c)\<rparr>))"

definition peer_arg :: "core \<Rightarrow> string \<Rightarrow> nodeid res" where
  "peer_arg c peer_id = res_bind (parse_peer peer_id) (\<lambda>p. res_bind (require c) (\<lambda>_. Inr p))"

definition core_has_peer :: "core \<Rightarrow> string \<Rightarrow> bool res" where
  "core_has_peer c peer_id = res_bind (peer_arg c peer_id) (\<lambda>p. Inr (p \<in> set (core_peers c)))"

definition core_peer_count :: "core \<Rightarrow> nat res" where
  "core_peer_count c = res_bind (require c) (\<lambda>_. Inr (length (core_peers c)))"

text \<open>\<^verbatim>\<open>connect_peer\<close> only spawns the dial; a peer that is not connected becomes desired.\<close>

definition core_connect_peer :: "core \<Rightarrow> string \<Rightarrow> unit res \<times> core" where
  "core_connect_peer c peer_id =
     (case peer_arg c peer_id of
        Inl e \<Rightarrow> (Inl e, c)
      | Inr p \<Rightarrow> (Inr (), if p \<in> set (core_peers c) then c
                          else c\<lparr>core_desired := set_add p (core_desired c)\<rparr>))"

definition core_forget_peer :: "core \<Rightarrow> string \<Rightarrow> unit res \<times> core" where
  "core_forget_peer c peer_id =
     (case peer_arg c peer_id of
        Inl e \<Rightarrow> (Inl e, c)
      | Inr p \<Rightarrow>
         (Inr (), c\<lparr>core_desired := set_discard p (core_desired c),
                    core_peers := set_discard p (core_peers c),
                    core_events := (if p \<in> set (core_peers c)
                                    then core_events c @ [Ev_peer_disconnected (to_full p)]
                                    else core_events c)\<rparr>))"

text \<open>The constructor of the native node, and \<^verbatim>\<open>start\<close>, which binds the listener. What the operating
  system answers is the argument \<open>bound\<close>: the port that was bound, or the text of the failure.\<close>

definition new_core :: "(json \<Rightarrow> nat) \<Rightarrow> string \<Rightarrow> core res" where
  "new_core len nid =
     (case parse nid of
        Inl e \<Rightarrow> Inl (ValueError (''invalid node id: '' @ error_text e))
      | Inr local \<Rightarrow> Inr \<lparr>core_local = local, core_running = False, core_peers = [], core_closed = [],
          core_desired = [], core_routing = [], core_out = [], core_events = [], core_msg_id = 1,
          json_len = len\<rparr>)"

definition core_start :: "core \<Rightarrow> string + 16 word \<Rightarrow> unit res \<times> core" where
  "core_start c bound =
     (case bound of
        Inl e \<Rightarrow> (Inl (RuntimeError (''failed to bind '' @ to_full (core_local c) @ '': '' @ e)), c)
      | Inr port \<Rightarrow> (Inr (), c\<lparr>core_local := with_port (core_local c) port, core_running := True\<rparr>))"

subsection \<open>Children and futures\<close>

datatype driver_state = Driver_none | Driver_running | Driver_cancelling | Driver_done

record child =
  child_name :: string
  child_mailbox :: nat
  child_driver :: driver_state
  child_pending_exit :: "exn option"

datatype future = Fut_pending | Fut_result | Fut_exception exn

subsection \<open>The node\<close>

record node =
  node_id :: string
  core :: "core option"
  codec_of :: codec_env
  mailbox_capacity :: "int option"
  mailboxes :: "(string, nat) dict"
  queues :: "(nat, message queue) dict"
  next_id :: nat
  started :: bool
  stopped :: "bool option"
  event_listeners :: "listener list"
  event_log :: "(nat \<times> event) list"
  peer_waiters :: "(string, nat list) dict"
  futures :: "(nat, future) dict"
  actor_tasks :: "nat list"
  links :: "(string, (string option \<times> string) list) dict"
  trap_exit_flags :: "(string, bool) dict"
  live_children :: "(string, nat) dict"
  children :: "(nat, child) dict"
  groups :: "(string, (string \<times> string) list) dict"
  group_peers :: "string list option"
  group_leave_hook :: bool
  monitors :: "(string, string \<times> string option \<times> string) dict"
  monitor_watchers :: "(string, (string, string option \<times> string) dict) dict"
  names :: "(string, string \<times> string) dict"
  registry_peers :: "string list option"
  registry_release_hook :: bool
  known_peers :: "string list"
  tasks :: "task list"

text \<open>\<^verbatim>\<open>Node.__init__\<close>, with the id already built by \<^verbatim>\<open>_build_id\<close>.\<close>

definition new_node :: "codec_env \<Rightarrow> string \<Rightarrow> int option \<Rightarrow> node" where
  "new_node env nid capacity = \<lparr>node_id = nid, core = None, codec_of = env,
     mailbox_capacity = capacity, mailboxes = [], queues = [], next_id = 0,
     started = False, stopped = None, event_listeners = [], event_log = [],
     peer_waiters = [], futures = [], actor_tasks = [], links = [], trap_exit_flags = [],
     live_children = [], children = [], groups = [], group_peers = None,
     group_leave_hook = False, monitors = [], monitor_watchers = [], names = [],
     registry_peers = None, registry_release_hook = False, known_peers = [], tasks = []\<rparr>"

definition local_id :: "node \<Rightarrow> string" where
  "local_id n = (case core n of None \<Rightarrow> node_id n | Some c \<Rightarrow> to_full (core_local c))"

definition create_task :: "task \<Rightarrow> node \<Rightarrow> node" where
  "create_task t n = n\<lparr>tasks := tasks n @ [t]\<rparr>"

definition create_tasks :: "task list \<Rightarrow> node \<Rightarrow> node" where
  "create_tasks ts n = n\<lparr>tasks := tasks n @ ts\<rparr>"

lemma create_tasks_Nil [simp]: "create_tasks [] n = n"
  by (simp add: create_tasks_def)

lemma create_task_as_tasks: "create_task t n = create_tasks [t] n"
  by (simp add: create_task_def create_tasks_def)

lemma create_tasks_append [simp]:
  "create_tasks us (create_tasks ts n) = create_tasks (ts @ us) n"
  by (simp add: create_tasks_def)

text \<open>The identity of a node depends on its core only.\<close>

lemma local_id_update [simp]:
  "local_id (codec_of_update f1 n) = local_id n"
  "local_id (mailbox_capacity_update f2 n) = local_id n"
  "local_id (mailboxes_update f3 n) = local_id n"
  "local_id (queues_update f4 n) = local_id n"
  "local_id (next_id_update f5 n) = local_id n"
  "local_id (started_update f6 n) = local_id n"
  "local_id (stopped_update f7 n) = local_id n"
  "local_id (event_listeners_update f8 n) = local_id n"
  "local_id (event_log_update f9 n) = local_id n"
  "local_id (peer_waiters_update f10 n) = local_id n"
  "local_id (futures_update f11 n) = local_id n"
  "local_id (actor_tasks_update f12 n) = local_id n"
  "local_id (links_update f13 n) = local_id n"
  "local_id (trap_exit_flags_update f14 n) = local_id n"
  "local_id (live_children_update f15 n) = local_id n"
  "local_id (children_update f16 n) = local_id n"
  "local_id (groups_update f17 n) = local_id n"
  "local_id (group_peers_update f18 n) = local_id n"
  "local_id (group_leave_hook_update f19 n) = local_id n"
  "local_id (monitors_update f20 n) = local_id n"
  "local_id (monitor_watchers_update f21 n) = local_id n"
  "local_id (names_update f22 n) = local_id n"
  "local_id (registry_peers_update f23 n) = local_id n"
  "local_id (registry_release_hook_update f24 n) = local_id n"
  "local_id (known_peers_update f25 n) = local_id n"
  "local_id (tasks_update f26 n) = local_id n"
  by (simp_all add: local_id_def split: option.split)

lemma local_id_tasks [simp]:
  "local_id (create_tasks ts n) = local_id n"
  "local_id (create_task t n) = local_id n"
  by (simp_all add: create_tasks_def create_task_def)

end
