(* ===== verification/Peer_Store.thy ===== *)
theory Peer_Store
  imports Node_State
begin

text \<open>
  What the cluster-wide tables have in common. Each table (groups, registered names, links,
  monitors) holds entries that belong to a peer, and loses exactly the entries of a peer when the
  peer drops off. \<open>peer_store\<close> is that interface; the tables interpret it in their own theories.

  The theory also holds the access to the fields of a control message. The modules exchange dicts
  whose fields are strings, lists of strings or dicts of those; a missing field raises KeyError
  as in Python, and a field of another shape, which no sender of the library produces, is
  answered by TypeError.
\<close>

locale peer_store =
  fixes wf :: "'s \<Rightarrow> bool"
    and entries :: "'s \<Rightarrow> 'e set"
    and origin :: "'e \<Rightarrow> string option"
    and drop_peer :: "string \<Rightarrow> 's \<Rightarrow> 's"
  assumes entries_drop: "wf s \<Longrightarrow> entries (drop_peer p s) = {e \<in> entries s. origin e \<noteq> Some p}"
    and wf_drop: "wf s \<Longrightarrow> wf (drop_peer p s)"
begin

lemma none_of_dropped: "wf s \<Longrightarrow> e \<in> entries (drop_peer p s) \<Longrightarrow> origin e \<noteq> Some p"
  by (simp add: entries_drop)

lemma others_kept:
  "wf s \<Longrightarrow> origin e \<noteq> Some p \<Longrightarrow> e \<in> entries (drop_peer p s) \<longleftrightarrow> e \<in> entries s"
  by (simp add: entries_drop)

lemma drop_idem: "wf s \<Longrightarrow> entries (drop_peer p (drop_peer p s)) = entries (drop_peer p s)"
  by (auto simp: entries_drop wf_drop)

lemma drop_commute:
  "wf s \<Longrightarrow> entries (drop_peer p (drop_peer q s)) = entries (drop_peer q (drop_peer p s))"
  by (auto simp: entries_drop wf_drop)

lemma drop_many:
  "wf s \<Longrightarrow> entries (fold drop_peer ps s) = {e \<in> entries s. origin e \<notin> Some ` set ps}"
  by (induction ps arbitrary: s) (auto simp: entries_drop wf_drop)

end

subsection \<open>Fields of control messages\<close>

fun getitem :: "pyval \<Rightarrow> string \<Rightarrow> pyval res" where
  "getitem (PDict d) k =
     (case map_of d k of None \<Rightarrow> Inl (KeyError (py_repr k)) | Some v \<Rightarrow> Inr v)"
| "getitem _ k = Inl (TypeError ''not subscriptable'')"

fun as_str :: "pyval \<Rightarrow> string res" where
  "as_str (PStr s) = Inr s"
| "as_str _ = Inl (TypeError ''a string is expected'')"

fun as_opt_str :: "pyval \<Rightarrow> string option res" where
  "as_opt_str PNone = Inr None"
| "as_opt_str (PStr s) = Inr (Some s)"
| "as_opt_str _ = Inl (TypeError ''a string is expected'')"

fun as_pair :: "pyval \<Rightarrow> (string \<times> string) res" where
  "as_pair (PList [a, b]) = res_bind (as_str a) (\<lambda>x. res_bind (as_str b) (\<lambda>y. Inr (x, y)))"
| "as_pair _ = Inl (TypeError ''a pair of strings is expected'')"

fun as_items :: "pyval \<Rightarrow> (string \<times> pyval) list res" where
  "as_items (PDict d) = Inr d"
| "as_items _ = Inl (AttributeError ''no attribute items'')"

fun as_elems :: "pyval \<Rightarrow> pyval list res" where
  "as_elems (PList xs) = Inr xs"
| "as_elems _ = Inl (TypeError ''not iterable'')"

definition str_item :: "pyval \<Rightarrow> string \<Rightarrow> string res" where
  "str_item msg k = res_bind (getitem msg k) as_str"

definition pair_val :: "string \<times> string \<Rightarrow> pyval" where
  "pair_val p = PList [PStr (fst p), PStr (snd p)]"

lemma as_pair_pair_val [simp]: "as_pair (pair_val p) = Inr p"
  by (simp add: pair_val_def)

subsection \<open>References to actors\<close>

text \<open>\<^verbatim>\<open>ActorRef\<close> and \<^verbatim>\<open>RemoteRef\<close> (\<^verbatim>\<open>src/lapinbeam/refs.py\<close>) without the node they belong to.\<close>

datatype actor_ref = ActorRef string | RemoteRef string string

text \<open>\<^verbatim>\<open>_me(ref)\<close> of the groups and registry modules: an explicit reference, or the running actor.\<close>

definition me_or_ref :: "string \<Rightarrow> string option \<Rightarrow> string option \<Rightarrow> string res" where
  "me_or_ref what ref current_actor =
     (case ref of
        Some name \<Rightarrow> Inr name
      | None \<Rightarrow>
         (case current_actor of
            None \<Rightarrow> Inl (RuntimeError (what @ '' need an explicit ref= outside of a running actor''))
          | Some name \<Rightarrow> Inr name))"

end
