(* ===== verification/Process_Groups.thy ===== *)
theory Process_Groups
  imports Peer_Store
begin

text \<open>
  Cluster-wide process groups (\<^verbatim>\<open>src/lapinbeam/groups.py\<close> and \<^verbatim>\<open>Node._clear_groups\<close>): membership is
  a set of pairs (node id, actor name) per group, kept up to date between nodes by deltas and by
  a snapshot sent once to every newly connected peer.
\<close>

type_synonym member = "string \<times> string"

subsection \<open>Messages\<close>

definition group_delta_msg :: "string \<Rightarrow> member \<Rightarrow> string \<Rightarrow> pyval" where
  "group_delta_msg grp member verb =
     PDict [(''op'', PStr ''delta''), (''group'', PStr grp), (''member'', pair_val member),
            (''verb'', PStr verb)]"

definition group_snapshot :: "(string, member list) dict \<Rightarrow> (string \<times> pyval) list" where
  "group_snapshot gs =
     map (\<lambda>(g, ms). (g, PList (map pair_val ms))) (filter (\<lambda>(g, ms). ms \<noteq> []) gs)"

definition group_snapshot_msg :: "(string, member list) dict \<Rightarrow> pyval" where
  "group_snapshot_msg gs =
     PDict [(''op'', PStr ''snapshot''), (''groups'', PDict (group_snapshot gs))]"

subsection \<open>Operations\<close>

definition group_broadcast :: "node \<Rightarrow> string \<Rightarrow> member \<Rightarrow> string \<Rightarrow> node" where
  "group_broadcast n grp member verb =
     (case group_peers n of
        None \<Rightarrow> n
      | Some peers \<Rightarrow> create_tasks (map (\<lambda>p. Send_group_delta p grp member verb) peers) n)"

definition join_group :: "node \<Rightarrow> string \<Rightarrow> string option \<Rightarrow> string option \<Rightarrow> unit res \<times> node" where
  "join_group n grp ref current_actor =
     (case me_or_ref ''join_group()/leave_group()'' ref current_actor of
        Inl e \<Rightarrow> (Inl e, n)
      | Inr me \<Rightarrow>
          let member = (local_id n, me);
              n' = n\<lparr>groups := bucket_add grp member (groups n)\<rparr>
          in (Inr (), group_broadcast n' grp member ''join''))"

definition leave_group :: "node \<Rightarrow> string \<Rightarrow> string option \<Rightarrow> string option \<Rightarrow> unit res \<times> node" where
  "leave_group n grp ref current_actor =
     (case me_or_ref ''join_group()/leave_group()'' ref current_actor of
        Inl e \<Rightarrow> (Inl e, n)
      | Inr me \<Rightarrow>
          let member = (local_id n, me);
              n' = n\<lparr>groups := bucket_discard grp member (groups n)\<rparr>
          in (Inr (), group_broadcast n' grp member ''leave''))"

definition members :: "node \<Rightarrow> string \<Rightarrow> actor_ref list" where
  "members n grp =
     map (\<lambda>(org, name). if org = local_id n then ActorRef name else RemoteRef org name)
       (get_or [] (groups n) grp)"

definition drop_members :: "string \<Rightarrow> (string, member list) dict \<Rightarrow> (string, member list) dict" where
  "drop_members peer_id gs = map (\<lambda>(g, ms). (g, filter (\<lambda>m. fst m \<noteq> peer_id) ms)) gs"

definition drop_peer_members :: "node \<Rightarrow> string \<Rightarrow> node" where
  "drop_peer_members n peer_id = n\<lparr>groups := drop_members peer_id (groups n)\<rparr>"

text \<open>The listener that \<^verbatim>\<open>register_groups\<close> installs.\<close>

definition groups_on_peer_event :: "event \<Rightarrow> node \<Rightarrow> node" where
  "groups_on_peer_event ev n =
     (case ev of
        Ev_peer_connected peer \<Rightarrow>
          create_task (Send_group_snapshot peer)
            (n\<lparr>group_peers := map_option (set_add peer) (group_peers n)\<rparr>)
      | Ev_peer_disconnected peer \<Rightarrow>
          drop_peer_members
            (n\<lparr>group_peers := map_option (set_discard peer) (group_peers n)\<rparr>) peer
      | _ \<Rightarrow> n)"

text \<open>\<^verbatim>\<open>Node._clear_groups\<close>: the generation that just ended leaves every group it was in.\<close>

definition leave_on_exit :: "member \<Rightarrow> string \<Rightarrow> node \<Rightarrow> node" where
  "leave_on_exit target g n =
     (let n' = n\<lparr>groups := bucket_discard g target (groups n)\<rparr>
      in if group_leave_hook n' then group_broadcast n' g target ''leave'' else n')"

definition clear_groups :: "node \<Rightarrow> string \<Rightarrow> node" where
  "clear_groups n name =
     (let target = (local_id n, name);
          left = map fst (filter (\<lambda>(g, ms). target \<in> set ms) (groups n))
      in fold (leave_on_exit target) left n)"

subsection \<open>The reserved actor\<close>

fun add_members :: "string \<Rightarrow> pyval list \<Rightarrow> (string, member list) dict
                    \<Rightarrow> unit res \<times> (string, member list) dict" where
  "add_members g [] gs = (Inr (), gs)"
| "add_members g (m # ms) gs =
     (case as_pair m of
        Inl e \<Rightarrow> (Inl e, gs)
      | Inr member \<Rightarrow> add_members g ms (bucket_add g member gs))"

fun add_snapshot :: "(string \<times> pyval) list \<Rightarrow> (string, member list) dict
                     \<Rightarrow> unit res \<times> (string, member list) dict" where
  "add_snapshot [] gs = (Inr (), gs)"
| "add_snapshot ((g, v) # rest) gs =
     (let gs1 = dict_set g (get_or [] gs g) gs
      in case as_elems v of
           Inl e \<Rightarrow> (Inl e, gs1)
         | Inr ms \<Rightarrow>
            (case add_members g ms gs1 of
               (Inl e, gs2) \<Rightarrow> (Inl e, gs2)
             | (Inr u, gs2) \<Rightarrow> add_snapshot rest gs2))"

definition groups_receive :: "node \<Rightarrow> pyval \<Rightarrow> unit res \<times> node" where
  "groups_receive n msg =
     (case getitem msg ''op'' of
        Inl e \<Rightarrow> (Inl e, n)
      | Inr opv \<Rightarrow>
          if opv = PStr ''delta'' then
            (case res_bind (getitem msg ''member'') as_pair of
               Inl e \<Rightarrow> (Inl e, n)
             | Inr member \<Rightarrow>
                (case str_item msg ''group'' of
                   Inl e \<Rightarrow> (Inl e, n)
                 | Inr grp \<Rightarrow>
                    (case getitem msg ''verb'' of
                       Inl e \<Rightarrow> (Inl e, n)
                     | Inr verb \<Rightarrow>
                        (Inr (), n\<lparr>groups := (if verb = PStr ''join''
                                     then bucket_add grp member (groups n)
                                     else bucket_discard grp member (groups n))\<rparr>))))
          else if opv = PStr ''snapshot'' then
            (case res_bind (getitem msg ''groups'') as_items of
               Inl e \<Rightarrow> (Inl e, n)
             | Inr gs \<Rightarrow> (case add_snapshot gs (groups n) of (r, gs') \<Rightarrow> (r, n\<lparr>groups := gs'\<rparr>)))
          else (Inr (), n))"

subsection \<open>Dropping a peer\<close>

lemma map_of_mapped: "map_of (map (\<lambda>(k, v). (k, f v)) d) k = map_option f (map_of d k)"
  by (induction d) auto

lemma bucket_drop_members [simp]:
  "bucket (drop_members p gs) g = {m \<in> bucket gs g. fst m \<noteq> p}"
  by (cases "map_of gs g") (simp_all add: drop_members_def get_or_def map_of_mapped)

definition group_entries :: "(string, member list) dict \<Rightarrow> (string \<times> member) set" where
  "group_entries gs = {(g, m). m \<in> bucket gs g}"

lemma buckets_wf_drop [wf_intros]: "buckets_wf gs \<Longrightarrow> buckets_wf (drop_members p gs)"
  by (auto simp: buckets_wf_def drop_members_def case_prod_beta comp_def)

interpretation group_store: peer_store buckets_wf group_entries "\<lambda>e. Some (fst (snd e))" drop_members
  by unfold_locales (auto simp: group_entries_def intro: buckets_wf_drop)

subsection \<open>The effect of the operations\<close>

lemma group_broadcast_groups [simp]: "groups (group_broadcast n g m v) = groups n"
  by (simp add: group_broadcast_def create_tasks_def split: option.split)

lemma group_broadcast_peers [simp]: "group_peers (group_broadcast n g m v) = group_peers n"
  by (simp add: group_broadcast_def create_tasks_def split: option.split)

lemma group_broadcast_hook [simp]: "group_leave_hook (group_broadcast n g m v) = group_leave_hook n"
  by (simp add: group_broadcast_def create_tasks_def split: option.split)

lemma group_broadcast_id [simp]: "local_id (group_broadcast n g m v) = local_id n"
  by (simp add: group_broadcast_def split: option.split)

lemma group_broadcast_tasks:
  "tasks (group_broadcast n g m v) =
     tasks n @ (case group_peers n of None \<Rightarrow> [] | Some ps \<Rightarrow> map (\<lambda>p. Send_group_delta p g m v) ps)"
  by (simp add: group_broadcast_def create_tasks_def split: option.split)

lemma clear_groups_loop:
  "groups (fold (leave_on_exit t) gs n) = fold (\<lambda>g. bucket_discard g t) gs (groups n)"
  by (induction gs arbitrary: n) (auto simp: leave_on_exit_def Let_def)

lemma bucket_fold_discard:
  "bucket (fold (\<lambda>g. bucket_discard g t) gs d) k = (if k \<in> set gs then bucket d k - {t} else bucket d k)"
  by (induction gs arbitrary: d) auto

lemma in_bucket_filter:
  assumes "x \<in> bucket d k"
  shows "k \<in> set (map fst (filter (\<lambda>(g, ms). x \<in> set ms) d))"
proof -
  from assms obtain ms where "map_of d k = Some ms" "x \<in> set ms"
    by (cases "map_of d k") (auto simp: get_or_def)
  then have "(k, ms) \<in> set (filter (\<lambda>(g, ms). x \<in> set ms) d)" by (auto dest: map_of_SomeD)
  then show ?thesis by force
qed

lemma bucket_clear_groups [simp]:
  "bucket (groups (clear_groups n name)) g = bucket (groups n) g - {(local_id n, name)}"
proof -
  let ?t = "(local_id n, name)"
  let ?left = "map fst (filter (\<lambda>(g, ms). ?t \<in> set ms) (groups n))"
  have "bucket (groups (clear_groups n name)) g
      = (if g \<in> set ?left then bucket (groups n) g - {?t} else bucket (groups n) g)"
    by (simp only: clear_groups_def Let_def clear_groups_loop bucket_fold_discard)
  moreover have "g \<notin> set ?left \<Longrightarrow> ?t \<notin> bucket (groups n) g"
    using in_bucket_filter [of ?t "groups n" g] by blast
  ultimately show ?thesis by auto
qed

subsection \<open>Replication\<close>

lemma groups_receive_delta:
  "groups_receive n (group_delta_msg g m v) =
     (Inr (), n\<lparr>groups := (if v = ''join'' then bucket_add g m (groups n)
                           else bucket_discard g m (groups n))\<rparr>)"
  by (simp add: groups_receive_def group_delta_msg_def str_item_def)

lemma add_members_pairs:
  "\<exists>gs'. add_members g (map pair_val ms) gs = (Inr (), gs')
        \<and> (\<forall>k. bucket gs' k = bucket gs k \<union> (if k = g then set ms else {}))"
proof (induction ms arbitrary: gs)
  case Nil
  then show ?case by simp
next
  case (Cons m ms)
  then obtain gs' where "add_members g (map pair_val ms) (bucket_add g m gs) = (Inr (), gs')"
    "\<forall>k. bucket gs' k = bucket (bucket_add g m gs) k \<union> (if k = g then set ms else {})" by blast
  then show ?case by auto
qed

lemma add_snapshot_union:
  assumes "distinct (keys src)"
  shows "\<exists>gs'. add_snapshot (group_snapshot src) gs = (Inr (), gs')
        \<and> (\<forall>k. bucket gs' k = bucket gs k \<union> bucket src k)"
  using assms
proof (induction src arbitrary: gs)
  case Nil
  then show ?case by (simp add: group_snapshot_def)
next
  case (Cons p src)
  obtain g ms where p: "p = (g, ms)" by (cases p)
  have none: "map_of src g = None" using Cons.prems p by (auto simp: map_of_eq_None_iff)
  have split: "bucket (p # src) k = (if k = g then set ms else {}) \<union> bucket src k" for k
    using none p by (simp add: get_or_def)
  show ?case
  proof (cases "ms = []")
    case True
    then have "group_snapshot (p # src) = group_snapshot src" using p by (simp add: group_snapshot_def)
    moreover have "distinct (keys src)" using Cons.prems by simp
    ultimately show ?thesis using Cons.IH [of gs] split True by auto
  next
    case False
    let ?gs1 = "dict_set g (get_or [] gs g) gs"
    obtain gs2 where gs2: "add_members g (map pair_val ms) ?gs1 = (Inr (), gs2)"
      "\<forall>k. bucket gs2 k = bucket ?gs1 k \<union> (if k = g then set ms else {})"
      using add_members_pairs by blast
    have "distinct (keys src)" using Cons.prems by simp
    then obtain gs' where gs': "add_snapshot (group_snapshot src) gs2 = (Inr (), gs')"
      "\<forall>k. bucket gs' k = bucket gs2 k \<union> bucket src k" using Cons.IH by blast
    have "group_snapshot (p # src) = (g, PList (map pair_val ms)) # group_snapshot src"
      using False p by (simp add: group_snapshot_def)
    with gs2 gs' split show ?thesis by auto
  qed
qed

lemma groups_receive_snapshot:
  assumes "distinct (keys src)"
  shows "\<exists>n'. groups_receive n (group_snapshot_msg src) = (Inr (), n')
        \<and> (\<forall>k. bucket (groups n') k = bucket (groups n) k \<union> bucket src k)"
  using add_snapshot_union [OF assms, of "groups n"]
  by (auto simp: groups_receive_def group_snapshot_msg_def)

text \<open>
  A run of the owner: joins and leaves of its own actors in any order. \<open>own_op\<close> is the call,
  \<open>own_delta\<close> the message it makes the node send to every tracked peer.
\<close>

datatype group_op = Join string string | Leave string string

fun own_op :: "group_op \<Rightarrow> node \<Rightarrow> node" where
  "own_op (Join g name) n = snd (join_group n g (Some name) None)"
| "own_op (Leave g name) n = snd (leave_group n g (Some name) None)"

fun own_delta :: "string \<Rightarrow> group_op \<Rightarrow> string \<times> member \<times> string" where
  "own_delta nid (Join g name) = (g, (nid, name), ''join'')"
| "own_delta nid (Leave g name) = (g, (nid, name), ''leave'')"

definition view :: "node \<Rightarrow> string \<Rightarrow> string \<Rightarrow> member set" where
  "view n nid g = {m \<in> bucket (groups n) g. fst m = nid}"

definition receive_deltas :: "(string \<times> member \<times> string) list \<Rightarrow> node \<Rightarrow> node" where
  "receive_deltas ds n =
     fold (\<lambda>(g, m, v) n. snd (groups_receive n (group_delta_msg g m v))) ds n"

lemma own_op_frame [simp]:
  "local_id (own_op x n) = local_id n" "group_peers (own_op x n) = group_peers n"
  by (cases x; simp add: join_group_def leave_group_def me_or_ref_def Let_def)+

lemma own_op_groups:
  "groups (own_op x n) =
     (case own_delta (local_id n) x of (g, m, v) \<Rightarrow>
        if v = ''join'' then bucket_add g m (groups n) else bucket_discard g m (groups n))"
  by (cases x) (simp_all add: join_group_def leave_group_def me_or_ref_def Let_def)

lemma own_op_tasks:
  "group_peers n = Some ps \<Longrightarrow>
   tasks (own_op x n) = tasks n @
     (case own_delta (local_id n) x of (g, m, v) \<Rightarrow> map (\<lambda>p. Send_group_delta p g m v) ps)"
  by (cases x)
    (simp_all add: join_group_def leave_group_def me_or_ref_def Let_def group_broadcast_tasks)

lemma fst_own_delta: "own_delta nid x = (g, m, v) \<Longrightarrow> fst m = nid"
  by (cases x) auto

lemma receive_delta_groups:
  "groups (snd (groups_receive n (group_delta_msg g m v))) =
     (if v = ''join'' then bucket_add g m (groups n) else bucket_discard g m (groups n))"
  by (simp add: groups_receive_delta)

lemma replica_step:
  assumes "view b (local_id a) = view a (local_id a)"
    and "own_delta (local_id a) x = (g, m, v)"
  shows "view (snd (groups_receive b (group_delta_msg g m v))) (local_id a)
         = view (own_op x a) (local_id a)"
proof
  fix k
  have "view b (local_id a) k = view a (local_id a) k" using assms(1) by simp
  then show "view (snd (groups_receive b (group_delta_msg g m v))) (local_id a) k
      = view (own_op x a) (local_id a) k"
    by (auto simp: view_def receive_delta_groups own_op_groups assms(2))
qed

lemma replica_run:
  assumes "view b (local_id a) = view a (local_id a)"
  shows "view (receive_deltas (map (own_delta (local_id a)) xs) b) (local_id a)
         = view (fold own_op xs a) (local_id a)"
  using assms
proof (induction xs arbitrary: a b)
  case Nil
  then show ?case by (simp add: receive_deltas_def)
next
  case (Cons x xs)
  obtain g m v where d: "own_delta (local_id a) x = (g, m, v)" by (cases "own_delta (local_id a) x")
  from replica_step [OF Cons.prems d]
  have "view (snd (groups_receive b (group_delta_msg g m v))) (local_id (own_op x a))
      = view (own_op x a) (local_id (own_op x a))" by simp
  from Cons.IH [OF this] d show ?case by (simp add: receive_deltas_def)
qed

lemma own_run_tasks:
  "group_peers n = Some ps \<Longrightarrow> tasks (fold own_op xs n) = tasks n @
     concat (map (\<lambda>x. case own_delta (local_id n) x of
        (g, m, v) \<Rightarrow> map (\<lambda>p. Send_group_delta p g m v) ps) xs)"
  by (induction xs arbitrary: n) (simp_all add: own_op_tasks)

subsection \<open>Properties of process groups\<close>

definition demo_node :: "string \<Rightarrow> node" where
  "demo_node nid = new_node sample_env nid None"

text \<open>C17. Replication of group membership. When a node has forgotten a peer's members, the snapshot it
  gets from that peer on connection and the deltas of every later join and leave there, applied
  in the order they were sent, leave it with exactly the peer's own view of its own members; and
  the peer has scheduled exactly one such delta per operation for every peer it tracks.\<close>

theorem group_replica_converges:
  assumes "distinct (keys (groups a))" and "group_peers a = Some ps"
    and "\<forall>g. view b (local_id a) g = {}"
    and "groups_receive b (group_snapshot_msg (groups a)) = (r, b')"
  shows "r = Inr ()
    \<and> view (receive_deltas (map (own_delta (local_id a)) xs) b') (local_id a)
      = view (fold own_op xs a) (local_id a)
    \<and> tasks (fold own_op xs a) = tasks a @ concat (map (\<lambda>x. case own_delta (local_id a) x of
        (g, m, v) \<Rightarrow> map (\<lambda>p. Send_group_delta p g m v) ps) xs)"
proof -
  obtain b2 where b2: "groups_receive b (group_snapshot_msg (groups a)) = (Inr (), b2)"
    "\<forall>k. bucket (groups b2) k = bucket (groups b) k \<union> bucket (groups a) k"
    using groups_receive_snapshot [OF assms(1)] by blast
  have "view b2 (local_id a) k = view b (local_id a) k \<union> view a (local_id a) k" for k
    using b2(2) by (auto simp: view_def)
  then have "view b2 (local_id a) = view a (local_id a)"
    using assms(3) by (simp add: fun_eq_iff)
  with replica_run own_run_tasks [OF assms(2)] b2(1) assms(4) show ?thesis by auto
qed

theorem group_replica_converges_witness:
  "\<exists>b'. groups_receive (demo_node ''b@h:2'') (group_snapshot_msg [(''g'', [(''a@h:1'', ''w'')])])
          = (Inr (), b')
      \<and> view (receive_deltas (map (own_delta ''a@h:1'') [Join ''g'' ''v'', Leave ''g'' ''w'']) b') ''a@h:1''
        = view (fold own_op [Join ''g'' ''v'', Leave ''g'' ''w'']
             ((demo_node ''a@h:1'')\<lparr>groups := [(''g'', [(''a@h:1'', ''w'')])], group_peers := Some []\<rparr>))
            ''a@h:1''"
proof -
  let ?a = "(demo_node ''a@h:1'')\<lparr>groups := [(''g'', [(''a@h:1'', ''w'')])], group_peers := Some []\<rparr>"
  have id: "local_id ?a = ''a@h:1''" by (simp add: demo_node_def new_node_def local_id_def)
  obtain r b' where r: "groups_receive (demo_node ''b@h:2'') (group_snapshot_msg (groups ?a)) = (r, b')"
    by (cases "groups_receive (demo_node ''b@h:2'') (group_snapshot_msg (groups ?a))")
  have "r = Inr () \<and> view (receive_deltas (map (own_delta (local_id ?a)) [Join ''g'' ''v'', Leave ''g'' ''w'']) b') (local_id ?a)
      = view (fold own_op [Join ''g'' ''v'', Leave ''g'' ''w''] ?a) (local_id ?a)"
    using group_replica_converges [of ?a "[]" "demo_node ''b@h:2''" r b'
        "[Join ''g'' ''v'', Leave ''g'' ''w'']"] r
    by (simp add: view_def demo_node_def new_node_def)
  with id r show ?thesis by auto
qed

text \<open>Losing a peer removes exactly that peer's members from every group and stops deltas to it;
  all other members stay, in the same order.\<close>

lemma groups_peer_disconnected:
  "bucket (groups (groups_on_peer_event (Ev_peer_disconnected p) n)) g
     = {m \<in> bucket (groups n) g. fst m \<noteq> p}
   \<and> group_peers (groups_on_peer_event (Ev_peer_disconnected p) n)
     = map_option (set_discard p) (group_peers n)
   \<and> tasks (groups_on_peer_event (Ev_peer_disconnected p) n) = tasks n"
  by (simp add: groups_on_peer_event_def drop_peer_members_def)

text \<open>When a generation of an actor ends it is no longer a member of any group of its node, every
  other membership is kept, and each group it was in is announced as left to every tracked peer.\<close>

lemma clear_groups_leaves_all:
  assumes "group_leave_hook n" and "group_peers n = Some ps"
  shows "(\<forall>g. bucket (groups (clear_groups n name)) g = bucket (groups n) g - {(local_id n, name)})
    \<and> tasks (clear_groups n name) = tasks n @
        concat (map (\<lambda>g. map (\<lambda>p. Send_group_delta p g (local_id n, name) ''leave'') ps)
          (map fst (filter (\<lambda>(g, ms). (local_id n, name) \<in> set ms) (groups n))))"
proof -
  have "tasks (fold (leave_on_exit t) gs n) = tasks n @
      concat (map (\<lambda>g. map (\<lambda>p. Send_group_delta p g t ''leave'') ps) gs)" for t gs
    using assms
    by (induction gs arbitrary: n) (simp_all add: leave_on_exit_def Let_def group_broadcast_tasks)
  then have "tasks (clear_groups n name) = tasks n @
      concat (map (\<lambda>g. map (\<lambda>p. Send_group_delta p g (local_id n, name) ''leave'') ps)
        (map fst (filter (\<lambda>(g, ms). (local_id n, name) \<in> set ms) (groups n))))"
    by (simp add: clear_groups_def Let_def)
  with bucket_clear_groups show ?thesis by blast
qed

end
