(* ===== verification/Registry.thy ===== *)
theory Registry
  imports Peer_Store
begin

text \<open>
  Cluster-wide unique names (\<^verbatim>\<open>src/lapinbeam/registry.py\<close> and \<^verbatim>\<open>Node._clear_registry\<close>): a dict
  from names to their one owner, a pair (node id, actor name). The reserved actor that applies
  the claims of other nodes reports conflicts as node events and is modelled in
  \<^verbatim>\<open>Registry_Actor\<close>, after the events.
\<close>

type_synonym owner = "string \<times> string"

definition owner_repr :: "owner \<Rightarrow> string" where
  "owner_repr p = ''('' @ py_repr (fst p) @ '', '' @ py_repr (snd p) @ '')''"

subsection \<open>Messages\<close>

definition registry_delta_msg :: "string \<Rightarrow> owner \<Rightarrow> string \<Rightarrow> pyval" where
  "registry_delta_msg name p verb =
     PDict [(''op'', PStr ''delta''), (''name'', PStr name), (''owner'', pair_val p),
            (''verb'', PStr verb)]"

definition registry_snapshot :: "(string, owner) dict \<Rightarrow> (string \<times> pyval) list" where
  "registry_snapshot reg = map (\<lambda>(k, p). (k, pair_val p)) reg"

definition registry_snapshot_msg :: "(string, owner) dict \<Rightarrow> pyval" where
  "registry_snapshot_msg reg =
     PDict [(''op'', PStr ''snapshot''), (''registry'', PDict (registry_snapshot reg))]"

subsection \<open>Operations\<close>

definition registry_broadcast :: "node \<Rightarrow> string \<Rightarrow> owner \<Rightarrow> string \<Rightarrow> node" where
  "registry_broadcast n name p verb =
     (case registry_peers n of
        None \<Rightarrow> n
      | Some peers \<Rightarrow> create_tasks (map (\<lambda>peer. Send_registry_delta peer name p verb) peers) n)"

definition register_name ::
  "node \<Rightarrow> string \<Rightarrow> string option \<Rightarrow> string option \<Rightarrow> unit res \<times> node" where
  "register_name n name ref current_actor =
     (case me_or_ref ''register_name()/unregister_name()'' ref current_actor of
        Inl e \<Rightarrow> (Inl e, n)
      | Inr me \<Rightarrow>
          let owner = (local_id n, me);
              claim = registry_broadcast (n\<lparr>names := dict_set name owner (names n)\<rparr>) name owner ''claim''
          in case map_of (names n) name of
               None \<Rightarrow> (Inr (), claim)
             | Some existing \<Rightarrow>
                 if existing \<noteq> owner
                 then (Inl (ValueError (''name '' @ py_repr name @ '' is already registered to ''
                              @ owner_repr existing)), n)
                 else (Inr (), claim))"

definition unregister_name ::
  "node \<Rightarrow> string \<Rightarrow> string option \<Rightarrow> string option \<Rightarrow> unit res \<times> node" where
  "unregister_name n name ref current_actor =
     (case me_or_ref ''register_name()/unregister_name()'' ref current_actor of
        Inl e \<Rightarrow> (Inl e, n)
      | Inr me \<Rightarrow>
          let owner = (local_id n, me)
          in if map_of (names n) name = Some owner
             then (Inr (), registry_broadcast (n\<lparr>names := dict_del name (names n)\<rparr>) name owner ''release'')
             else (Inr (), n))"

definition whereis_name :: "node \<Rightarrow> string \<Rightarrow> actor_ref option" where
  "whereis_name n name =
     (case map_of (names n) name of
        None \<Rightarrow> None
      | Some (org, actor_name) \<Rightarrow>
          Some (if org = local_id n then ActorRef actor_name else RemoteRef org actor_name))"

definition drop_owned :: "string \<Rightarrow> (string, owner) dict \<Rightarrow> (string, owner) dict" where
  "drop_owned peer_id reg =
     fold dict_del (map fst (filter (\<lambda>(k, org, a). org = peer_id) reg)) reg"

definition drop_peer_names :: "node \<Rightarrow> string \<Rightarrow> node" where
  "drop_peer_names n peer_id = n\<lparr>names := drop_owned peer_id (names n)\<rparr>"

text \<open>The listener that \<^verbatim>\<open>register_registry\<close> installs.\<close>

definition registry_on_peer_event :: "event \<Rightarrow> node \<Rightarrow> node" where
  "registry_on_peer_event ev n =
     (case ev of
        Ev_peer_connected peer \<Rightarrow>
          create_task (Send_registry_snapshot peer)
            (n\<lparr>registry_peers := map_option (set_add peer) (registry_peers n)\<rparr>)
      | Ev_peer_disconnected peer \<Rightarrow>
          drop_peer_names
            (n\<lparr>registry_peers := map_option (set_discard peer) (registry_peers n)\<rparr>) peer
      | _ \<Rightarrow> n)"

text \<open>\<^verbatim>\<open>Node._clear_registry\<close>: the generation that just ended owns nothing any more.\<close>

definition release_on_exit :: "string \<Rightarrow> string \<Rightarrow> node \<Rightarrow> node" where
  "release_on_exit name key n =
     (let n' = n\<lparr>names := dict_del key (names n)\<rparr>
      in if registry_release_hook n'
         then registry_broadcast n' key (local_id n', name) ''release'' else n')"

definition clear_registry :: "node \<Rightarrow> string \<Rightarrow> node" where
  "clear_registry n name =
     fold (release_on_exit name)
       (map fst (filter (\<lambda>(k, org, a). org = local_id n \<and> a = name) (names n))) n"

subsection \<open>Lookups after the operations\<close>

lemma registry_broadcast_frame [simp]:
  "names (registry_broadcast n k p v) = names n"
  "local_id (registry_broadcast n k p v) = local_id n"
  "registry_peers (registry_broadcast n k p v) = registry_peers n"
  "registry_release_hook (registry_broadcast n k p v) = registry_release_hook n"
  by (simp_all add: registry_broadcast_def create_tasks_def local_id_def split: option.split)

lemma registry_broadcast_tasks:
  "tasks (registry_broadcast n k p v) =
     tasks n @ (case registry_peers n of None \<Rightarrow> []
                | Some ps \<Rightarrow> map (\<lambda>peer. Send_registry_delta peer k p v) ps)"
  by (simp add: registry_broadcast_def create_tasks_def split: option.split)

lemma lookup_fold_del [simp]:
  "map_of (fold dict_del ks d) k = (if k \<in> set ks then None else map_of d k)"
  by (induction ks arbitrary: d) auto

lemma in_filtered_keys:
  assumes "distinct (keys d)"
  shows "k \<in> set (map fst (filter P d)) \<longleftrightarrow> (\<exists>v. map_of d k = Some v \<and> P (k, v))"
  using assms by (auto simp: image_iff)

lemma lookup_drop_owned:
  assumes "distinct (keys reg)"
  shows "map_of (drop_owned p reg) k =
     (case map_of reg k of None \<Rightarrow> None | Some (org, a) \<Rightarrow> if org = p then None else Some (org, a))"
  using in_filtered_keys [OF assms, of k "\<lambda>(k, org, a). org = p"]
  by (auto simp: drop_owned_def split: option.splits)

lemma release_loop_names: "names (fold (release_on_exit name) ks n) = fold dict_del ks (names n)"
  by (induction ks arbitrary: n) (simp_all add: release_on_exit_def Let_def)

lemma lookup_clear_registry:
  assumes "distinct (keys (names n))"
  shows "map_of (names (clear_registry n name)) k =
     (if map_of (names n) k = Some (local_id n, name) then None else map_of (names n) k)"
proof -
  have "k \<in> set (map fst (filter (\<lambda>(k, org, a). org = local_id n \<and> a = name) (names n)))
      \<longleftrightarrow> map_of (names n) k = Some (local_id n, name)"
    by (subst in_filtered_keys [OF assms]) auto
  then show ?thesis
    by (simp only: clear_registry_def release_loop_names lookup_fold_del)
qed

lemma release_loop_tasks:
  "registry_release_hook n \<Longrightarrow> registry_peers n = Some ps \<Longrightarrow>
   tasks (fold (release_on_exit name) ks n) = tasks n @
     concat (map (\<lambda>k. map (\<lambda>p. Send_registry_delta p k (local_id n, name) ''release'') ps) ks)"
  by (induction ks arbitrary: n)
    (simp_all add: release_on_exit_def Let_def registry_broadcast_tasks)

subsection \<open>Distinct keys\<close>

definition names_wf :: "node \<Rightarrow> bool" where
  "names_wf n \<longleftrightarrow> distinct (keys (names n))"

lemma distinct_fold_del [wf_intros]: "distinct (keys d) \<Longrightarrow> distinct (keys (fold dict_del ks d))"
  by (induction ks arbitrary: d) (auto intro: wf_intros)

lemma names_wf_frame [simp]:
  "names_wf (registry_broadcast n k p v) = names_wf n"
  "names_wf (create_task t n) = names_wf n"
  "names_wf (n\<lparr>registry_peers := ps\<rparr>) = names_wf n"
  by (simp_all add: names_wf_def create_task_def)

lemma names_wf_register [wf_intros]: "names_wf n \<Longrightarrow> names_wf (snd (register_name n k r c))"
  by (simp add: register_name_def Let_def names_wf_def distinct_keys_set split: sum.split option.split)

lemma names_wf_unregister [wf_intros]: "names_wf n \<Longrightarrow> names_wf (snd (unregister_name n k r c))"
  by (simp add: unregister_name_def Let_def names_wf_def distinct_keys_del split: sum.split)

lemma names_wf_drop [wf_intros]: "names_wf n \<Longrightarrow> names_wf (drop_peer_names n p)"
  by (simp add: drop_peer_names_def drop_owned_def names_wf_def distinct_fold_del)

lemma names_wf_clear [wf_intros]: "names_wf n \<Longrightarrow> names_wf (clear_registry n a)"
  by (simp add: clear_registry_def release_loop_names names_wf_def distinct_fold_del)

lemma names_wf_listener [wf_intros]: "names_wf n \<Longrightarrow> names_wf (registry_on_peer_event ev n)"
  by (cases ev) (simp_all add: registry_on_peer_event_def names_wf_drop)

lemma set_fold_del: "set (fold dict_del ks d) = {e \<in> set d. fst e \<notin> set ks}"
  by (induction ks arbitrary: d) (auto simp: AList.delete_eq)

lemma set_drop_owned:
  "distinct (keys reg) \<Longrightarrow> set (drop_owned p reg) = {e \<in> set reg. fst (snd e) \<noteq> p}"
  by (auto simp: drop_owned_def set_fold_del dest: eq_key_imp_eq_value)

lemma distinct_drop_owned [wf_intros]: "distinct (keys reg) \<Longrightarrow> distinct (keys (drop_owned p reg))"
  by (simp add: drop_owned_def distinct_fold_del)

interpretation name_store: peer_store "\<lambda>reg. distinct (keys reg)" set "\<lambda>e. Some (fst (snd e))" drop_owned
  by unfold_locales (simp_all add: set_drop_owned distinct_drop_owned)

subsection \<open>Properties of the registry\<close>

text \<open>A claim of a name either is refused, which happens exactly when another actor holds the name
  and leaves the node as it was, or makes the actor the owner that every lookup on the node
  finds, keeps all other names, and is announced to every tracked peer.\<close>

lemma register_name_claims:
  assumes "me_or_ref ''register_name()/unregister_name()'' ref cur = Inr me"
    and "register_name n name ref cur = (r, n')"
  shows "(isl r \<longleftrightarrow> (\<exists>p. map_of (names n) name = Some p \<and> p \<noteq> (local_id n, me)))
    \<and> (isl r \<longrightarrow> n' = n)
    \<and> (\<not> isl r \<longrightarrow> whereis_name n' name = Some (ActorRef me)
          \<and> (\<forall>k. k \<noteq> name \<longrightarrow> whereis_name n' k = whereis_name n k)
          \<and> (\<forall>ps. registry_peers n = Some ps \<longrightarrow>
                tasks n' = tasks n @ map (\<lambda>p. Send_registry_delta p name (local_id n, me) ''claim'') ps))"
proof -
  let ?own = "(local_id n, me)"
  let ?claim = "registry_broadcast (n\<lparr>names := dict_set name ?own (names n)\<rparr>) name ?own ''claim''"
  let ?refused = "\<exists>p. map_of (names n) name = Some p \<and> p \<noteq> ?own"
  have "isl r = ?refused \<and> n' = (if ?refused then n else ?claim)"
    using assms by (cases "map_of (names n) name") (auto simp: register_name_def Let_def split: if_splits)
  note r = this [THEN conjunct1] this [THEN conjunct2]
  have claim: "whereis_name ?claim name = Some (ActorRef me)"
    "\<forall>k. k \<noteq> name \<longrightarrow> whereis_name ?claim k = whereis_name n k"
    "\<forall>ps. registry_peers n = Some ps \<longrightarrow>
       tasks ?claim = tasks n @ map (\<lambda>p. Send_registry_delta p name ?own ''claim'') ps"
    by (simp_all add: whereis_name_def registry_broadcast_tasks split: option.split)
  show ?thesis
  proof (cases ?refused)
    case True
    with r show ?thesis by (simp only: if_True) blast
  next
    case False
    with r have "n' = ?claim" "\<not> isl r" by (simp_all only: if_False not_False_eq_True)
    with claim r(1) show ?thesis by blast
  qed
qed

lemma register_name_claims_witness:
  "whereis_name (snd (register_name (new_node sample_env ''a@h:1'' None) ''db'' (Some ''w'') None)) ''db''
     = Some (ActorRef ''w'')
   \<and> isl (fst (register_name ((new_node sample_env ''a@h:1'' None)\<lparr>names := [(''db'', (''b@h:2'', ''w''))]\<rparr>)
             ''db'' (Some ''w'') None))"
proof -
  let ?n = "new_node sample_env ''a@h:1'' None"
  let ?m = "?n\<lparr>names := [(''db'', (''b@h:2'', ''w''))]\<rparr>"
  have id: "local_id ?n = ''a@h:1''" "local_id ?m = ''a@h:1''" "names ?n = []"
    by (simp_all add: new_node_def local_id_def)
  have "\<not> isl (fst (register_name ?n ''db'' (Some ''w'') None))"
    using register_name_claims [of "Some ''w''" None "''w''" ?n "''db''"
        "fst (register_name ?n ''db'' (Some ''w'') None)" "snd (register_name ?n ''db'' (Some ''w'') None)"] id
    by (simp add: me_or_ref_def)
  then show ?thesis
    using register_name_claims [of "Some ''w''" None "''w''" ?n "''db''"
        "fst (register_name ?n ''db'' (Some ''w'') None)" "snd (register_name ?n ''db'' (Some ''w'') None)"]
      register_name_claims [of "Some ''w''" None "''w''" ?m "''db''"
        "fst (register_name ?m ''db'' (Some ''w'') None)" "snd (register_name ?m ''db'' (Some ''w'') None)"] id
    by (simp add: me_or_ref_def)
qed

text \<open>When a generation of an actor ends it loses every name it owned, all other names are kept,
  and each released name is announced to every tracked peer.\<close>

lemma clear_registry_releases_all:
  assumes "names_wf n" and "registry_release_hook n" and "registry_peers n = Some ps"
  shows "(\<forall>k. map_of (names (clear_registry n name)) k =
            (if map_of (names n) k = Some (local_id n, name) then None else map_of (names n) k))
    \<and> tasks (clear_registry n name) = tasks n @
        concat (map (\<lambda>k. map (\<lambda>p. Send_registry_delta p k (local_id n, name) ''release'') ps)
          (map fst (filter (\<lambda>(k, org, a). org = local_id n \<and> a = name) (names n))))"
  using assms lookup_clear_registry [of n name] release_loop_tasks [OF assms(2,3)]
  by (simp add: names_wf_def clear_registry_def)

end
