(* ===== verification/Node_Events.thy ===== *)
theory Node_Events
  imports Process_Groups Registry
begin

text \<open>
  The event handler of a node, \<^verbatim>\<open>Node._on_core_event\<close>, with the listeners of the cluster modules
  (\<^verbatim>\<open>src/lapinbeam/node.py\<close>, \<^verbatim>\<open>src/lapinbeam/discovery.py\<close>). The handler wakes the waiters of a
  connection, and when a peer drops it forgets every link and monitor that involves the peer and
  schedules the notifications; then it calls each listener in registration order.
\<close>

subsection \<open>Listeners\<close>

text \<open>The listener of \<^verbatim>\<open>register_discovery\<close> keeps the set of known peers current.\<close>

definition discovery_on_event :: "event \<Rightarrow> node \<Rightarrow> node" where
  "discovery_on_event ev n =
     (case ev of
        Ev_peer_connected peer \<Rightarrow> n\<lparr>known_peers := set_add peer (known_peers n)\<rparr>
      | Ev_peer_disconnected peer \<Rightarrow> n\<lparr>known_peers := set_discard peer (known_peers n)\<rparr>
      | _ \<Rightarrow> n)"

fun run_listener :: "event \<Rightarrow> listener \<Rightarrow> node \<Rightarrow> node" where
  "run_listener ev (User_listener i) n = n\<lparr>event_log := event_log n @ [(i, ev)]\<rparr>"
| "run_listener ev Groups_listener n = groups_on_peer_event ev n"
| "run_listener ev Registry_listener n = registry_on_peer_event ev n"
| "run_listener ev Discovery_listener n = discovery_on_event ev n"

definition on_event :: "node \<Rightarrow> listener \<Rightarrow> node" where
  "on_event n callback = n\<lparr>event_listeners := event_listeners n @ [callback]\<rparr>"

subsection \<open>Waiters and cascades\<close>

definition set_result_if_pending :: "nat \<Rightarrow> (nat, future) dict \<Rightarrow> (nat, future) dict" where
  "set_result_if_pending fut fs =
     (if map_of fs fut = Some Fut_pending then dict_set fut Fut_result fs else fs)"

definition wake_waiters :: "string \<Rightarrow> node \<Rightarrow> node" where
  "wake_waiters peer n =
     n\<lparr>futures := fold set_result_if_pending (get_or [] (peer_waiters n) peer) (futures n)\<rparr>"

definition peer_label :: "string \<Rightarrow> string \<Rightarrow> string" where
  "peer_label peer name = peer @ ''/'' @ name"

type_synonym target = "string option \<times> string"

definition drop_link_targets :: "string \<Rightarrow> (string, target list) dict \<Rightarrow> (string, target list) dict" where
  "drop_link_targets peer ls = map (\<lambda>(name, ts). (name, filter (\<lambda>t. fst t \<noteq> Some peer) ts)) ls"

definition link_exits :: "string \<Rightarrow> (string, target list) dict \<Rightarrow> task list" where
  "link_exits peer ls =
     concat (map (\<lambda>(name, ts).
       map (\<lambda>t. Deliver_exit (peer_label peer (snd t)) name ''noconnection'')
         (filter (\<lambda>t. fst t = Some peer) ts)) ls)"

definition drop_watchers ::
  "string \<Rightarrow> (string, (string, target) dict) dict \<Rightarrow> (string, (string, target) dict) dict" where
  "drop_watchers peer ws =
     map (\<lambda>(name, refs). (name, filter (\<lambda>(ref, w). fst w \<noteq> Some peer) refs)) ws"

definition monitor_downs :: "string \<Rightarrow> (string, string \<times> string option \<times> string) dict \<Rightarrow> task list" where
  "monitor_downs peer ms =
     map (\<lambda>(ref, watcher, org, name). Deliver_down ref (peer_label peer name) ''noconnection'')
       (filter (\<lambda>(ref, watcher, org, name). org = Some peer) ms)"

definition peer_lost :: "string \<Rightarrow> node \<Rightarrow> node" where
  "peer_lost peer n =
     create_tasks (link_exits peer (links n) @ monitor_downs peer (monitors n))
       (n\<lparr>links := drop_link_targets peer (links n),
          monitor_watchers := drop_watchers peer (monitor_watchers n)\<rparr>)"

definition on_core_event :: "event \<Rightarrow> node \<Rightarrow> node" where
  "on_core_event ev n =
     (let n1 = (case ev of
                  Ev_peer_connected peer \<Rightarrow> wake_waiters peer n
                | Ev_peer_disconnected peer \<Rightarrow> peer_lost peer n
                | _ \<Rightarrow> n)
      in fold (run_listener ev) (event_listeners n1) n1)"

subsection \<open>What an event leaves alone\<close>

text \<open>
  No event touches the actors of the node: mailboxes, queues, live children, the transport and
  the identity stay. The collection \<open>event_frame\<close> carries this to every handler that reports an
  event.
\<close>

named_theorems event_frame \<open>fields that an event does not change\<close>

lemma drop_peer_members_more [simp]:
  "mailboxes (drop_peer_members n p) = mailboxes n" "queues (drop_peer_members n p) = queues n"
  "core (drop_peer_members n p) = core n"
  "tasks (drop_peer_members n p) = tasks n"
  by (simp_all add: drop_peer_members_def)

lemma run_listener_frame [event_frame]:
  "mailboxes (run_listener ev l n) = mailboxes n"
  "queues (run_listener ev l n) = queues n"
  "next_id (run_listener ev l n) = next_id n"
  "core (run_listener ev l n) = core n"
  "node_id (run_listener ev l n) = node_id n"
  "codec_of (run_listener ev l n) = codec_of n"
  "children (run_listener ev l n) = children n"
  "live_children (run_listener ev l n) = live_children n"
  "links (run_listener ev l n) = links n"
  "trap_exit_flags (run_listener ev l n) = trap_exit_flags n"
  "monitors (run_listener ev l n) = monitors n"
  "monitor_watchers (run_listener ev l n) = monitor_watchers n"
  "event_listeners (run_listener ev l n) = event_listeners n"
  "peer_waiters (run_listener ev l n) = peer_waiters n"
  "futures (run_listener ev l n) = futures n"
  "started (run_listener ev l n) = started n"
  "actor_tasks (run_listener ev l n) = actor_tasks n"
  "mailbox_capacity (run_listener ev l n) = mailbox_capacity n"
  by (cases l; cases ev; simp add: groups_on_peer_event_def registry_on_peer_event_def
      discovery_on_event_def create_task_def drop_peer_members_def drop_peer_names_def)+

lemma run_listeners_frame [event_frame]:
  "mailboxes (fold (run_listener ev) ls n) = mailboxes n"
  "queues (fold (run_listener ev) ls n) = queues n"
  "next_id (fold (run_listener ev) ls n) = next_id n"
  "core (fold (run_listener ev) ls n) = core n"
  "node_id (fold (run_listener ev) ls n) = node_id n"
  "codec_of (fold (run_listener ev) ls n) = codec_of n"
  "children (fold (run_listener ev) ls n) = children n"
  "live_children (fold (run_listener ev) ls n) = live_children n"
  "links (fold (run_listener ev) ls n) = links n"
  "trap_exit_flags (fold (run_listener ev) ls n) = trap_exit_flags n"
  "monitors (fold (run_listener ev) ls n) = monitors n"
  "monitor_watchers (fold (run_listener ev) ls n) = monitor_watchers n"
  "event_listeners (fold (run_listener ev) ls n) = event_listeners n"
  "peer_waiters (fold (run_listener ev) ls n) = peer_waiters n"
  "futures (fold (run_listener ev) ls n) = futures n"
  "started (fold (run_listener ev) ls n) = started n"
  "actor_tasks (fold (run_listener ev) ls n) = actor_tasks n"
  "mailbox_capacity (fold (run_listener ev) ls n) = mailbox_capacity n"
  by (induction ls arbitrary: n; simp add: run_listener_frame)+

lemma peer_lost_frame [event_frame]:
  "mailboxes (peer_lost p n) = mailboxes n" "queues (peer_lost p n) = queues n"
  "next_id (peer_lost p n) = next_id n" "core (peer_lost p n) = core n"
  "node_id (peer_lost p n) = node_id n" "codec_of (peer_lost p n) = codec_of n"
  "children (peer_lost p n) = children n" "live_children (peer_lost p n) = live_children n"
  "trap_exit_flags (peer_lost p n) = trap_exit_flags n" "monitors (peer_lost p n) = monitors n"
  "event_listeners (peer_lost p n) = event_listeners n" "groups (peer_lost p n) = groups n"
  "names (peer_lost p n) = names n" "event_log (peer_lost p n) = event_log n"
  "peer_waiters (peer_lost p n) = peer_waiters n" "futures (peer_lost p n) = futures n"
  "started (peer_lost p n) = started n" "actor_tasks (peer_lost p n) = actor_tasks n"
  "mailbox_capacity (peer_lost p n) = mailbox_capacity n"
  by (simp_all add: peer_lost_def create_tasks_def)

lemma on_core_event_frame [event_frame]:
  "mailboxes (on_core_event ev n) = mailboxes n"
  "queues (on_core_event ev n) = queues n"
  "next_id (on_core_event ev n) = next_id n"
  "core (on_core_event ev n) = core n"
  "node_id (on_core_event ev n) = node_id n"
  "codec_of (on_core_event ev n) = codec_of n"
  "children (on_core_event ev n) = children n"
  "live_children (on_core_event ev n) = live_children n"
  "trap_exit_flags (on_core_event ev n) = trap_exit_flags n"
  "monitors (on_core_event ev n) = monitors n"
  "event_listeners (on_core_event ev n) = event_listeners n"
  "peer_waiters (on_core_event ev n) = peer_waiters n"
  "started (on_core_event ev n) = started n"
  "actor_tasks (on_core_event ev n) = actor_tasks n"
  "mailbox_capacity (on_core_event ev n) = mailbox_capacity n"
  by (cases ev; simp add: on_core_event_def Let_def event_frame wake_waiters_def)+

lemma local_id_on_core_event [simp]: "local_id (on_core_event ev n) = local_id n"
  by (simp add: local_id_def event_frame split: option.split)

text \<open>An event other than the two about peers is only shown to the user's listeners.\<close>

definition user_listeners :: "node \<Rightarrow> nat list" where
  "user_listeners n = [i. User_listener i \<leftarrow> event_listeners n]"

definition is_peer_event :: "event \<Rightarrow> bool" where
  "is_peer_event ev = (case ev of Ev_peer_connected p \<Rightarrow> True | Ev_peer_disconnected p \<Rightarrow> True | _ \<Rightarrow> False)"

lemma run_listeners_plain:
  "\<not> is_peer_event ev \<Longrightarrow> fold (run_listener ev) ls n =
     n\<lparr>event_log := event_log n @ map (\<lambda>i. (i, ev)) [i. User_listener i \<leftarrow> ls]\<rparr>"
proof (induction ls arbitrary: n)
  case Nil
  then show ?case by simp
next
  case (Cons l ls)
  then show ?case
    by (cases l; cases ev) (simp_all add: is_peer_event_def groups_on_peer_event_def
        registry_on_peer_event_def discovery_on_event_def)
qed

lemma on_core_event_plain:
  "\<not> is_peer_event ev \<Longrightarrow> on_core_event ev n =
     n\<lparr>event_log := event_log n @ map (\<lambda>i. (i, ev)) (user_listeners n)\<rparr>"
  by (cases ev) (simp_all add: on_core_event_def run_listeners_plain is_peer_event_def user_listeners_def)

subsection \<open>Losing a peer\<close>

definition link_entries :: "(string, target list) dict \<Rightarrow> (string \<times> target) set" where
  "link_entries ls = {(name, t). \<exists>ts. (name, ts) \<in> set ls \<and> t \<in> set ts}"

definition watcher_entries :: "(string, (string, target) dict) dict \<Rightarrow> (string \<times> string \<times> target) set" where
  "watcher_entries ws = {(name, r, t). \<exists>rs. (name, rs) \<in> set ws \<and> (r, t) \<in> set rs}"

interpretation link_store: peer_store "\<lambda>ls. True" link_entries "\<lambda>e. fst (snd e)" drop_link_targets
  by unfold_locales (auto simp: link_entries_def drop_link_targets_def)

interpretation watcher_store:
  peer_store "\<lambda>ws. True" watcher_entries "\<lambda>e. fst (snd (snd e))" drop_watchers
  by unfold_locales (auto simp: watcher_entries_def drop_watchers_def)

lemma set_link_exits:
  "set (link_exits p ls) =
     {Deliver_exit (peer_label p a) name ''noconnection'' |name a. (name, Some p, a) \<in> link_entries ls}"
  by (force simp: link_exits_def link_entries_def)

lemma set_monitor_downs:
  "set (monitor_downs p ms) =
     {Deliver_down r (peer_label p a) ''noconnection'' |r w a. (r, w, Some p, a) \<in> set ms}"
  by (force simp: monitor_downs_def)

lemma tasks_peer_lost:
  "tasks (peer_lost p n) = tasks n @ link_exits p (links n) @ monitor_downs p (monitors n)"
  by (simp add: peer_lost_def create_tasks_def)

lemma links_peer_lost:
  "links (peer_lost p n) = drop_link_targets p (links n)"
  "monitor_watchers (peer_lost p n) = drop_watchers p (monitor_watchers n)"
  by (simp_all add: peer_lost_def create_tasks_def)

lemma disconnect_listeners_tasks:
  "tasks (fold (run_listener (Ev_peer_disconnected p)) ls n) = tasks n"
proof (induction ls arbitrary: n)
  case Nil
  then show ?case by simp
next
  case (Cons l ls)
  then show ?case
    by (cases l) (simp_all add: groups_on_peer_event_def registry_on_peer_event_def
        drop_peer_names_def drop_peer_members_def discovery_on_event_def)
qed

lemma fold_futures:
  "map_of (fold set_result_if_pending ws fs) fut =
     (if fut \<in> set ws \<and> map_of fs fut = Some Fut_pending then Some Fut_result else map_of fs fut)"
  by (induction ws arbitrary: fs) (auto simp: set_result_if_pending_def)

subsection \<open>Properties of the event handler\<close>

text \<open>When a peer drops off, the links and the monitors that involve it are forgotten and no others,
  and exactly one exit is scheduled for every local actor and remote partner that were linked,
  and one \<^verbatim>\<open>Down\<close> for every monitor on one of its actors.\<close>

lemma peer_disconnected_cascade:
  "let n' = on_core_event (Ev_peer_disconnected p) n in
    link_entries (links n') = {e \<in> link_entries (links n). fst (snd e) \<noteq> Some p}
    \<and> watcher_entries (monitor_watchers n')
        = {e \<in> watcher_entries (monitor_watchers n). fst (snd (snd e)) \<noteq> Some p}
    \<and> (\<exists>ts. tasks n' = tasks n @ ts
        \<and> set ts = {Deliver_exit (peer_label p a) name ''noconnection'' |name a.
                      (name, Some p, a) \<in> link_entries (links n)}
                 \<union> {Deliver_down r (peer_label p a) ''noconnection'' |r w a.
                      (r, w, Some p, a) \<in> set (monitors n)}
        \<and> length ts = length (filter (\<lambda>(r, w, org, a). org = Some p) (monitors n))
            + (\<Sum>e \<leftarrow> links n. length (filter (\<lambda>t. fst t = Some p) (snd e))))"
proof -
  define n' where n'_def: "n' = on_core_event (Ev_peer_disconnected p) n"
  have n': "n' = fold (run_listener (Ev_peer_disconnected p)) (event_listeners n) (peer_lost p n)"
    by (simp add: n'_def on_core_event_def event_frame)
  have t: "tasks n' = tasks n @ link_exits p (links n) @ monitor_downs p (monitors n)"
    by (simp add: n' disconnect_listeners_tasks tasks_peer_lost)
  have "length (link_exits p (links n)) = (\<Sum>e \<leftarrow> links n. length (filter (\<lambda>t. fst t = Some p) (snd e)))"
    by (simp add: link_exits_def length_concat comp_def case_prod_beta)
  moreover have "length (monitor_downs p (monitors n))
      = length (filter (\<lambda>(r, w, org, a). org = Some p) (monitors n))"
    by (simp add: monitor_downs_def)
  ultimately show ?thesis
    using link_store.entries_drop [of p "links n"] watcher_store.entries_drop [of p "monitor_watchers n"] t
    by (simp add: Let_def flip: n'_def) (simp add: n' event_frame links_peer_lost set_link_exits set_monitor_downs)
qed

end
