(* ===== verification/Node.thy ===== *)
theory Node
  imports Node_Events
begin

text \<open>
  The operations of \<^verbatim>\<open>Node\<close> (\<^verbatim>\<open>src/lapinbeam/node.py\<close>): starting and stopping, connections to peers,
  the table of local actors, local and remote sends, the delivery of a message that arrived from
  a peer, and the delivery of exit and down signals. The inbound side of the native transport,
  \<^verbatim>\<open>route\<close> in \<^verbatim>\<open>src/src/transport/mod.rs\<close>, is here too because it ends in the mailbox of an actor.

  An operation returns its result or exception with the node it leaves behind. The invariant
  \<open>node_wf\<close> ties the two tables of actors together, the dict of mailboxes on the Python side and
  the routing table of the transport.
\<close>

subsection \<open>Lifecycle\<close>

definition start :: "(json \<Rightarrow> nat) \<Rightarrow> string + 16 word \<Rightarrow> node \<Rightarrow> unit res \<times> node" where
  "start len bound n =
     (if started n then (Inr (), n)
      else case new_core len (node_id n) of
             Inl e \<Rightarrow> (Inl e, n)
           | Inr c \<Rightarrow>
              (case core_start c bound of
                 (Inl e, c') \<Rightarrow> (Inl e, n\<lparr>core := Some c'\<rparr>)
               | (Inr _, c') \<Rightarrow>
                   (Inr (), n\<lparr>core := Some c', node_id := to_full (core_local c'),
                              stopped := Some False, started := True\<rparr>)))"

definition fail_if_pending :: "exn \<Rightarrow> nat \<Rightarrow> (nat, future) dict \<Rightarrow> (nat, future) dict" where
  "fail_if_pending e fut fs =
     (if map_of fs fut = Some Fut_pending then dict_set fut (Fut_exception e) fs else fs)"

text \<open>The part of \<^verbatim>\<open>stop\<close> that follows the cancellation of the actor tasks.\<close>

definition stop_rest :: "node \<Rightarrow> node" where
  "stop_rest n =
     n\<lparr>core := None, mailboxes := [], started := False,
       futures := fold (fail_if_pending (ConnectionError ''node stopped while connecting''))
                    (concat (map snd (peer_waiters n))) (futures n),
       peer_waiters := [],
       stopped := map_option (\<lambda>_. True) (stopped n)\<rparr>"

subsection \<open>Peers\<close>

definition with_core :: "node \<Rightarrow> (core \<Rightarrow> 'a res \<times> core) \<Rightarrow> 'a res \<times> node" where
  "with_core n f =
     (case core n of
        None \<Rightarrow> (Inl not_started, n)
      | Some c \<Rightarrow> (case f c of (r, c') \<Rightarrow> (r, n\<lparr>core := Some c'\<rparr>)))"

definition has_peer :: "node \<Rightarrow> string \<Rightarrow> bool res" where
  "has_peer n peer_id = (case core n of None \<Rightarrow> Inr False | Some c \<Rightarrow> core_has_peer c peer_id)"

definition peer_count :: "node \<Rightarrow> nat res" where
  "peer_count n = (case core n of None \<Rightarrow> Inr 0 | Some c \<Rightarrow> core_peer_count c)"

definition forget_peer :: "node \<Rightarrow> string \<Rightarrow> unit res \<times> node" where
  "forget_peer n peer_id = with_core n (\<lambda>c. core_forget_peer c peer_id)"

text \<open>
  \<^verbatim>\<open>connect_peer\<close> in the pieces between which other code runs: the dial and the first check; the
  registration of a waiter; the second check, on whatever the transport says by then; and the
  end, with the future resolved, failed or, after the timeout, still pending.
\<close>

definition connect_check :: "node \<Rightarrow> string \<Rightarrow> bool res \<times> node" where
  "connect_check n peer_id =
     (case with_core n (\<lambda>c. core_connect_peer c peer_id) of
        (Inl e, n') \<Rightarrow> (Inl e, n')
      | (Inr _, n') \<Rightarrow> (has_peer n' peer_id, n'))"

definition connect_wait :: "node \<Rightarrow> string \<Rightarrow> nat \<times> node" where
  "connect_wait n peer_id =
     (next_id n, n\<lparr>next_id := next_id n + 1, futures := dict_set (next_id n) Fut_pending (futures n),
        peer_waiters := dict_set peer_id (get_or [] (peer_waiters n) peer_id @ [next_id n])
                          (peer_waiters n)\<rparr>)"

definition drop_waiter :: "string \<Rightarrow> nat \<Rightarrow> node \<Rightarrow> node" where
  "drop_waiter peer_id fut n =
     (let waiters = get_or [] (peer_waiters n) peer_id; rest = remove1 fut waiters
      in if fut \<in> set waiters
         then n\<lparr>peer_waiters := (if rest = [] then dict_del peer_id (peer_waiters n)
                                else dict_set peer_id rest (peer_waiters n))\<rparr>
         else n)"

definition connect_finish :: "node \<Rightarrow> string \<Rightarrow> nat \<Rightarrow> unit res \<times> node" where
  "connect_finish n peer_id fut =
     ((case map_of (futures n) fut of
         Some Fut_result \<Rightarrow> Inr ()
       | Some (Fut_exception e) \<Rightarrow> Inl e
       | _ \<Rightarrow> Inl (ConnectionError (''failed to connect to peer '' @ py_repr peer_id))),
      drop_waiter peer_id fut n)"

subsection \<open>The table of local actors\<close>

text \<open>\<^verbatim>\<open>asyncio.Queue(maxsize=m)\<close> makes a new object.\<close>

definition new_mailbox :: "int \<Rightarrow> node \<Rightarrow> nat \<times> node" where
  "new_mailbox m n =
     (next_id n, n\<lparr>next_id := next_id n + 1, queues := dict_set (next_id n) (new_queue m) (queues n)\<rparr>)"

definition queue_at :: "node \<Rightarrow> nat \<Rightarrow> message queue" where
  "queue_at n q = get_or (new_queue 0) (queues n) q"

definition enqueue :: "nat \<Rightarrow> message \<Rightarrow> node \<Rightarrow> node option" where
  "enqueue q m n =
     map_option (\<lambda>x. n\<lparr>queues := dict_set q x (queues n)\<rparr>) (put_nowait m (queue_at n q))"

definition register_actor :: "node \<Rightarrow> string \<Rightarrow> nat \<Rightarrow> unit res \<times> node" where
  "register_actor n name mailbox =
     (case core n of
        None \<Rightarrow> (Inl not_started, n)
      | Some c \<Rightarrow>
          if (case map_of (mailboxes n) name of None \<Rightarrow> False | Some existing \<Rightarrow> existing \<noteq> mailbox)
          then (Inl (ValueError (''actor name '' @ py_repr name @ '' is already registered on this node'')), n)
          else (case core_register_actor c name mailbox of
                  (r, c') \<Rightarrow> (r, n\<lparr>mailboxes := dict_set name mailbox (mailboxes n), core := Some c'\<rparr>)))"

definition unregister_actor :: "node \<Rightarrow> string \<Rightarrow> unit res \<times> node" where
  "unregister_actor n name =
     (case core n of
        None \<Rightarrow> (Inr (), n\<lparr>mailboxes := dict_del name (mailboxes n)\<rparr>)
      | Some c \<Rightarrow>
         (case core_unregister_actor c name of
            (r, c') \<Rightarrow> (r, n\<lparr>mailboxes := dict_del name (mailboxes n), core := Some c'\<rparr>)))"

subsection \<open>Sending\<close>

definition local_meta :: "node \<Rightarrow> string option \<Rightarrow> int option \<Rightarrow> meta" where
  "local_meta n reply_to corr =
     \<lparr>m_src = Some (local_id n), m_reply_to = reply_to, m_correlation_id = corr, m_msg_id = None\<rparr>"

definition send_local :: "node \<Rightarrow> string \<Rightarrow> pyval \<Rightarrow> string option \<Rightarrow> int option \<Rightarrow> unit res \<times> node" where
  "send_local n name msg reply_to corr =
     (case map_of (mailboxes n) name of
        None \<Rightarrow> (Inl (ValueError (''no local actor named '' @ py_repr name)), n)
      | Some q \<Rightarrow>
         (case enqueue q (msg, local_meta n reply_to corr) n of
            None \<Rightarrow> (Inr (), on_core_event (Ev_mailbox_full name) n)
          | Some n' \<Rightarrow> (Inr (), n')))"

definition send_remote ::
  "node \<Rightarrow> string \<Rightarrow> string \<Rightarrow> pyval \<Rightarrow> string option \<Rightarrow> int option \<Rightarrow> unit res \<times> node" where
  "send_remote n peer_id actor_name msg reply_to corr =
     (case core n of
        None \<Rightarrow> (Inl not_started, n)
      | Some c \<Rightarrow>
         (case encode_payload (codec_of n) msg of
            Inl e \<Rightarrow> (Inl e, n)
          | Inr payload \<Rightarrow>
              with_core n (\<lambda>c. core_send_data c peer_id actor_name payload reply_to corr)))"

text \<open>\<^verbatim>\<open>ref.send\<close> for both kinds of references.\<close>

fun send :: "node \<Rightarrow> actor_ref \<Rightarrow> pyval \<Rightarrow> string option \<Rightarrow> int option \<Rightarrow> unit res \<times> node" where
  "send n (ActorRef name) msg reply_to corr = send_local n name msg reply_to corr"
| "send n (RemoteRef peer name) msg reply_to corr = send_remote n peer name msg reply_to corr"

subsection \<open>Messages from peers\<close>

text \<open>
  \<^verbatim>\<open>route\<close> on a data frame from the peer \<open>from\<close>. \<open>room\<close> says whether the channel that feeds the
  callback, which the transport drains on its own threads, can take the message.
\<close>

definition route_data ::
  "node \<Rightarrow> nodeid \<Rightarrow> string \<Rightarrow> string \<Rightarrow> json \<Rightarrow> nat \<Rightarrow> string option \<Rightarrow> int option \<Rightarrow> bool \<Rightarrow> node" where
  "route_data n from_peer src dst j msg_id reply_to corr room =
     (case core n of
        None \<Rightarrow> n
      | Some c \<Rightarrow>
         (case map_of (core_routing c) dst of
            None \<Rightarrow> n\<lparr>core := Some (send_error c from_peer (''actor_not_found:'' @ dst) corr)\<rparr>
          | Some q \<Rightarrow>
              if room
              then create_task (Deliver_callback dst q (json_to_py j)
                     \<lparr>m_src = Some src, m_reply_to = reply_to, m_correlation_id = corr,
                      m_msg_id = Some msg_id\<rparr>) n
              else n\<lparr>core := Some (send_error
                       (c\<lparr>core_events := core_events c @ [Ev_mailbox_full dst]\<rparr>)
                       from_peer (''mailbox_full:'' @ dst) corr)\<rparr>))"

text \<open>\<^verbatim>\<open>route\<close> on an error frame; \<open>shown\<close> is the payload as JSON text.\<close>

definition route_error :: "node \<Rightarrow> nodeid \<Rightarrow> string \<Rightarrow> int option \<Rightarrow> node" where
  "route_error n from_peer shown corr =
     (case core n of
        None \<Rightarrow> n
      | Some c \<Rightarrow> n\<lparr>core := Some (c\<lparr>core_events := core_events c
                                     @ [Ev_error (to_full from_peer) shown corr]\<rparr>)\<rparr>)"

text \<open>The callback that \<^verbatim>\<open>register_actor\<close> hands to the transport.\<close>

definition deliver_callback :: "node \<Rightarrow> string \<Rightarrow> nat \<Rightarrow> pyval \<Rightarrow> meta \<Rightarrow> unit res \<times> node" where
  "deliver_callback n name mailbox payload mt =
     (case decode_payload (codec_of n) payload of
        Inl e \<Rightarrow> (Inr (), on_core_event (Ev_decode_error name (describe e)) n)
      | Inr decoded \<Rightarrow>
         (case enqueue mailbox (decoded, mt) n of
            Some n' \<Rightarrow> (Inr (), n')
          | None \<Rightarrow>
              let n' = on_core_event (Ev_mailbox_full name) n
              in case core n' of
                   None \<Rightarrow> (Inl (AttributeError (py_repr ''NoneType'' @ '' object has no attribute ''
                                       @ py_repr ''notify_peer_error'')), n')
                 | Some c \<Rightarrow>
                     (case m_src mt of
                        None \<Rightarrow> (Inl (TypeError ''a string is expected''), n')
                      | Some src \<Rightarrow>
                          with_core n' (\<lambda>c. core_notify_peer_error c src (''mailbox_full:'' @ name)
                                              (m_correlation_id mt)))))"

subsection \<open>Exit and down signals\<close>

definition Exit_cls :: pycls where
  "Exit_cls = Cls ''lapinbeam.links'' ''Exit''"

definition Exit_msg :: "string \<Rightarrow> string \<Rightarrow> pyval" where
  "Exit_msg actor reason = PObj Exit_cls [(''actor'', PStr actor), (''reason'', PStr reason)]"

definition Down_cls :: pycls where
  "Down_cls = Cls ''lapinbeam.monitors'' ''Down''"

definition Down_msg :: "string \<Rightarrow> string \<Rightarrow> string \<Rightarrow> pyval" where
  "Down_msg ref actor reason =
     PObj Down_cls [(''ref'', PStr ref), (''actor'', PStr actor), (''reason'', PStr reason)]"

definition exit_error :: "string \<Rightarrow> string \<Rightarrow> exn" where
  "exit_error from_label reason =
     RuntimeError (''linked actor '' @ py_repr from_label @ '' exited: '' @ reason)"

definition driver_live :: "child \<Rightarrow> bool" where
  "driver_live ch \<longleftrightarrow> child_driver ch \<in> {Driver_running, Driver_cancelling}"

definition kill_child :: "exn \<Rightarrow> child \<Rightarrow> child" where
  "kill_child e ch =
     (if driver_live ch then ch\<lparr>child_pending_exit := Some e, child_driver := Driver_cancelling\<rparr> else ch)"

definition deliver_exit :: "node \<Rightarrow> string \<Rightarrow> string \<Rightarrow> string \<Rightarrow> unit res \<times> node" where
  "deliver_exit n from_label target_name reason =
     (if get_or False (trap_exit_flags n) target_name
      then if has_key target_name (mailboxes n)
           then send_local n target_name (Exit_msg from_label reason) None None
           else (Inr (), n)
      else case map_of (live_children n) target_name of
             None \<Rightarrow> (Inr (), n)
           | Some i \<Rightarrow>
              (case map_of (children n) i of
                 None \<Rightarrow> (Inr (), n)
               | Some ch \<Rightarrow>
                   (Inr (), n\<lparr>children := dict_set i (kill_child (exit_error from_label reason) ch)
                                           (children n)\<rparr>)))"

definition deliver_down :: "node \<Rightarrow> string \<Rightarrow> string \<Rightarrow> string \<Rightarrow> unit res \<times> node" where
  "deliver_down n ref actor_label reason =
     (case map_of (monitors n) ref of
        None \<Rightarrow> (Inr (), n)
      | Some (watcher_name, org, target) \<Rightarrow>
          let n' = n\<lparr>monitors := dict_del ref (monitors n)\<rparr>
          in if has_key watcher_name (mailboxes n')
             then send_local n' watcher_name (Down_msg ref actor_label reason) None None
             else (Inr (), n'))"

definition clear_links :: "node \<Rightarrow> string \<Rightarrow> target list \<times> node" where
  "clear_links n name =
     (get_or [] (links n) name,
      n\<lparr>trap_exit_flags := dict_del name (trap_exit_flags n), links := dict_del name (links n)\<rparr>)"

definition clear_monitors :: "node \<Rightarrow> string \<Rightarrow> (string, target) dict \<times> node" where
  "clear_monitors n name =
     (get_or [] (monitor_watchers n) name,
      n\<lparr>monitor_watchers := dict_del name (monitor_watchers n)\<rparr>)"

fun exit_task :: "string \<Rightarrow> string \<Rightarrow> target \<Rightarrow> task" where
  "exit_task actor_name reason (None, target_name) = Deliver_exit actor_name target_name reason"
| "exit_task actor_name reason (Some peer_id, target_name) =
     Notify_remote_exit peer_id target_name actor_name reason"

definition notify_links :: "node \<Rightarrow> string \<Rightarrow> target list \<Rightarrow> string \<Rightarrow> node" where
  "notify_links n actor_name targets reason = create_tasks (map (exit_task actor_name reason) targets) n"

fun down_task :: "string \<Rightarrow> string \<Rightarrow> string \<times> target \<Rightarrow> task" where
  "down_task actor_name reason (ref, None, watcher_name) = Deliver_down ref actor_name reason"
| "down_task actor_name reason (ref, Some watcher_node, watcher_name) =
     Notify_remote_down watcher_node ref actor_name reason"

definition notify_monitors :: "node \<Rightarrow> string \<Rightarrow> (string, target) dict \<Rightarrow> string \<Rightarrow> node" where
  "notify_monitors n actor_name watchers reason =
     create_tasks (map (down_task actor_name reason) watchers) n"

subsection \<open>The invariant\<close>

text \<open>
  Every registered mailbox exists, identities are fresh, no queue is over its capacity, and the
  routing table of the transport is the dict of mailboxes. A node without a transport has no
  actors.
\<close>

definition queues_wf :: "(nat, message queue) dict \<Rightarrow> nat \<Rightarrow> bool" where
  "queues_wf qs i \<longleftrightarrow> (\<forall>q x. map_of qs q = Some x \<longrightarrow> q < i \<and> queue_wf x)"

definition actors_wf :: "(string, nat) dict \<Rightarrow> (nat, message queue) dict \<Rightarrow> bool" where
  "actors_wf ms qs \<longleftrightarrow> distinct (keys ms) \<and> (\<forall>name q. map_of ms name = Some q \<longrightarrow> has_key q qs)"

definition routing_wf :: "(string, nat) dict \<Rightarrow> core option \<Rightarrow> bool \<Rightarrow> bool" where
  "routing_wf ms co st \<longleftrightarrow>
     (case co of
        None \<Rightarrow> ms = [] \<and> \<not> st
      | Some c \<Rightarrow> core_running c \<and> st \<and> (\<forall>name. map_of (core_routing c) name = map_of ms name))"

definition node_wf :: "node \<Rightarrow> bool" where
  "node_wf n \<longleftrightarrow> queues_wf (queues n) (next_id n) \<and> actors_wf (mailboxes n) (queues n)
     \<and> routing_wf (mailboxes n) (core n) (started n) \<and> buckets_wf (groups n) \<and> names_wf n"

lemma node_wf_new [wf_intros]: "node_wf (new_node env nid cap)"
  by (simp add: node_wf_def new_node_def queues_wf_def actors_wf_def routing_wf_def names_wf_def)

text \<open>Only a few fields matter to the invariant.\<close>

lemma node_wf_cong:
  assumes "mailboxes m = mailboxes n" "queues m = queues n" "next_id m = next_id n"
    "core m = core n" "started m = started n" "groups m = groups n" "names m = names n"
  shows "node_wf m = node_wf n"
  using assms by (simp add: node_wf_def names_wf_def)

lemma node_wf_frame [simp]:
  "node_wf (create_tasks ts n) = node_wf n"
  "node_wf (create_task t n) = node_wf n"
  "node_wf (n\<lparr>event_log := x1\<rparr>) = node_wf n"
  "node_wf (n\<lparr>futures := x2\<rparr>) = node_wf n"
  "node_wf (n\<lparr>peer_waiters := x3\<rparr>) = node_wf n"
  "node_wf (n\<lparr>links := x4\<rparr>) = node_wf n"
  "node_wf (n\<lparr>trap_exit_flags := x5\<rparr>) = node_wf n"
  "node_wf (n\<lparr>monitors := x6\<rparr>) = node_wf n"
  "node_wf (n\<lparr>monitor_watchers := x7\<rparr>) = node_wf n"
  "node_wf (n\<lparr>live_children := x8\<rparr>) = node_wf n"
  "node_wf (n\<lparr>children := x9\<rparr>) = node_wf n"
  "node_wf (n\<lparr>known_peers := x10\<rparr>) = node_wf n"
  "node_wf (n\<lparr>group_peers := x11\<rparr>) = node_wf n"
  "node_wf (n\<lparr>registry_peers := x12\<rparr>) = node_wf n"
  "node_wf (n\<lparr>event_listeners := x13\<rparr>) = node_wf n"
  "node_wf (n\<lparr>actor_tasks := x14\<rparr>) = node_wf n"
  "node_wf (n\<lparr>group_leave_hook := x15\<rparr>) = node_wf n"
  "node_wf (n\<lparr>registry_release_hook := x16\<rparr>) = node_wf n"
  by (rule node_wf_cong; simp add: create_tasks_def create_task_def)+

lemma node_wf_names [wf_intros]:
  "node_wf n \<Longrightarrow> distinct (keys x) \<Longrightarrow> node_wf (n\<lparr>names := x\<rparr>)"
  by (simp add: node_wf_def names_wf_def)

lemma node_wf_groups [wf_intros]: "node_wf n \<Longrightarrow> buckets_wf x \<Longrightarrow> node_wf (n\<lparr>groups := x\<rparr>)"
  by (simp add: node_wf_def names_wf_def)

lemma node_wf_names_distinct: "node_wf n \<Longrightarrow> distinct (keys (names n))"
  by (simp add: node_wf_def names_wf_def)

lemma node_wf_buckets: "node_wf n \<Longrightarrow> buckets_wf (groups n)"
  by (simp add: node_wf_def)

lemma node_wf_routing:
  "node_wf n \<Longrightarrow> core n = Some c \<Longrightarrow> map_of (core_routing c) name = map_of (mailboxes n) name"
  by (simp add: node_wf_def routing_wf_def)

lemma node_wf_running: "node_wf n \<Longrightarrow> core n = Some c \<Longrightarrow> core_running c"
  by (simp add: node_wf_def routing_wf_def)

lemma node_wf_stopped: "node_wf n \<Longrightarrow> core n = None \<Longrightarrow> mailboxes n = []"
  by (simp add: node_wf_def routing_wf_def)

lemma node_wf_queue: "node_wf n \<Longrightarrow> queue_wf (queue_at n q)"
  by (auto simp: node_wf_def queues_wf_def queue_at_def get_or_def split: option.split)

lemma node_wf_listener [wf_intros]: "node_wf n \<Longrightarrow> node_wf (run_listener ev l n)"
proof (cases l)
  case Groups_listener
  assume "node_wf n"
  then show ?thesis using Groups_listener
    by (cases ev) (auto simp: groups_on_peer_event_def drop_peer_members_def
        intro!: node_wf_groups buckets_wf_drop dest: node_wf_buckets)
next
  case Registry_listener
  assume "node_wf n"
  then show ?thesis using Registry_listener
    by (cases ev) (auto simp: registry_on_peer_event_def drop_peer_names_def
        intro!: node_wf_names distinct_drop_owned dest: node_wf_names_distinct)
next
  case Discovery_listener
  assume "node_wf n"
  then show ?thesis using Discovery_listener by (cases ev) (auto simp: discovery_on_event_def)
qed simp

lemma node_wf_listeners: "node_wf n \<Longrightarrow> node_wf (fold (run_listener ev) ls n)"
  by (induction ls arbitrary: n) (simp_all add: node_wf_listener)

lemma node_wf_event [wf_intros]: "node_wf n \<Longrightarrow> node_wf (on_core_event ev n)"
  by (cases ev) (simp_all add: on_core_event_def Let_def node_wf_listeners wake_waiters_def peer_lost_def)

end
