(* ===== verification/Node_Laws.thy ===== *)
theory Node_Laws
  imports Node
begin

text \<open>
  What the operations of a node guarantee: each keeps \<open>node_wf\<close>, names are never taken over,
  mail is delivered in order to the one mailbox it was sent to, and a message sent to another
  node arrives there as its canonical form with the metadata its sender gave it.
\<close>

subsection \<open>The invariant is kept\<close>

lemma enqueue_Some:
  "enqueue q m n = Some n' \<longleftrightarrow> \<not> queue_full (queue_at n q)
     \<and> n' = n\<lparr>queues := dict_set q ((queue_at n q)\<lparr>items := items (queue_at n q) @ [m]\<rparr>) (queues n)\<rparr>"
  by (auto simp: enqueue_def)

lemma enqueue_None: "enqueue q m n = None \<longleftrightarrow> queue_full (queue_at n q)"
  by (simp add: enqueue_def)

lemma enqueue_cases:
  obtains "queue_full (queue_at n q)" "enqueue q m n = None"
  | "\<not> queue_full (queue_at n q)"
    "enqueue q m n = Some (n\<lparr>queues := dict_set q ((queue_at n q)\<lparr>items := items (queue_at n q) @ [m]\<rparr>)
       (queues n)\<rparr>)"
  using enqueue_None enqueue_Some by blast

lemma node_wf_put_queue [wf_intros]:
  assumes "node_wf n" and "has_key q (queues n)" and "queue_wf x"
  shows "node_wf (n\<lparr>queues := dict_set q x (queues n)\<rparr>)"
  using assms by (auto simp: node_wf_def queues_wf_def actors_wf_def names_wf_def)

lemma node_wf_enqueue [wf_intros]:
  assumes "node_wf n" and "has_key q (queues n)" and "enqueue q m n = Some n'"
  shows "node_wf n'"
proof -
  from assms(3) have "n' = n\<lparr>queues := dict_set q ((queue_at n q)\<lparr>items := items (queue_at n q) @ [m]\<rparr>) (queues n)\<rparr>"
    and "queue_wf ((queue_at n q)\<lparr>items := items (queue_at n q) @ [m]\<rparr>)"
    by (auto simp: enqueue_Some intro!: queue_wf_put [of m "queue_at n q"])
  with assms(1,2) show ?thesis by (simp add: node_wf_put_queue)
qed

lemma node_wf_mailbox_key: "node_wf n \<Longrightarrow> map_of (mailboxes n) name = Some q \<Longrightarrow> has_key q (queues n)"
  by (auto simp: node_wf_def actors_wf_def)

lemma node_wf_core [wf_intros]:
  assumes "node_wf n" "core n = Some c" "core_running c' = core_running c"
    "core_routing c' = core_routing c"
  shows "node_wf (n\<lparr>core := Some c'\<rparr>)"
  using assms by (simp add: node_wf_def routing_wf_def names_wf_def)

lemma send_data_bytes_frame [simp]:
  "core_running (snd (send_data_bytes c p d j r k)) = core_running c"
  "core_routing (snd (send_data_bytes c p d j r k)) = core_routing c"
  "core_local (snd (send_data_bytes c p d j r k)) = core_local c"
  by (simp_all add: send_data_bytes_def Let_def)

lemma core_send_data_frame [simp]:
  "core_running (snd (core_send_data c p d j r k)) = core_running c"
  "core_routing (snd (core_send_data c p d j r k)) = core_routing c"
  "core_local (snd (core_send_data c p d j r k)) = core_local c"
  by (simp_all add: core_send_data_def split: sum.split)

lemma send_error_frame [simp]:
  "core_running (send_error c p d k) = core_running c"
  "core_routing (send_error c p d k) = core_routing c"
  "core_local (send_error c p d k) = core_local c"
  by (simp_all add: send_error_def Let_def)

lemma notify_error_frame [simp]:
  "core_running (snd (core_notify_peer_error c p d k)) = core_running c"
  "core_routing (snd (core_notify_peer_error c p d k)) = core_routing c"
  by (simp_all add: core_notify_peer_error_def split: sum.split)

lemma core_peer_frame [simp]:
  "core_running (snd (core_forget_peer c p)) = core_running c"
  "core_routing (snd (core_forget_peer c p)) = core_routing c"
  "core_running (snd (core_connect_peer c p)) = core_running c"
  "core_routing (snd (core_connect_peer c p)) = core_routing c"
  by (simp_all add: core_forget_peer_def core_connect_peer_def split: sum.split)

lemma node_wf_with_core [wf_intros]:
  assumes "node_wf n" "\<And>c. core_running (snd (f c)) = core_running c"
    "\<And>c. core_routing (snd (f c)) = core_routing c"
  shows "node_wf (snd (with_core n f))"
proof (cases "core n")
  case None
  with assms show ?thesis by (simp add: with_core_def)
next
  case (Some c)
  have "node_wf (n\<lparr>core := Some (snd (f c))\<rparr>)"
    by (rule node_wf_core [OF assms(1) Some]) (simp_all add: assms(2,3))
  with Some show ?thesis by (simp add: with_core_def case_prod_beta)
qed

lemma node_wf_send_local [wf_intros]: "node_wf n \<Longrightarrow> node_wf (snd (send_local n name m r k))"
  by (auto simp: send_local_def split: option.split
      intro: node_wf_event node_wf_enqueue [OF _ node_wf_mailbox_key])

lemma node_wf_send_remote [wf_intros]: "node_wf n \<Longrightarrow> node_wf (snd (send_remote n p a m r k))"
  by (auto simp: send_remote_def split: option.split sum.split intro!: node_wf_with_core)

lemma node_wf_send [wf_intros]: "node_wf n \<Longrightarrow> node_wf (snd (send n ref m r k))"
  by (cases ref) (simp_all add: node_wf_send_local node_wf_send_remote)

lemma node_wf_register [wf_intros]:
  assumes "node_wf n" and "has_key q (queues n)"
  shows "node_wf (snd (register_actor n name q))"
proof (cases "core n")
  case None
  with assms show ?thesis by (simp add: register_actor_def)
next
  case (Some c)
  with assms node_wf_running [OF assms(1) Some] show ?thesis
    by (auto simp: register_actor_def core_register_actor_def require_def node_wf_def actors_wf_def
        routing_wf_def names_wf_def distinct_update split: option.split dest!: in_dict_setD)
qed

lemma node_wf_unregister [wf_intros]:
  assumes "node_wf n"
  shows "node_wf (snd (unregister_actor n name))"
proof (cases "core n")
  case None
  with assms node_wf_stopped [OF assms None] show ?thesis
    by (simp add: unregister_actor_def node_wf_def routing_wf_def actors_wf_def names_wf_def)
next
  case (Some c)
  with assms node_wf_running [OF assms Some] show ?thesis
    by (auto simp: unregister_actor_def core_unregister_actor_def require_def node_wf_def
        actors_wf_def routing_wf_def names_wf_def distinct_delete)
qed

lemma node_wf_new_mailbox [wf_intros]:
  assumes "node_wf n"
  shows "node_wf (snd (new_mailbox m n))" "has_key (fst (new_mailbox m n)) (queues (snd (new_mailbox m n)))"
  using assms
  by (auto simp: new_mailbox_def node_wf_def queues_wf_def actors_wf_def names_wf_def less_SucI)

lemma node_wf_stop_rest [wf_intros]: "node_wf n \<Longrightarrow> node_wf (stop_rest n)"
  by (simp add: stop_rest_def node_wf_def actors_wf_def routing_wf_def names_wf_def)

lemma node_wf_start [wf_intros]:
  assumes "node_wf n" and "start len bound n = (Inr (), n')"
  shows "node_wf n'"
  using assms
  by (auto simp: start_def new_core_def core_start_def node_wf_def routing_wf_def actors_wf_def
      names_wf_def split: if_splits sum.splits option.splits)

lemma node_wf_deliver_callback [wf_intros]:
  "node_wf n \<Longrightarrow> has_key q (queues n) \<Longrightarrow> node_wf (snd (deliver_callback n name q p mt))"
  by (auto simp: deliver_callback_def Let_def split: sum.split option.split
      intro!: node_wf_with_core intro: node_wf_event node_wf_enqueue)

lemma node_wf_deliver_exit [wf_intros]: "node_wf n \<Longrightarrow> node_wf (snd (deliver_exit n f t r))"
  by (auto simp: deliver_exit_def intro: node_wf_send_local split: option.split)

lemma node_wf_deliver_down [wf_intros]: "node_wf n \<Longrightarrow> node_wf (snd (deliver_down n f t r))"
  by (auto simp: deliver_down_def Let_def intro!: node_wf_send_local split: option.split)

lemma node_wf_route [wf_intros]:
  assumes "node_wf n"
  shows "node_wf (route_data n f s d j i r k room)" "node_wf (route_error n f shown k)"
  using assms by (auto simp: route_data_def route_error_def split: option.split intro!: node_wf_core)

subsection \<open>Properties of the table of actors\<close>

text \<open>A started node with one connected peer, for the examples below.\<close>

definition peer_b :: nodeid where
  "peer_b = \<lparr>nid_name = ''b'', nid_host = ''h'', nid_port = 2\<rparr>"

definition demo_core :: "string \<Rightarrow> core" where
  "demo_core name = \<lparr>core_local = \<lparr>nid_name = name, nid_host = ''h'', nid_port = 1\<rparr>, core_running = True,
     core_peers = [peer_b], core_closed = [], core_desired = [], core_routing = [(''w'', 0)],
     core_out = [], core_events = [], core_msg_id = 1, json_len = (\<lambda>_. 10)\<rparr>"

definition demo_started :: "string \<Rightarrow> node" where
  "demo_started name = (new_node sample_env (name @ ''@h:1'') (Some 1))
     \<lparr>core := Some (demo_core name), started := True, stopped := Some False, next_id := 2,
      mailboxes := [(''w'', 0)], queues := [(0, new_queue 1), (1, new_queue 1)]\<rparr>"

lemma demo_started_wf [simp]: "node_wf (demo_started name)"
  by (auto simp: demo_started_def demo_core_def new_node_def node_wf_def queues_wf_def actors_wf_def
      routing_wf_def names_wf_def split: if_splits)

lemma demo_started_simps [simp]:
  "core (demo_started name) = Some (demo_core name)"
  "mailboxes (demo_started name) = [(''w'', 0)]"
  "codec_of (demo_started name) = sample_env"
  "queue_at (demo_started name) 0 = new_queue 1"
  "peer_waiters (demo_started name) = []"
  by (simp_all add: demo_started_def new_node_def queue_at_def get_or_def)

text \<open>C24. No name is ever taken over. Registering a mailbox fails exactly when another mailbox holds the
  name, and then nothing changes; otherwise the name leads to the mailbox both for local sends
  and in the routing table of the transport, and no other name is affected.\<close>

theorem register_actor_no_takeover:
  assumes "node_wf n" and "core n = Some c" and "register_actor n name q = (r, n')"
  shows "if \<exists>q'. map_of (mailboxes n) name = Some q' \<and> q' \<noteq> q
    then r = Inl (ValueError (''actor name '' @ py_repr name @ '' is already registered on this node'')) \<and> n' = n
    else r = Inr () \<and> (\<exists>c'. core n' = Some c'
           \<and> (\<forall>k. map_of (mailboxes n') k = (if k = name then Some q else map_of (mailboxes n) k)
                \<and> map_of (core_routing c') k = map_of (mailboxes n') k))"
  using assms node_wf_running [OF assms(1,2)]
  by (auto simp: register_actor_def core_register_actor_def require_def node_wf_routing
      split: option.splits if_splits)

theorem register_actor_no_takeover_witness:
  "isl (fst (register_actor (demo_started ''a'') ''w'' 1))
   \<and> map_of (mailboxes (snd (register_actor (demo_started ''a'') ''v'' 1))) ''w'' = Some 0"
  using register_actor_no_takeover [of "demo_started ''a''" "demo_core ''a''" "''w''" 1
      "fst (register_actor (demo_started ''a'') ''w'' 1)" "snd (register_actor (demo_started ''a'') ''w'' 1)"]
    register_actor_no_takeover [of "demo_started ''a''" "demo_core ''a''" "''v''" 1
      "fst (register_actor (demo_started ''a'') ''v'' 1)" "snd (register_actor (demo_started ''a'') ''v'' 1)"]
  by (auto simp: prod_eq_iff)

text \<open>A local send ends in one of three ways: the name is unknown and the caller gets
  \<^verbatim>\<open>ValueError\<close>; the mailbox is full, the message is dropped, every mailbox stays as it is and each user
  listener is told once; or the message, with this node as its source, is the last one of that
  mailbox and no other mailbox changes.\<close>

lemma send_local_outcome:
  "case send_local n name msg reply_to corr of (r, n') \<Rightarrow>
     (case map_of (mailboxes n) name of
        None \<Rightarrow> r = Inl (ValueError (''no local actor named '' @ py_repr name)) \<and> n' = n
      | Some q \<Rightarrow>
          r = Inr () \<and>
          (if queue_full (queue_at n q)
           then queues n' = queues n
             \<and> event_log n' = event_log n @ map (\<lambda>i. (i, Ev_mailbox_full name)) (user_listeners n)
           else items (queue_at n' q) = items (queue_at n q) @ [(msg, local_meta n reply_to corr)]
             \<and> maxsize (queue_at n' q) = maxsize (queue_at n q)
             \<and> (\<forall>q'. q' = q \<or> queue_at n' q' = queue_at n q')))"
proof (cases "map_of (mailboxes n) name")
  case None
  then show ?thesis by (simp add: send_local_def)
next
  case (Some q)
  show ?thesis
  proof (cases rule: enqueue_cases [of n q "(msg, local_meta n reply_to corr)"])
    case 1
    with Some show ?thesis
      by (simp add: send_local_def on_core_event_plain is_peer_event_def)
  next
    case 2
    have "queue_at (n\<lparr>queues := dict_set q x (queues n)\<rparr>) q'
        = (if q' = q then x else queue_at n q')" for x q' by (simp add: queue_at_def)
    with Some 2 show ?thesis by (simp add: send_local_def)
  qed
qed

subsection \<open>Properties of remote sends\<close>

lemma send_remote_accepted:
  assumes "core a = Some c" and "core_running c"
    and "encode_payload (codec_of a) msg = Inr e" and "py_to_json e = Inr j"
    and "parse peer_id = Inr p" and "p \<in> set (core_peers c)" and "p \<notin> set (core_closed c)"
    and "json_len c j \<le> MAX_FRAME_SIZE" and "u64_arg corr = Inr ()"
  shows "send_remote a peer_id name msg reply_to corr =
    (Inr (), a\<lparr>core := Some (c\<lparr>core_msg_id := core_msg_id c + 1, core_out := core_out c
       @ [Data_frame p name j (core_msg_id c) reply_to corr]\<rparr>)\<rparr>)"
  using assms
  by (simp add: send_remote_def with_core_def core_send_data_def send_args_def parse_peer_def
      require_def send_data_bytes_def Let_def)

lemma queue_at_set [simp]:
  "queue_at (n\<lparr>queues := dict_set q x (queues n)\<rparr>) q' = (if q' = q then x else queue_at n q')"
  by (simp add: queue_at_def)

lemma queue_at_tasks [simp]: "queue_at (create_task t n) q = queue_at n q"
  "codec_of (create_task t n) = codec_of n"
  by (simp_all add: queue_at_def create_task_def)

lemma deliver_callback_accepted:
  assumes "decode_payload (codec_of n) payload = Inr m" and "\<not> queue_full (queue_at n q)"
  shows "deliver_callback n name q payload mt =
    (Inr (), n\<lparr>queues := dict_set q ((queue_at n q)\<lparr>items := items (queue_at n q) @ [(m, mt)]\<rparr>) (queues n)\<rparr>)"
proof -
  have "enqueue q (m, mt) n = Some (n\<lparr>queues := dict_set q ((queue_at n q)\<lparr>items :=
      items (queue_at n q) @ [(m, mt)]\<rparr>) (queues n)\<rparr>)"
    using assms(2) by (simp add: enqueue_Some)
  with assms(1) show ?thesis by (simp add: deliver_callback_def)
qed


lemma sample_msg_portable [simp]: "portable sample_env sample_msg"
  by (simp add: sample_env_def sample_msg_def task_cls_def plain_builtin_def importable_def
      RESERVED_def i64_or_u64_def class_of_namespace_def)

lemma parse_b: "parse ''b@h:2'' = Inr peer_b" "parse ''b@h:02'' = Inr peer_b"
  by (simp_all add: parse_def split_once_def rsplit_once_def rpartition_def parse_u16_def
      digit_val_def peer_b_def)


text \<open>A message for a name that the receiving node does not know is answered by one error frame that
  names the actor and carries the sender's correlation id, and changes nothing else there.\<close>

lemma unknown_actor_reported:
  assumes "node_wf b" and "core b = Some c" and "map_of (mailboxes b) name = None"
    and "from_peer \<in> set (core_peers c)" and "from_peer \<notin> set (core_closed c)"
  shows "route_data b from_peer src name j i reply_to corr room =
    b\<lparr>core := Some (c\<lparr>core_msg_id := core_msg_id c + 1, core_out := core_out c
       @ [Error_frame from_peer (''actor_not_found:'' @ name) (core_msg_id c) corr]\<rparr>)\<rparr>"
  using assms node_wf_routing [OF assms(1,2)] by (simp add: route_data_def send_error_def Let_def)

subsection \<open>Properties of connecting\<close>

lemma drop_waiter_waiters:
  assumes "fut \<notin> set (get_or [] ws peer)" and "peer_waiters n = dict_set peer (get_or [] ws peer @ [fut]) ws"
  shows "get_or [] (peer_waiters (drop_waiter peer fut n)) k = get_or [] ws k"
  using assms by (auto simp: drop_waiter_def Let_def remove1_append)

lemma connect_wait_fields:
  assumes "connect_wait n peer = (fut, n1)"
  shows "fut = next_id n" "map_of (futures n1) fut = Some Fut_pending"
    "peer_waiters n1 = dict_set peer (get_or [] (peer_waiters n) peer @ [fut]) (peer_waiters n)"
  using assms by (auto simp: connect_wait_def)

lemma connected_futures:
  "futures (on_core_event (Ev_peer_connected p) n)
     = fold set_result_if_pending (get_or [] (peer_waiters n) p) (futures n)"
  by (simp add: on_core_event_def Let_def wake_waiters_def event_frame)

lemma fold_fail_if_pending:
  "map_of (fold (fail_if_pending e) ws fs) fut =
     (if fut \<in> set ws \<and> map_of fs fut = Some Fut_pending then Some (Fut_exception e) else map_of fs fut)"
  by (induction ws arbitrary: fs) (auto simp: fail_if_pending_def)

lemma waiter_in_concat: "x \<in> set (get_or [] ws k) \<Longrightarrow> x \<in> set (concat (map snd ws))"
  by (cases "map_of ws k") (force simp: get_or_def dest: map_of_SomeD)+

text \<open>The end of a connection attempt that had to wait: it succeeds when the transport reports the
  peer, fails when the node is stopped meanwhile, and fails with another text when nothing
  happened until the timeout, both with \<^verbatim>\<open>ConnectionError\<close>; afterwards the waiters are those
  from before.\<close>

lemma connect_peer_outcomes:
  assumes "connect_wait n peer = (fut, n1)" and "fut \<notin> set (get_or [] (peer_waiters n) peer)"
  shows "fst (connect_finish (on_core_event (Ev_peer_connected peer) n1) peer fut) = Inr ()
    \<and> fst (connect_finish (stop_rest n1) peer fut)
        = Inl (ConnectionError ''node stopped while connecting'')
    \<and> fst (connect_finish n1 peer fut)
        = Inl (ConnectionError (''failed to connect to peer '' @ py_repr peer))
    \<and> (\<forall>k. get_or [] (peer_waiters (snd (connect_finish (on_core_event (Ev_peer_connected peer) n1) peer fut))) k
           = get_or [] (peer_waiters n) k
         \<and> get_or [] (peer_waiters (snd (connect_finish n1 peer fut))) k = get_or [] (peer_waiters n) k)"
proof -
  note f = connect_wait_fields [OF assms(1)]
  have inw: "fut \<in> set (get_or [] (peer_waiters n1) peer)" by (simp add: f(3))
  have "map_of (futures (on_core_event (Ev_peer_connected peer) n1)) fut = Some Fut_result"
    using inw f(2) by (simp add: connected_futures fold_futures)
  moreover have "map_of (futures (stop_rest n1)) fut
      = Some (Fut_exception (ConnectionError ''node stopped while connecting''))"
    using waiter_in_concat [OF inw] f(2) by (simp add: stop_rest_def fold_fail_if_pending)
  moreover have "get_or [] (peer_waiters (drop_waiter peer fut n1)) k = get_or [] (peer_waiters n) k" for k
    by (rule drop_waiter_waiters [OF assms(2) f(3)])
  moreover have "get_or [] (peer_waiters (drop_waiter peer fut
      (on_core_event (Ev_peer_connected peer) n1))) k = get_or [] (peer_waiters n) k" for k
    by (rule drop_waiter_waiters [OF assms(2)]) (simp add: event_frame f(3))
  ultimately show ?thesis using f(2) by (simp add: connect_finish_def)
qed

lemma connect_peer_outcomes_witness:
  "fst (connect_finish (on_core_event (Ev_peer_connected ''b@h:2'')
      (snd (connect_wait (demo_started ''a'') ''b@h:2''))) ''b@h:2'' (fst (connect_wait (demo_started ''a'') ''b@h:2'')))
   = Inr ()"
  using connect_peer_outcomes [of "demo_started ''a''" "''b@h:2''"
      "fst (connect_wait (demo_started ''a'') ''b@h:2'')" "snd (connect_wait (demo_started ''a'') ''b@h:2'')"]
  by simp

text \<open>A peer id may be written in a way that the transport accepts but prints differently, such as a
  port with a leading zero. The waiter is stored under the text the caller gave and the event
  names the peer by its canonical text, so the attempt runs into the timeout and raises
  \<^verbatim>\<open>ConnectionError\<close> although the peer is connected.\<close>

lemma connect_peer_alias_times_out:
  assumes "connect_wait n peer_id = (fut, n1)" and "parse peer_id = Inr p" and "to_full p \<noteq> peer_id"
    and "fut \<notin> set (get_or [] (peer_waiters n) (to_full p))"
    and "core n1 = Some c" and "core_running c" and "p \<in> set (core_peers c)"
    and "n2 = on_core_event (Ev_peer_connected (to_full p)) n1"
  shows "has_peer n2 peer_id = Inr True
    \<and> fst (connect_finish n2 peer_id fut)
        = Inl (ConnectionError (''failed to connect to peer '' @ py_repr peer_id))"
proof -
  note f = connect_wait_fields [OF assms(1)]
  have "fut \<notin> set (get_or [] (peer_waiters n1) (to_full p))" using assms(3,4) by (simp add: f(3))
  then have "map_of (futures n2) fut = Some Fut_pending"
    using f(2) by (simp add: assms(8) connected_futures fold_futures)
  then show ?thesis using assms(2,5,6,7)
    by (simp add: connect_finish_def has_peer_def assms(8) event_frame core_has_peer_def peer_arg_def
        parse_peer_def require_def)
qed

lemma show_nat_2: "show_nat (unat (2 :: 16 word)) = ''2''"
  by code_simp

lemma connect_peer_alias_times_out_witness:
  "\<exists>n2. has_peer n2 ''b@h:02'' = Inr True
    \<and> isl (fst (connect_finish n2 ''b@h:02'' (fst (connect_wait (demo_started ''a'') ''b@h:02''))))"
proof -
  let ?w = "connect_wait (demo_started ''a'') ''b@h:02''"
  have "to_full peer_b \<noteq> ''b@h:02''"
    using show_nat_2 by (simp add: to_full_def address_def peer_b_def)
  moreover have "core (snd ?w) = Some (demo_core ''a'')" by (simp add: connect_wait_def)
  moreover have "core_running (demo_core ''a'')" "peer_b \<in> set (core_peers (demo_core ''a''))"
    by (simp_all add: demo_core_def)
  ultimately have "has_peer (on_core_event (Ev_peer_connected (to_full peer_b)) (snd ?w)) ''b@h:02'' = Inr True
    \<and> isl (fst (connect_finish (on_core_event (Ev_peer_connected (to_full peer_b)) (snd ?w)) ''b@h:02'' (fst ?w)))"
    using connect_peer_alias_times_out [of "demo_started ''a''" "''b@h:02''" "fst ?w" "snd ?w" peer_b
        "demo_core ''a''" "on_core_event (Ev_peer_connected (to_full peer_b)) (snd ?w)"] parse_b(2)
    by simp
  then show ?thesis by blast
qed

end
