(* ===== verification/Registry_Actor.thy ===== *)
theory Registry_Actor
  imports Node_Laws
begin

text \<open>
  The reserved actor of the name registry (\<^verbatim>\<open>_RegistryActor\<close> in \<^verbatim>\<open>src/lapinbeam/registry.py\<close>) and the
  replication of names between two nodes: a claim that contradicts a known one is rejected and
  reported, so every node keeps the claim it saw first.
\<close>

subsection \<open>Receiving claims\<close>

definition apply_claim :: "string \<Rightarrow> owner \<Rightarrow> node \<Rightarrow> node" where
  "apply_claim name p n =
     (case map_of (names n) name of
        None \<Rightarrow> n\<lparr>names := dict_set name p (names n)\<rparr>
      | Some existing \<Rightarrow>
          if existing \<noteq> p then on_core_event (Ev_registry_conflict name existing p) n
          else n\<lparr>names := dict_set name p (names n)\<rparr>)"

definition apply_release :: "string \<Rightarrow> owner \<Rightarrow> node \<Rightarrow> node" where
  "apply_release name p n =
     (if map_of (names n) name = Some p then n\<lparr>names := dict_del name (names n)\<rparr> else n)"

fun apply_snapshot :: "(string \<times> pyval) list \<Rightarrow> node \<Rightarrow> unit res \<times> node" where
  "apply_snapshot [] n = (Inr (), n)"
| "apply_snapshot ((name, v) # rest) n =
     (case as_pair v of
        Inl e \<Rightarrow> (Inl e, n)
      | Inr p \<Rightarrow> apply_snapshot rest (apply_claim name p n))"

definition registry_receive :: "node \<Rightarrow> pyval \<Rightarrow> unit res \<times> node" where
  "registry_receive n msg =
     (case getitem msg ''op'' of
        Inl e \<Rightarrow> (Inl e, n)
      | Inr opv \<Rightarrow>
          if opv = PStr ''delta'' then
            (case res_bind (str_item msg ''name'') (\<lambda>name.
                  res_bind (res_bind (getitem msg ''owner'') as_pair) (\<lambda>p.
                  res_bind (getitem msg ''verb'') (\<lambda>verb. Inr (name, p, verb)))) of
               Inl e \<Rightarrow> (Inl e, n)
             | Inr (name, p, verb) \<Rightarrow>
                 (Inr (), if verb = PStr ''claim'' then apply_claim name p n else apply_release name p n))
          else if opv = PStr ''snapshot'' then
            (case res_bind (getitem msg ''registry'') as_items of
               Inl e \<Rightarrow> (Inl e, n)
             | Inr entries \<Rightarrow> apply_snapshot entries n)
          else (Inr (), n))"

subsection \<open>Replication\<close>

lemma conflict_plain [simp]: "names (on_core_event (Ev_registry_conflict k p q) n) = names n"
  by (simp add: on_core_event_plain is_peer_event_def)

lemma lookup_apply_claim:
  "map_of (names (apply_claim name p n)) k =
     (if k = name \<and> map_of (names n) name = None then Some p else map_of (names n) k)"
  by (auto simp: apply_claim_def split: option.split)

lemma lookup_apply_release:
  "map_of (names (apply_release name p n)) k =
     (if k = name \<and> map_of (names n) name = Some p then None else map_of (names n) k)"
  by (simp add: apply_release_def)

lemma registry_receive_delta:
  "registry_receive n (registry_delta_msg name p verb) =
     (Inr (), if verb = ''claim'' then apply_claim name p n else apply_release name p n)"
  by (simp add: registry_receive_def registry_delta_msg_def str_item_def)

lemma lookup_apply_snapshot:
  assumes "distinct (keys src)"
  shows "\<exists>n'. apply_snapshot (registry_snapshot src) n = (Inr (), n')
    \<and> (\<forall>k. map_of (names n') k =
         (case map_of (names n) k of None \<Rightarrow> map_of src k | Some p \<Rightarrow> Some p))"
  using assms
proof (induction src arbitrary: n)
  case Nil
  then show ?case by (auto simp: registry_snapshot_def split: option.split)
next
  case (Cons e src)
  obtain k p where e: "e = (k, p)" by (cases e)
  have "distinct (keys src)" "map_of src k = None"
    using Cons.prems e by (auto simp: map_of_eq_None_iff)
  with Cons.IH [of "apply_claim k p n"] obtain n' where
    "apply_snapshot (registry_snapshot src) (apply_claim k p n) = (Inr (), n')"
    "\<forall>k'. map_of (names n') k' = (case map_of (names (apply_claim k p n)) k' of
       None \<Rightarrow> map_of src k' | Some p \<Rightarrow> Some p)" by blast
  then show ?case using e \<open>map_of src k = None\<close>
    by (auto simp: registry_snapshot_def lookup_apply_claim split: option.split)
qed

text \<open>A run of the owner, as for the process groups.\<close>

datatype name_op = Claim string string | Release string string

fun own_name_op :: "name_op \<Rightarrow> node \<Rightarrow> node" where
  "own_name_op (Claim k a) n = snd (register_name n k (Some a) None)"
| "own_name_op (Release k a) n = snd (unregister_name n k (Some a) None)"

fun own_name_deltas :: "name_op \<Rightarrow> node \<Rightarrow> (string \<times> owner \<times> string) list" where
  "own_name_deltas (Claim k a) n =
     (if map_of (names n) k \<in> {None, Some (local_id n, a)} then [(k, (local_id n, a), ''claim'')] else [])"
| "own_name_deltas (Release k a) n =
     (if map_of (names n) k = Some (local_id n, a) then [(k, (local_id n, a), ''release'')] else [])"

fun run_names :: "name_op list \<Rightarrow> node \<Rightarrow> (string \<times> owner \<times> string) list \<times> node" where
  "run_names [] n = ([], n)"
| "run_names (x # xs) n =
     (case run_names xs (own_name_op x n) of (ds, n') \<Rightarrow> (own_name_deltas x n @ ds, n'))"

definition receive_name_deltas :: "(string \<times> owner \<times> string) list \<Rightarrow> node \<Rightarrow> node" where
  "receive_name_deltas ds n =
     fold (\<lambda>(k, p, v) n. snd (registry_receive n (registry_delta_msg k p v))) ds n"

definition entry_agrees :: "string \<Rightarrow> owner option \<Rightarrow> owner option \<Rightarrow> bool" where
  "entry_agrees nid ea eb \<longleftrightarrow>
     (\<forall>x. (eb = Some (nid, x) \<longrightarrow> ea = Some (nid, x))
        \<and> (ea = Some (nid, x) \<longrightarrow> eb = Some (nid, x) \<or> (\<exists>q. eb = Some q \<and> fst q \<noteq> nid)))"

definition names_agree :: "string \<Rightarrow> node \<Rightarrow> node \<Rightarrow> bool" where
  "names_agree nid a b \<longleftrightarrow> (\<forall>k. entry_agrees nid (map_of (names a) k) (map_of (names b) k))"

lemma entry_claim:
  "entry_agrees nid ea eb \<Longrightarrow>
   entry_agrees nid (if ea = None then Some (nid, y) else ea)
     (if ea \<in> {None, Some (nid, y)} \<and> eb = None then Some (nid, y) else eb)"
  by (cases ea; cases eb) (auto simp: entry_agrees_def)

lemma entry_release:
  "entry_agrees nid ea eb \<Longrightarrow>
   entry_agrees nid (if ea = Some (nid, y) then None else ea)
     (if ea = Some (nid, y) \<and> eb = Some (nid, y) then None else eb)"
  by (cases ea; cases eb) (auto simp: entry_agrees_def)

lemma entry_snapshot:
  "(\<forall>x. eb \<noteq> Some (nid, x)) \<Longrightarrow> entry_agrees nid ea (case eb of None \<Rightarrow> ea | Some p \<Rightarrow> Some p)"
  by (cases eb) (auto simp: entry_agrees_def)

lemma own_name_op_frame [simp]:
  "local_id (own_name_op x n) = local_id n" "registry_peers (own_name_op x n) = registry_peers n"
  by (cases x; simp add: register_name_def unregister_name_def me_or_ref_def Let_def split: option.split)+

lemma own_name_op_names:
  "map_of (names (own_name_op (Claim k a) n)) k' =
     (if k' = k \<and> map_of (names n) k = None then Some (local_id n, a) else map_of (names n) k')"
  "map_of (names (own_name_op (Release k a) n)) k' =
     (if k' = k \<and> map_of (names n) k = Some (local_id n, a) then None else map_of (names n) k')"
  by (auto simp: register_name_def unregister_name_def me_or_ref_def Let_def split: option.split)

lemma own_name_op_tasks:
  "registry_peers n = Some ps \<Longrightarrow> tasks (own_name_op x n) = tasks n @
     concat (map (\<lambda>(k, p, v). map (\<lambda>peer. Send_registry_delta peer k p v) ps) (own_name_deltas x n))"
  by (cases x) (auto simp: register_name_def unregister_name_def me_or_ref_def Let_def
      registry_broadcast_tasks split: option.split)

lemma names_step:
  assumes "names_agree (local_id a) a b"
  shows "names_agree (local_id a) (own_name_op x a) (receive_name_deltas (own_name_deltas x a) b)"
proof (cases x)
  case (Claim k y)
  have "map_of (names (receive_name_deltas (own_name_deltas x a) b)) k' =
      (if k' = k \<and> map_of (names a) k \<in> {None, Some (local_id a, y)} \<and> map_of (names b) k = None
       then Some (local_id a, y) else map_of (names b) k')" for k'
    by (simp add: Claim receive_name_deltas_def registry_receive_delta lookup_apply_claim)
  moreover have "entry_agrees (local_id a) (map_of (names a) k') (map_of (names b) k')" for k'
    using assms by (simp add: names_agree_def)
  ultimately show ?thesis
    using entry_claim [of "local_id a" "map_of (names a) k" "map_of (names b) k" y]
    by (auto simp: names_agree_def Claim own_name_op_names simp del: own_name_op.simps own_name_deltas.simps)
next
  case (Release k y)
  have "map_of (names (receive_name_deltas (own_name_deltas x a) b)) k' =
      (if k' = k \<and> map_of (names a) k = Some (local_id a, y) \<and> map_of (names b) k = Some (local_id a, y)
       then None else map_of (names b) k')" for k'
    by (simp add: Release receive_name_deltas_def registry_receive_delta lookup_apply_release)
  moreover have "entry_agrees (local_id a) (map_of (names a) k') (map_of (names b) k')" for k'
    using assms by (simp add: names_agree_def)
  ultimately show ?thesis
    using entry_release [of "local_id a" "map_of (names a) k" "map_of (names b) k" y]
    by (auto simp: names_agree_def Release own_name_op_names simp del: own_name_op.simps own_name_deltas.simps)
qed

lemma names_run:
  assumes "names_agree (local_id a) a b" and "run_names xs a = (ds, a')"
  shows "names_agree (local_id a) a' (receive_name_deltas ds b)"
  using assms
proof (induction xs arbitrary: a b ds)
  case Nil
  then show ?case by (simp add: receive_name_deltas_def)
next
  case (Cons x xs)
  obtain es where es: "run_names xs (own_name_op x a) = (es, a')" "ds = own_name_deltas x a @ es"
    using Cons.prems(2) by (auto split: prod.splits)
  from names_step [OF Cons.prems(1), of x]
  have "names_agree (local_id (own_name_op x a)) (own_name_op x a)
      (receive_name_deltas (own_name_deltas x a) b)" by simp
  from Cons.IH [OF this es(1)] es(2) show ?case by (simp add: receive_name_deltas_def)
qed

lemma names_run_tasks:
  "registry_peers a = Some ps \<Longrightarrow> run_names xs a = (ds, a') \<Longrightarrow> tasks a' = tasks a @
     concat (map (\<lambda>(k, p, v). map (\<lambda>peer. Send_registry_delta peer k p v) ps) ds)"
proof (induction xs arbitrary: a ds)
  case (Cons x xs)
  obtain es where es: "run_names xs (own_name_op x a) = (es, a')" "ds = own_name_deltas x a @ es"
    using Cons.prems(2) by (auto split: prod.splits)
  with Cons.IH [OF _ es(1)] own_name_op_tasks [OF Cons.prems(1), of x] Cons.prems(1)
  show ?case by simp
qed simp

subsection \<open>Properties of the replication\<close>

text \<open>C21. Replication of names. A peer that holds no name of a node, gets the node's snapshot and then
  the deltas of any run of claims and releases there, believes of the node only what is true:
  each name it attributes to an actor of the node is owned by that actor. It misses a name of
  the node only where it keeps a conflicting claim of somebody else.\<close>

theorem registry_replica_sound:
  assumes "distinct (keys (names a))" and "registry_peers a = Some ps"
    and "\<forall>k x. map_of (names b) k \<noteq> Some (local_id a, x)"
    and "registry_receive b (registry_snapshot_msg (names a)) = (r, b1)"
    and "run_names xs a = (ds, a')"
  shows "r = Inr () \<and> names_agree (local_id a) a' (receive_name_deltas ds b1)
    \<and> tasks a' = tasks a @
        concat (map (\<lambda>(k, p, v). map (\<lambda>peer. Send_registry_delta peer k p v) ps) ds)"
proof -
  obtain b2 where b2: "apply_snapshot (registry_snapshot (names a)) b = (Inr (), b2)"
    "\<forall>k. map_of (names b2) k = (case map_of (names b) k of None \<Rightarrow> map_of (names a) k | Some p \<Rightarrow> Some p)"
    using lookup_apply_snapshot [OF assms(1)] by blast
  then have "r = Inr ()" "b1 = b2"
    using assms(4) by (simp_all add: registry_receive_def registry_snapshot_msg_def)
  moreover have "names_agree (local_id a) a b2"
    using b2(2) assms(3) by (simp add: names_agree_def entry_snapshot)
  ultimately show ?thesis
    using names_run [OF _ assms(5)] names_run_tasks [OF assms(2,5)] by simp
qed

theorem registry_replica_sound_witness:
  "\<exists>b1. registry_receive (demo_node ''b@h:2'') (registry_snapshot_msg [(''db'', (''a@h:1'', ''w''))]) = (Inr (), b1)
     \<and> names_agree ''a@h:1''
         (snd (run_names [Release ''db'' ''w'', Claim ''db'' ''v'']
            ((demo_node ''a@h:1'')\<lparr>names := [(''db'', (''a@h:1'', ''w''))], registry_peers := Some []\<rparr>)))
         (receive_name_deltas (fst (run_names [Release ''db'' ''w'', Claim ''db'' ''v'']
            ((demo_node ''a@h:1'')\<lparr>names := [(''db'', (''a@h:1'', ''w''))], registry_peers := Some []\<rparr>))) b1)"
proof -
  let ?a = "(demo_node ''a@h:1'')\<lparr>names := [(''db'', (''a@h:1'', ''w''))], registry_peers := Some []\<rparr>"
  let ?b = "demo_node ''b@h:2''"
  let ?run = "run_names [Release ''db'' ''w'', Claim ''db'' ''v''] ?a"
  have id: "local_id ?a = ''a@h:1''" by (simp add: demo_node_def new_node_def local_id_def)
  have b: "names ?b = []" by (simp add: demo_node_def new_node_def)
  obtain r b1 where r: "registry_receive ?b (registry_snapshot_msg (names ?a)) = (r, b1)"
    by (cases "registry_receive ?b (registry_snapshot_msg (names ?a))")
  have "r = Inr () \<and> names_agree (local_id ?a) (snd ?run) (receive_name_deltas (fst ?run) b1)"
    using registry_replica_sound [of ?a "[]" ?b r b1 "[Release ''db'' ''w'', Claim ''db'' ''v'']" "fst ?run" "snd ?run"]
      r b by simp
  then show ?thesis using r id by auto
qed

text \<open>The first claim a node sees wins there: a claim of a name that another owner holds changes no
  entry, and every user listener gets one report that names the entry kept and the one refused.\<close>

lemma registry_conflict_keeps_first:
  assumes "map_of (names n) name = Some existing" and "existing \<noteq> p"
  shows "registry_receive n (registry_delta_msg name p ''claim'') =
    (Inr (), n\<lparr>event_log := event_log n
       @ map (\<lambda>i. (i, Ev_registry_conflict name existing p)) (user_listeners n)\<rparr>)"
  using assms
  by (simp add: registry_receive_delta apply_claim_def on_core_event_plain is_peer_event_def)

end
