(* ===== verification/Links.thy ===== *)
theory Links
  imports Node_Laws
begin

text \<open>
  Links between actors (\<^verbatim>\<open>src/lapinbeam/links.py\<close>): the operations a running actor calls, the
  reserved actor that answers the requests of other nodes, and what an exit signal does to its
  target. The running actor is an argument, None outside of any actor.
\<close>

definition LINK_ACTOR :: string where
  "LINK_ACTOR = ''__lapinbeam_link__''"

definition link_me :: "string option \<Rightarrow> string res" where
  "link_me current_actor =
     (case current_actor of
        None \<Rightarrow> Inl (RuntimeError ''link()/unlink()/trap_exit() must be called from inside a running actor'')
      | Some me \<Rightarrow> Inr me)"

fun target_of :: "actor_ref \<Rightarrow> target" where
  "target_of (RemoteRef peer_id name) = (Some peer_id, name)"
| "target_of (ActorRef name) = (None, name)"

definition link_request :: "string \<Rightarrow> string \<Rightarrow> string \<Rightarrow> string \<Rightarrow> pyval" where
  "link_request verb me name from_node =
     PDict [(''op'', PStr verb), (''from'', PStr me), (''to'', PStr name), (''from_node'', PStr from_node)]"

definition exit_request :: "string \<Rightarrow> string \<Rightarrow> string \<Rightarrow> string \<Rightarrow> pyval" where
  "exit_request target actor reason from_node =
     PDict [(''op'', PStr ''exit''), (''to'', PStr target), (''actor'', PStr actor),
            (''reason'', PStr reason), (''from_node'', PStr from_node)]"

subsection \<open>Operations\<close>

definition link :: "node \<Rightarrow> string option \<Rightarrow> actor_ref \<Rightarrow> unit res \<times> node" where
  "link n current_actor other =
     (case link_me current_actor of
        Inl e \<Rightarrow> (Inl e, n)
      | Inr me \<Rightarrow>
          let n1 = n\<lparr>links := bucket_add me (target_of other) (links n)\<rparr>
          in case target_of other of
               (None, name) \<Rightarrow>
                 let n2 = n1\<lparr>links := bucket_add name (None, me) (links n1)\<rparr>
                 in if has_key name (mailboxes n2) then (Inr (), n2)
                    else deliver_exit n2 name me ''noproc''
             | (Some peer_id, name) \<Rightarrow>
                 send_remote n1 peer_id LINK_ACTOR (link_request ''link'' me name (local_id n1)) None None)"

definition unlink :: "node \<Rightarrow> string option \<Rightarrow> actor_ref \<Rightarrow> unit res \<times> node" where
  "unlink n current_actor other =
     (case link_me current_actor of
        Inl e \<Rightarrow> (Inl e, n)
      | Inr me \<Rightarrow>
          let n1 = n\<lparr>links := bucket_discard me (target_of other) (links n)\<rparr>
          in case target_of other of
               (None, name) \<Rightarrow> (Inr (), n1\<lparr>links := bucket_discard name (None, me) (links n1)\<rparr>)
             | (Some peer_id, name) \<Rightarrow>
                 send_remote n1 peer_id LINK_ACTOR (link_request ''unlink'' me name (local_id n1)) None None)"

definition trap_exit :: "node \<Rightarrow> string option \<Rightarrow> bool \<Rightarrow> unit res \<times> node" where
  "trap_exit n current_actor enabled =
     (case link_me current_actor of
        Inl e \<Rightarrow> (Inl e, n)
      | Inr me \<Rightarrow> (Inr (), n\<lparr>trap_exit_flags := dict_set me enabled (trap_exit_flags n)\<rparr>))"

subsection \<open>The reserved actor\<close>

text \<open>\<^verbatim>\<open>msg.get("from_node")\<close>: a missing key counts as None.\<close>

definition get_opt :: "pyval \<Rightarrow> string \<Rightarrow> string option res" where
  "get_opt msg k = (case getitem msg k of Inr v \<Rightarrow> as_opt_str v
                    | Inl e \<Rightarrow> if exn_type e = ''KeyError'' then Inr None else Inl e)"

text \<open>A reply to the node that asked; without a node id the native call refuses its argument.\<close>

definition send_back :: "node \<Rightarrow> string option \<Rightarrow> string \<Rightarrow> pyval \<Rightarrow> unit res \<times> node" where
  "send_back n peer actor_name msg =
     (case peer of
        None \<Rightarrow> (Inl (TypeError ''a string is expected''), n)
      | Some peer_id \<Rightarrow> send_remote n peer_id actor_name msg None None)"

definition link_receive :: "node \<Rightarrow> pyval \<Rightarrow> unit res \<times> node" where
  "link_receive n msg =
     (case res_bind (getitem msg ''op'') (\<lambda>opv. res_bind (get_opt msg ''from_node'') (\<lambda>from_node.
             res_bind (str_item msg ''to'') (\<lambda>target. Inr (opv, from_node, target)))) of
        Inl e \<Rightarrow> (Inl e, n)
      | Inr (opv, from_node, target) \<Rightarrow>
          if opv = PStr ''link'' then
            (case str_item msg ''from'' of
               Inl e \<Rightarrow> (Inl e, n\<lparr>links := dict_set target (get_or [] (links n) target) (links n)\<rparr>)
             | Inr frm \<Rightarrow>
                 let n1 = n\<lparr>links := bucket_add target (from_node, frm) (links n)\<rparr>
                 in if has_key target (mailboxes n1) then (Inr (), n1)
                    else send_back n1 from_node LINK_ACTOR
                           (exit_request frm target ''noproc'' (local_id n1)))
          else if opv = PStr ''unlink'' then
            (case str_item msg ''from'' of
               Inl e \<Rightarrow> (Inl e, n)
             | Inr frm \<Rightarrow> (Inr (), n\<lparr>links := bucket_discard target (from_node, frm) (links n)\<rparr>))
          else if opv = PStr ''exit'' then
            (case res_bind (str_item msg ''actor'') (\<lambda>a. res_bind (str_item msg ''reason'') (\<lambda>r. Inr (a, r))) of
               Inl e \<Rightarrow> (Inl e, n)
             | Inr (a, reason) \<Rightarrow>
                 deliver_exit n (peer_label (case from_node of None \<Rightarrow> ''None'' | Some f \<Rightarrow> f) a) target reason)
          else (Inr (), n))"

definition notify_remote_exit :: "node \<Rightarrow> string \<Rightarrow> string \<Rightarrow> string \<Rightarrow> string \<Rightarrow> node" where
  "notify_remote_exit n peer_id target_name actor_name reason =
     snd (send_remote n peer_id LINK_ACTOR (exit_request target_name actor_name reason (local_id n)) None None)"

subsection \<open>Requests arrive as they were made\<close>

lemma link_receive_request:
  "link_receive n (link_request ''link'' me name nid) =
     (let n1 = n\<lparr>links := bucket_add name (Some nid, me) (links n)\<rparr>
      in if has_key name (mailboxes n1) then (Inr (), n1)
         else send_remote n1 nid LINK_ACTOR (exit_request me name ''noproc'' (local_id n1)) None None)"
  "link_receive n (link_request ''unlink'' me name nid) =
     (Inr (), n\<lparr>links := bucket_discard name (Some nid, me) (links n)\<rparr>)"
  "link_receive n (exit_request name actor reason nid) = deliver_exit n (peer_label nid actor) name reason"
  by (simp_all add: link_receive_def link_request_def exit_request_def str_item_def get_opt_def
      send_back_def Let_def)

lemma node_wf_link [wf_intros]: "node_wf n \<Longrightarrow> node_wf (snd (link n me other))"
  by (auto simp: link_def Let_def split: sum.split prod.split option.split
      intro!: node_wf_send_remote node_wf_deliver_exit)

lemma node_wf_unlink [wf_intros]: "node_wf n \<Longrightarrow> node_wf (snd (unlink n me other))"
  by (auto simp: unlink_def Let_def split: sum.split prod.split option.split intro!: node_wf_send_remote)

lemma node_wf_link_receive [wf_intros]: "node_wf n \<Longrightarrow> node_wf (snd (link_receive n msg))"
  by (auto simp: link_receive_def send_back_def Let_def split: sum.split prod.split option.split
      intro!: node_wf_send_remote node_wf_deliver_exit)

subsection \<open>Properties of links\<close>


definition demo_child :: child where
  "demo_child = \<lparr>child_name = ''w'', child_mailbox = 0, child_driver = Driver_running, child_pending_exit = None\<rparr>"


text \<open>A local link is symmetric and \<^verbatim>\<open>unlink\<close> undoes it: after linking to a running actor each side lists
  the other, nothing else changes, and unlinking afterwards restores every link set.\<close>

lemma link_unlink_local:
  assumes "has_key name (mailboxes n)" and "name \<noteq> me"
    and "(None, name) \<notin> bucket (links n) me" and "(None, me) \<notin> bucket (links n) name"
    and "link n (Some me) (ActorRef name) = (r, n1)"
    and "unlink n1 (Some me) (ActorRef name) = (r2, n2)"
  shows "r = Inr () \<and> r2 = Inr ()
    \<and> (\<forall>k. bucket (links n1) k = bucket (links n) k
          \<union> (if k = me then {(None, name)} else {}) \<union> (if k = name then {(None, me)} else {}))
    \<and> (\<forall>k. bucket (links n2) k = bucket (links n) k)
    \<and> mailboxes n1 = mailboxes n \<and> children n1 = children n"
proof -
  have n1: "r = Inr ()" "n1 = n\<lparr>links := bucket_add name (None, me) (bucket_add me (None, name) (links n))\<rparr>"
    using assms(1,5) by (auto simp: link_def link_me_def Let_def split: if_splits)
  have n2: "r2 = Inr ()" "n2 = n1\<lparr>links := bucket_discard name (None, me) (bucket_discard me (None, name) (links n1))\<rparr>"
    using assms(6) by (auto simp: unlink_def link_me_def Let_def)
  show ?thesis using assms(2-4) by (auto simp: n1 n2)
qed

text \<open>Linking to an actor that does not exist reports \<^verbatim>\<open>noproc\<close> at once but leaves the link behind on both
  sides. The caller that survives, because it traps exits, stays listed as a partner of that
  name, so the exit of an unrelated actor spawned under the name later is signalled to it.\<close>

lemma link_noproc_leaves_link:
  assumes "\<not> has_key name (mailboxes n)" and "name \<noteq> me"
    and "get_or False (trap_exit_flags n) me" and "map_of (mailboxes n) me = Some q"
    and "\<not> queue_full (queue_at n q)"
    and "link n (Some me) (ActorRef name) = (r, n1)"
  shows "r = Inr () \<and> items (queue_at n1 q) = items (queue_at n q) @ [(Exit_msg name ''noproc'', local_meta n None None)]
    \<and> (None, me) \<in> bucket (links n1) name \<and> (None, name) \<in> bucket (links n1) me
    \<and> Deliver_exit name me reason \<in> set (tasks (notify_links n1 name (fst (clear_links n1 name)) reason))"
proof -
  let ?ls = "bucket_add name (None, me) (bucket_add me (None, name) (links n))"
  let ?m = "(Exit_msg name ''noproc'', local_meta n None None)"
  let ?n2 = "n\<lparr>links := ?ls\<rparr>"
  have meta: "local_meta ?n2 None None = local_meta n None None" by (simp add: local_meta_def)
  have at: "queue_at ?n2 q = queue_at n q" by (simp add: queue_at_def)
  have "enqueue q ?m ?n2 = Some (?n2\<lparr>queues := dict_set q ((queue_at n q)\<lparr>items := items (queue_at n q) @ [?m]\<rparr>)
      (queues n)\<rparr>)"
    using assms(5) at by (simp add: enqueue_Some)
  then have n1: "r = Inr ()" "n1 = ?n2\<lparr>queues := dict_set q ((queue_at n q)\<lparr>items := items (queue_at n q) @ [?m]\<rparr>)
      (queues n)\<rparr>"
    using assms(1,3,4,6) meta by (auto simp: link_def link_me_def Let_def deliver_exit_def send_local_def)
  have "(None, me) \<in> bucket (links n1) name" using assms(2) by (simp add: n1(2))
  then have "exit_task name reason (None, me) \<in> set (tasks (notify_links n1 name (fst (clear_links n1 name)) reason))"
    by (simp add: notify_links_def clear_links_def create_tasks_def) (metis exit_task.simps(1) imageI)
  then show ?thesis using assms(2) by (simp add: n1 queue_at_def)
qed

lemma link_noproc_leaves_link_witness:
  "(None, ''w'') \<in> bucket (links (snd (link ((demo_started ''a'')\<lparr>trap_exit_flags := [(''w'', True)]\<rparr>)
      (Some ''w'') (ActorRef ''ghost'')))) ''ghost''"
proof -
  let ?n = "(demo_started ''a'')\<lparr>trap_exit_flags := [(''w'', True)]\<rparr>"
  have q: "queue_at ?n 0 = new_queue 1" by (simp add: demo_started_def new_node_def queue_at_def get_or_def)
  then show ?thesis
    using  link_noproc_leaves_link [of ?n "''ghost''" "''w''" 0 "fst (link ?n (Some ''w'') (ActorRef ''ghost''))"
        "snd (link ?n (Some ''w'') (ActorRef ''ghost''))"]
    by (simp add: queue_full_def new_queue_def get_or_def)
qed

end
