(* ===== verification/Monitors.thy ===== *)
theory Monitors
  imports Links
begin

text \<open>
  One-way monitors (\<^verbatim>\<open>src/lapinbeam/monitors.py\<close>). A monitor has two records: the watcher's node maps
  its reference to the watcher and the target, and the target's node lists the reference with the
  watcher to tell. The fresh reference that \<^verbatim>\<open>uuid.uuid4()\<close> draws is an argument.
\<close>

definition MONITOR_ACTOR :: string where
  "MONITOR_ACTOR = ''__lapinbeam_monitor__''"

definition monitor_me :: "string option \<Rightarrow> string res" where
  "monitor_me current_actor =
     (case current_actor of
        None \<Rightarrow> Inl (RuntimeError ''monitor()/demonitor() must be called from inside a running actor'')
      | Some me \<Rightarrow> Inr me)"

definition monitor_request :: "string \<Rightarrow> string \<Rightarrow> string \<Rightarrow> string \<Rightarrow> pyval" where
  "monitor_request ref watcher watcher_node target =
     PDict [(''op'', PStr ''monitor''), (''ref'', PStr ref), (''watcher'', PStr watcher),
            (''watcher_node'', PStr watcher_node), (''target'', PStr target)]"

definition demonitor_request :: "string \<Rightarrow> string \<Rightarrow> pyval" where
  "demonitor_request ref target =
     PDict [(''op'', PStr ''demonitor''), (''ref'', PStr ref), (''target'', PStr target)]"

definition noproc_request :: "string \<Rightarrow> string \<Rightarrow> string \<Rightarrow> string \<Rightarrow> pyval" where
  "noproc_request ref watcher actor from_node =
     PDict [(''op'', PStr ''down''), (''ref'', PStr ref), (''watcher'', PStr watcher),
            (''actor'', PStr actor), (''reason'', PStr ''noproc''), (''from_node'', PStr from_node)]"

definition down_request :: "string \<Rightarrow> string \<Rightarrow> string \<Rightarrow> string \<Rightarrow> pyval" where
  "down_request ref actor reason from_node =
     PDict [(''op'', PStr ''down''), (''ref'', PStr ref), (''actor'', PStr actor),
            (''reason'', PStr reason), (''from_node'', PStr from_node)]"

subsection \<open>Operations\<close>

definition add_watcher :: "string \<Rightarrow> string \<Rightarrow> target \<Rightarrow> node \<Rightarrow> node" where
  "add_watcher name ref w n =
     n\<lparr>monitor_watchers :=
        dict_set name (dict_set ref w (get_or [] (monitor_watchers n) name)) (monitor_watchers n)\<rparr>"

definition drop_watcher :: "string \<Rightarrow> string \<Rightarrow> node \<Rightarrow> node" where
  "drop_watcher name ref n =
     (case map_of (monitor_watchers n) name of
        None \<Rightarrow> n
      | Some ws \<Rightarrow> n\<lparr>monitor_watchers := dict_set name (dict_del ref ws) (monitor_watchers n)\<rparr>)"

definition monitor :: "string \<Rightarrow> node \<Rightarrow> string option \<Rightarrow> actor_ref \<Rightarrow> string res \<times> node" where
  "monitor ref n current_actor other =
     (case monitor_me current_actor of
        Inl e \<Rightarrow> (Inl e, n)
      | Inr me \<Rightarrow>
          (case target_of other of (peer, name) \<Rightarrow>
             let n1 = n\<lparr>monitors := dict_set ref (me, peer, name) (monitors n)\<rparr>;
                 done = (\<lambda>(r, n'). (res_bind r (\<lambda>_. Inr ref), n'))
             in case peer of
                  None \<Rightarrow>
                    let n2 = add_watcher name ref (None, me) n1
                    in if has_key name (mailboxes n2) then (Inr ref, n2)
                       else done (deliver_down n2 ref name ''noproc'')
                | Some peer_id \<Rightarrow>
                    done (send_remote n1 peer_id MONITOR_ACTOR
                            (monitor_request ref me (local_id n1) name) None None)))"

definition demonitor :: "node \<Rightarrow> string option \<Rightarrow> string \<Rightarrow> unit res \<times> node" where
  "demonitor n current_actor ref =
     (case monitor_me current_actor of
        Inl e \<Rightarrow> (Inl e, n)
      | Inr me \<Rightarrow>
          (case map_of (monitors n) ref of
             None \<Rightarrow> (Inr (), n)
           | Some (watcher_name, peer, name) \<Rightarrow>
               let n1 = n\<lparr>monitors := dict_del ref (monitors n)\<rparr>
               in case peer of
                    None \<Rightarrow> (Inr (), drop_watcher name ref n1)
                  | Some peer_id \<Rightarrow>
                      (Inr (), snd (send_remote n1 peer_id MONITOR_ACTOR (demonitor_request ref name) None None))))"

subsection \<open>The reserved actor\<close>

definition monitor_receive :: "node \<Rightarrow> pyval \<Rightarrow> unit res \<times> node" where
  "monitor_receive n msg =
     (case getitem msg ''op'' of
        Inl e \<Rightarrow> (Inl e, n)
      | Inr opv \<Rightarrow>
          if opv = PStr ''monitor'' then
            (case res_bind (str_item msg ''target'') (\<lambda>target. res_bind (str_item msg ''ref'') (\<lambda>ref.
                    res_bind (str_item msg ''watcher_node'') (\<lambda>wn. res_bind (str_item msg ''watcher'') (\<lambda>w.
                      Inr (target, ref, wn, w))))) of
               Inl e \<Rightarrow> (Inl e, n)
             | Inr (target, ref, wn, w) \<Rightarrow>
                 let n1 = add_watcher target ref (Some wn, w) n
                 in if has_key target (mailboxes n1) then (Inr (), n1)
                    else send_remote n1 wn MONITOR_ACTOR (noproc_request ref w target (local_id n1)) None None)
          else if opv = PStr ''demonitor'' then
            (case str_item msg ''target'' of
               Inl e \<Rightarrow> (Inl e, n)
             | Inr target \<Rightarrow>
                (case map_of (monitor_watchers n) target of
                   None \<Rightarrow> (Inr (), n)
                 | Some ws \<Rightarrow>
                    (case str_item msg ''ref'' of
                       Inl e \<Rightarrow> (Inl e, n)
                     | Inr ref \<Rightarrow> (Inr (), drop_watcher target ref n))))
          else if opv = PStr ''down'' then
            (case res_bind (str_item msg ''from_node'') (\<lambda>f. res_bind (str_item msg ''actor'') (\<lambda>a.
                    res_bind (str_item msg ''ref'') (\<lambda>ref. res_bind (str_item msg ''reason'') (\<lambda>reason.
                      Inr (f, a, ref, reason))))) of
               Inl e \<Rightarrow> (Inl e, n)
             | Inr (f, a, ref, reason) \<Rightarrow> deliver_down n ref (peer_label f a) reason)
          else (Inr (), n))"

definition notify_remote_down :: "node \<Rightarrow> string \<Rightarrow> string \<Rightarrow> string \<Rightarrow> string \<Rightarrow> node" where
  "notify_remote_down n peer_id ref actor_name reason =
     snd (send_remote n peer_id MONITOR_ACTOR (down_request ref actor_name reason (local_id n)) None None)"

subsection \<open>Requests arrive as they were made\<close>

lemma monitor_receive_request:
  "monitor_receive n (monitor_request ref w wn target) =
     (let n1 = add_watcher target ref (Some wn, w) n
      in if has_key target (mailboxes n1) then (Inr (), n1)
         else send_remote n1 wn MONITOR_ACTOR (noproc_request ref w target (local_id n1)) None None)"
  "monitor_receive n (down_request ref actor reason nid) = deliver_down n ref (peer_label nid actor) reason"
  "monitor_receive n (noproc_request ref w actor nid) = deliver_down n ref (peer_label nid actor) ''noproc''"
  "monitor_receive n (demonitor_request ref target) = (Inr (), drop_watcher target ref n)"
  by (simp_all add: monitor_receive_def monitor_request_def down_request_def noproc_request_def
      demonitor_request_def str_item_def drop_watcher_def split: option.split)

lemma watchers_frame [simp]:
  "node_wf (add_watcher name ref w n) = node_wf n" "node_wf (drop_watcher name ref n) = node_wf n"
  "mailboxes (add_watcher name ref w n) = mailboxes n" "local_id (add_watcher name ref w n) = local_id n"
  "monitors (add_watcher name ref w n) = monitors n" "queues (add_watcher name ref w n) = queues n"
  by (simp_all add: add_watcher_def drop_watcher_def split: option.split)

lemma node_wf_monitor [wf_intros]: "node_wf n \<Longrightarrow> node_wf (snd (monitor ref n me other))"
  by (auto simp: monitor_def Let_def case_prod_beta split: sum.split option.split
      intro!: node_wf_send_remote node_wf_deliver_down)

lemma node_wf_demonitor [wf_intros]: "node_wf n \<Longrightarrow> node_wf (snd (demonitor n me ref))"
  by (auto simp: demonitor_def Let_def split: sum.split option.split intro!: node_wf_send_remote)

lemma node_wf_monitor_receive [wf_intros]: "node_wf n \<Longrightarrow> node_wf (snd (monitor_receive n msg))"
  by (auto simp: monitor_receive_def Let_def split: sum.split option.split
      intro!: node_wf_send_remote node_wf_deliver_down)

subsection \<open>Properties of monitors\<close>

lemma send_local_other_fields:
  "monitors (snd (send_local n name m r k)) = monitors n"
  "mailboxes (snd (send_local n name m r k)) = mailboxes n"
  by (cases "map_of (mailboxes n) name";
      simp add: send_local_def enqueue_def event_frame split: option.split)+

text \<open>C30. A monitor fires at most once. The first \<^verbatim>\<open>Down\<close> for a reference appends one message with the
  reference, the actor and the reason to the watcher's mailbox and forgets the reference; every
  later signal for it, whatever its reason, changes nothing.\<close>

theorem down_delivered_once:
  assumes "map_of (monitors n) ref = Some (watcher, org, target)"
    and "map_of (mailboxes n) watcher = Some q" and "\<not> queue_full (queue_at n q)"
    and "deliver_down n ref label reason = (r, n')"
  shows "r = Inr ()
    \<and> items (queue_at n' q) = items (queue_at n q) @ [(Down_msg ref label reason, local_meta n None None)]
    \<and> deliver_down n' ref label2 reason2 = (Inr (), n')"
proof -
  let ?m = "n\<lparr>monitors := dict_del ref (monitors n)\<rparr>"
  have meta: "local_meta ?m None None = local_meta n None None" by (simp add: local_meta_def)
  have "queue_at ?m q = queue_at n q" by (simp add: queue_at_def)
  with assms(3) have "enqueue q (Down_msg ref label reason, local_meta n None None) ?m
      = Some (?m\<lparr>queues := dict_set q ((queue_at n q)\<lparr>items := items (queue_at n q)
          @ [(Down_msg ref label reason, local_meta n None None)]\<rparr>) (queues n)\<rparr>)"
    by (simp add: enqueue_Some)
  with assms meta have "r = Inr ()" "n' = ?m\<lparr>queues := dict_set q ((queue_at n q)\<lparr>items := items (queue_at n q)
          @ [(Down_msg ref label reason, local_meta n None None)]\<rparr>) (queues n)\<rparr>"
    by (auto simp: deliver_down_def send_local_def Let_def)
  then show ?thesis by (simp add: deliver_down_def queue_at_def)
qed

theorem down_delivered_once_witness:
  "deliver_down (snd (deliver_down ((demo_started ''a'')\<lparr>monitors := [(''r'', (''w'', None, ''v''))]\<rparr>) ''r'' ''v'' ''normal''))
     ''r'' ''v'' ''shutdown''
   = (Inr (), snd (deliver_down ((demo_started ''a'')\<lparr>monitors := [(''r'', (''w'', None, ''v''))]\<rparr>) ''r'' ''v'' ''normal''))"
proof -
  let ?n = "(demo_started ''a'')\<lparr>monitors := [(''r'', (''w'', None, ''v''))]\<rparr>"
  have "queue_at ?n 0 = new_queue 1" by (simp add: demo_started_def new_node_def queue_at_def get_or_def)
  then show ?thesis
    using down_delivered_once [of ?n "''r''" "''w''" None "''v''" 0 "''v''" "''normal''"
        "fst (deliver_down ?n ''r'' ''v'' ''normal'')" "snd (deliver_down ?n ''r'' ''v'' ''normal'')"]
    by (simp add: queue_full_def new_queue_def)
qed

lemma down_task_ref: "down_task a reason x = Deliver_down ref b c \<Longrightarrow> fst x = ref"
  by (cases "(a, reason, x)" rule: down_task.cases) auto

text \<open>A monitor on a local actor fires when the actor is gone for good: monitoring it records the
  watcher, and when the actor's watchers are cleared and notified, one scheduled task delivers a
  \<^verbatim>\<open>Down\<close> with that reference and reason. After \<^verbatim>\<open>demonitor\<close> no such task is scheduled.\<close>

lemma monitor_fires_unless_demonitored:
  assumes "has_key name (mailboxes n)" and "map_of (get_or [] (monitor_watchers n) name) ref = None"
    and "monitor ref n (Some me) (ActorRef name) = (r, n1)"
    and "demonitor n1 (Some me) ref = (r2, n2)"
    and "\<forall>b c. Deliver_down ref b c \<notin> set (tasks n)"
  shows "r = Inr ref \<and> map_of (monitors n1) ref = Some (me, None, name)
    \<and> Deliver_down ref name reason \<in> set (tasks (notify_monitors n1 name (fst (clear_monitors n1 name)) reason))
    \<and> map_of (monitors n2) ref = None
    \<and> Deliver_down ref name reason \<notin> set (tasks (notify_monitors n2 name (fst (clear_monitors n2 name)) reason))"
proof -
  let ?ws = "get_or [] (monitor_watchers n) name"
  let ?n1 = "add_watcher name ref (None, me) (n\<lparr>monitors := dict_set ref (me, None, name) (monitors n)\<rparr>)"
  have n1: "r = Inr ref" "n1 = ?n1"
    using assms(1,3) by (auto simp: monitor_def monitor_me_def Let_def split: if_splits)
  have w1: "fst (clear_monitors n1 name) = dict_set ref (None, me) ?ws"
    by (simp add: n1 clear_monitors_def add_watcher_def)
  have "map_of (dict_set ref (None, me) ?ws) ref = Some (None, me)" by simp
  then have "(ref, None, me) \<in> set (dict_set ref (None, me) ?ws)" by (rule map_of_SomeD)
  then have fires: "down_task name reason (ref, None, me)
      \<in> set (tasks (notify_monitors n1 name (fst (clear_monitors n1 name)) reason))"
    by (simp only: w1) (auto simp: notify_monitors_def create_tasks_def simp del: down_task.simps)
  have n2: "n2 = drop_watcher name ref (n1\<lparr>monitors := dict_del ref (monitors n1)\<rparr>)"
    using assms(4) by (auto simp: demonitor_def monitor_me_def n1 add_watcher_def Let_def)
  have w2: "fst (clear_monitors n2 name) = dict_del ref (dict_set ref (None, me) ?ws)"
    by (simp add: n2 n1 drop_watcher_def add_watcher_def clear_monitors_def)
  have t2: "tasks n2 = tasks n"
    by (simp add: n2 n1 drop_watcher_def add_watcher_def split: option.split)
  have "x \<notin> set (dict_del ref (dict_set ref (None, me) ?ws)) \<or> fst x \<noteq> ref" for x
    by (cases x) (auto simp: AList.delete_eq)
  then have "Deliver_down ref name reason \<notin> down_task name reason ` set (dict_del ref (dict_set ref (None, me) ?ws))"
    using down_task_ref [of name reason _ ref name reason] by fastforce
  then have "Deliver_down ref name reason \<notin> set (tasks (notify_monitors n2 name (fst (clear_monitors n2 name)) reason))"
    using assms(5) by (simp add: w2 t2 notify_monitors_def create_tasks_def)
  moreover have "map_of (monitors n2) ref = None"
    by (simp add: n2 drop_watcher_def split: option.split)
  ultimately show ?thesis using fires by (simp add: n1)
qed

lemma monitor_fires_unless_demonitored_witness:
  "fst (monitor ''r'' (demo_started ''a'') (Some ''me'') (ActorRef ''w'')) = Inr ''r''"
proof -
  let ?m = "monitor ''r'' (demo_started ''a'') (Some ''me'') (ActorRef ''w'')"
  let ?d = "demonitor (snd ?m) (Some ''me'') ''r''"
  have "monitor_watchers (demo_started ''a'') = []" "tasks (demo_started ''a'') = []"
    by (simp_all add: demo_started_def new_node_def)
  then show ?thesis
    using monitor_fires_unless_demonitored [of "demo_started ''a''" "''w''" "''r''" "''me''"
        "fst ?m" "snd ?m" "fst ?d" "snd ?d"] by simp
qed

end
