(* ===== verification/Node_Loop.thy ===== *)
theory Node_Loop
  imports Registry_Actor Monitors
begin

text \<open>
  The event loop of a node: the coroutines that other operations scheduled with
  \<^verbatim>\<open>asyncio.create_task\<close> or that the transport handed over with \<^verbatim>\<open>call_soon_threadsafe\<close>, each run to
  its end in the order of scheduling; and the relation of everything that can happen on a node.
\<close>

definition GROUPS_ACTOR :: string where
  "GROUPS_ACTOR = ''__lapinbeam_groups__''"

definition REGISTRY_ACTOR :: string where
  "REGISTRY_ACTOR = ''__lapinbeam_registry__''"

subsection \<open>Background tasks\<close>

text \<open>The senders of the cluster modules ignore the exceptions of their sends; an exception of any
  other task is logged by the loop.\<close>

definition send_group_snapshot :: "node \<Rightarrow> string \<Rightarrow> node" where
  "send_group_snapshot n peer_id =
     (if group_snapshot (groups n) = [] then n
      else snd (send_remote n peer_id GROUPS_ACTOR (group_snapshot_msg (groups n)) None None))"

definition send_registry_snapshot :: "node \<Rightarrow> string \<Rightarrow> node" where
  "send_registry_snapshot n peer_id =
     (if registry_snapshot (names n) = [] then n
      else snd (send_remote n peer_id REGISTRY_ACTOR (registry_snapshot_msg (names n)) None None))"

fun run_task :: "task \<Rightarrow> node \<Rightarrow> node" where
  "run_task (Deliver_exit label target reason) n = snd (deliver_exit n label target reason)"
| "run_task (Notify_remote_exit peer target actor reason) n = notify_remote_exit n peer target actor reason"
| "run_task (Deliver_down ref label reason) n = snd (deliver_down n ref label reason)"
| "run_task (Notify_remote_down peer ref actor reason) n = notify_remote_down n peer ref actor reason"
| "run_task (Send_group_delta peer g m verb) n =
     snd (send_remote n peer GROUPS_ACTOR (group_delta_msg g m verb) None None)"
| "run_task (Send_group_snapshot peer) n = send_group_snapshot n peer"
| "run_task (Send_registry_delta peer k p verb) n =
     snd (send_remote n peer REGISTRY_ACTOR (registry_delta_msg k p verb) None None)"
| "run_task (Send_registry_snapshot peer) n = send_registry_snapshot n peer"
| "run_task (Deliver_callback name q payload mt) n = snd (deliver_callback n name q payload mt)"

definition loop_step :: "node \<Rightarrow> node option" where
  "loop_step n = (case tasks n of [] \<Rightarrow> None | t # ts \<Rightarrow> Some (run_task t (n\<lparr>tasks := ts\<rparr>)))"

fun run_loop :: "nat \<Rightarrow> node \<Rightarrow> node" where
  "run_loop 0 n = n"
| "run_loop (Suc k) n = (case loop_step n of None \<Rightarrow> n | Some n' \<Rightarrow> run_loop k n')"

subsection \<open>Background tasks schedule nothing\<close>

lemma with_core_tasks [simp]: "tasks (snd (with_core n f)) = tasks n" "queues (snd (with_core n f)) = queues n"
  by (simp_all add: with_core_def split: option.split prod.split)

lemma send_remote_tasks [simp]:
  "tasks (snd (send_remote n p a m r k)) = tasks n" "queues (snd (send_remote n p a m r k)) = queues n"
  by (simp_all add: send_remote_def split: option.split sum.split)

lemma plain_event_tasks: "\<not> is_peer_event ev \<Longrightarrow> tasks (on_core_event ev n) = tasks n"
  by (simp add: on_core_event_plain)

lemma enqueue_tasks: "enqueue q m n = Some n' \<Longrightarrow> tasks n' = tasks n"
  by (auto simp: enqueue_Some)

lemma send_local_tasks [simp]: "tasks (snd (send_local n name m r k)) = tasks n"
  by (auto simp: send_local_def plain_event_tasks is_peer_event_def enqueue_tasks split: option.split)

lemma deliver_callback_tasks [simp]: "tasks (snd (deliver_callback n name q p mt)) = tasks n"
  by (auto simp: deliver_callback_def Let_def plain_event_tasks is_peer_event_def enqueue_tasks
      split: sum.split option.split)

lemma deliver_exit_tasks [simp]: "tasks (snd (deliver_exit n l t r)) = tasks n"
  by (simp add: deliver_exit_def split: option.split)

lemma deliver_down_tasks [simp]: "tasks (snd (deliver_down n ref l r)) = tasks n"
  by (simp add: deliver_down_def Let_def split: option.split)

lemma run_task_tasks: "tasks (run_task t n) = tasks n"
  by (cases t) (simp_all add: notify_remote_exit_def notify_remote_down_def send_group_snapshot_def
      send_registry_snapshot_def)

subsection \<open>The invariant with pending callbacks\<close>

text \<open>A callback that waits in the loop refers to a mailbox that exists: mailboxes are never freed.\<close>

fun callback_queue :: "task \<Rightarrow> nat option" where
  "callback_queue (Deliver_callback name q p mt) = Some q"
| "callback_queue _ = None"

definition callbacks :: "task list \<Rightarrow> nat set" where
  "callbacks ts = {q. \<exists>t \<in> set ts. callback_queue t = Some q}"

lemma callbacks_simps [simp]:
  "callbacks [] = {}" "callbacks (ts @ us) = callbacks ts \<union> callbacks us"
  "callbacks (t # ts) = (case callback_queue t of None \<Rightarrow> callbacks ts | Some q \<Rightarrow> insert q (callbacks ts))"
  by (auto simp: callbacks_def split: option.split)

lemma callbacks_none: "\<forall>t \<in> set ts. callback_queue t = None \<Longrightarrow> callbacks ts = {}"
  by (simp add: callbacks_def)

definition loop_wf :: "node \<Rightarrow> bool" where
  "loop_wf n \<longleftrightarrow> node_wf n \<and> callbacks (tasks n) \<subseteq> dom (map_of (queues n))"

text \<open>A step is calm when it frees no mailbox and schedules no callback.\<close>

definition calm :: "node \<Rightarrow> node \<Rightarrow> bool" where
  "calm n n' \<longleftrightarrow> dom (map_of (queues n)) \<subseteq> dom (map_of (queues n')) \<and> callbacks (tasks n') \<subseteq> callbacks (tasks n)"

lemma calm_refl [simp]: "calm n n"
  by (simp add: calm_def)

lemma calm_trans: "calm n n1 \<Longrightarrow> calm n1 n2 \<Longrightarrow> calm n n2"
  unfolding calm_def by blast

lemma calm_wf: "loop_wf n \<Longrightarrow> calm n n' \<Longrightarrow> node_wf n' \<Longrightarrow> loop_wf n'"
  unfolding calm_def loop_wf_def by blast

lemma calm_same: "queues n' = queues n \<Longrightarrow> tasks n' = tasks n \<Longrightarrow> calm n n'"
  by (simp add: calm_def)

lemma calm_schedule:
  "queues n' = queues n \<Longrightarrow> tasks n' = tasks n @ ts \<Longrightarrow> \<forall>t \<in> set ts. callback_queue t = None \<Longrightarrow> calm n n'"
  by (simp add: calm_def callbacks_none)

lemma calm_fold: "(\<And>x n. calm n (f x n)) \<Longrightarrow> calm n (fold f xs n)"
proof (induction xs arbitrary: n)
  case (Cons x xs)
  then show ?case using calm_trans [of n "f x n"] by simp
qed simp

lemma calm_group_broadcast: "calm n (group_broadcast n g m v)"
  by (rule calm_schedule [of _ _ "case group_peers n of None \<Rightarrow> [] | Some ps \<Rightarrow> map (\<lambda>p. Send_group_delta p g m v) ps"])
    (auto simp: group_broadcast_def create_tasks_def split: option.split)

lemma calm_registry_broadcast: "calm n (registry_broadcast n g m v)"
  by (rule calm_schedule [of _ _ "case registry_peers n of None \<Rightarrow> [] | Some ps \<Rightarrow> map (\<lambda>p. Send_registry_delta p g m v) ps"])
    (auto simp: registry_broadcast_def create_tasks_def split: option.split)

lemma calm_listener: "calm n (run_listener ev l n)"
proof (cases l)
  case (User_listener i)
  then show ?thesis by (simp add: calm_same)
next
  case Groups_listener
  then show ?thesis
    by (cases ev) (auto simp: groups_on_peer_event_def drop_peer_members_def create_task_def calm_def)
next
  case Registry_listener
  then show ?thesis
    by (cases ev) (auto simp: registry_on_peer_event_def drop_peer_names_def create_task_def calm_def)
next
  case Discovery_listener
  then show ?thesis by (cases ev) (auto simp: discovery_on_event_def calm_def)
qed

lemma callback_exits:
  "t \<in> set (link_exits p ls) \<Longrightarrow> callback_queue t = None" "t \<in> set (monitor_downs p ms) \<Longrightarrow> callback_queue t = None"
  by (auto simp: set_link_exits set_monitor_downs)

lemma calm_event: "calm n (on_core_event ev n)"
proof -
  have lost: "calm n (peer_lost p n)" for p
    by (rule calm_schedule [OF _ tasks_peer_lost]) (auto simp: event_frame callback_exits)
  have "calm n m \<Longrightarrow> calm n (fold (run_listener ev) ls m)" for m ls
    by (rule calm_trans [OF _ calm_fold]) (simp_all add: calm_listener)
  then show ?thesis using lost
    by (cases ev) (simp_all add: on_core_event_def Let_def wake_waiters_def calm_same)
qed

lemma calm_enqueue: "enqueue q m n = Some n' \<Longrightarrow> calm n n'"
  by (auto simp: enqueue_Some calm_def)

lemma calm_send_local: "calm n (snd (send_local n name m r k))"
  by (auto simp: send_local_def calm_event intro: calm_enqueue split: option.split)

lemma calm_send_remote: "calm n (snd (send_remote n p a m r k))"
  by (simp add: calm_same)

lemma calm_deliver_exit: "calm n (snd (deliver_exit n l t r))"
  by (simp add: deliver_exit_def calm_send_local calm_same split: option.split)

lemma calm_via: "calm n m \<Longrightarrow> queues m' = queues m \<Longrightarrow> tasks m' = tasks m \<Longrightarrow> calm n m'"
  by (simp add: calm_def)

lemma calm_from: "calm m n' \<Longrightarrow> queues m = queues n \<Longrightarrow> tasks m = tasks n \<Longrightarrow> calm n n'"
  by (simp add: calm_def)

lemma calm_deliver_down: "calm n (snd (deliver_down n ref l r))"
  by (auto simp: deliver_down_def Let_def calm_same split: option.split intro: calm_from [OF calm_send_local])

lemma calm_deliver_callback: "calm n (snd (deliver_callback n name q p mt))"
  by (auto simp: deliver_callback_def Let_def calm_event split: sum.split option.split
      intro: calm_enqueue calm_via [OF calm_event])

lemma calm_run_task: "calm n (run_task t n)"
  by (cases t) (simp_all add: calm_deliver_exit calm_deliver_down calm_deliver_callback calm_send_remote
      notify_remote_exit_def notify_remote_down_def send_group_snapshot_def send_registry_snapshot_def)

lemma wf_run_task:
  assumes "loop_wf (n\<lparr>tasks := t # ts\<rparr>)"
  shows "loop_wf (run_task t (n\<lparr>tasks := ts\<rparr>))"
proof -
  let ?n = "n\<lparr>tasks := ts\<rparr>"
  from assms have wf: "node_wf ?n" and keys: "callbacks (t # ts) \<subseteq> dom (map_of (queues n))"
    by (simp_all add: loop_wf_def node_wf_cong [of "n\<lparr>tasks := t # ts\<rparr>" ?n])
  have "node_wf (run_task t ?n)"
  proof (cases t)
    case (Deliver_callback name q p mt)
    with keys have "has_key q (queues ?n)" by auto
    with Deliver_callback wf show ?thesis by (simp add: node_wf_deliver_callback)
  qed (simp_all add: wf node_wf_deliver_exit node_wf_deliver_down node_wf_send_remote notify_remote_exit_def
      notify_remote_down_def send_group_snapshot_def send_registry_snapshot_def)
  moreover have "loop_wf ?n" using wf keys by (auto simp: loop_wf_def split: option.splits)
  ultimately show ?thesis using calm_wf calm_run_task by blast
qed

lemma loop_step_wf: "loop_wf n \<Longrightarrow> loop_step n = Some n' \<Longrightarrow> loop_wf n'"
proof -
  assume wf: "loop_wf n" and st: "loop_step n = Some n'"
  then obtain t ts where t: "tasks n = t # ts" and n': "n' = run_task t (n\<lparr>tasks := ts\<rparr>)"
    by (auto simp: loop_step_def split: list.splits)
  have "n\<lparr>tasks := t # ts\<rparr> = n" using t [symmetric] by simp
  with wf n' show ?thesis using wf_run_task [of t ts n] by simp
qed

lemma loop_step_tasks: "loop_step n = Some n' \<Longrightarrow> tasks n' = tl (tasks n)"
  by (auto simp: loop_step_def run_task_tasks split: list.splits)

subsection \<open>Exit signals in the loop\<close>

lemma send_local_children [simp]:
  "children (snd (send_local n name m r k)) = children n"
  "live_children (snd (send_local n name m r k)) = live_children n"
  "trap_exit_flags (snd (send_local n name m r k)) = trap_exit_flags n"
  by (auto simp: send_local_def enqueue_Some event_frame split: option.split)

lemma with_core_children [simp]:
  "children (snd (with_core n f)) = children n" "live_children (snd (with_core n f)) = live_children n"
  "trap_exit_flags (snd (with_core n f)) = trap_exit_flags n"
  by (simp_all add: with_core_def split: option.split prod.split)

lemma send_remote_children [simp]:
  "children (snd (send_remote n p a m r k)) = children n"
  "live_children (snd (send_remote n p a m r k)) = live_children n"
  "trap_exit_flags (snd (send_remote n p a m r k)) = trap_exit_flags n"
  by (simp_all add: send_remote_def split: option.split sum.split)

lemma deliver_callback_children [simp]:
  "children (snd (deliver_callback n name q p mt)) = children n"
  "live_children (snd (deliver_callback n name q p mt)) = live_children n"
  "trap_exit_flags (snd (deliver_callback n name q p mt)) = trap_exit_flags n"
  by (auto simp: deliver_callback_def Let_def event_frame enqueue_Some split: sum.split option.split)

lemma deliver_down_children [simp]:
  "children (snd (deliver_down n ref l r)) = children n"
  "live_children (snd (deliver_down n ref l r)) = live_children n"
  "trap_exit_flags (snd (deliver_down n ref l r)) = trap_exit_flags n"
  by (simp_all add: deliver_down_def Let_def split: option.split)

lemma deliver_exit_tables [simp]:
  "live_children (snd (deliver_exit n l t r)) = live_children n"
  "trap_exit_flags (snd (deliver_exit n l t r)) = trap_exit_flags n"
  by (simp_all add: deliver_exit_def split: option.split)

lemma run_task_tables:
  "live_children (run_task t n) = live_children n" "trap_exit_flags (run_task t n) = trap_exit_flags n"
  by (cases t; simp add: notify_remote_exit_def notify_remote_down_def send_group_snapshot_def
      send_registry_snapshot_def)+

text \<open>A child whose driver runs without trapping exits, and one that an exit signal has reached.\<close>

definition vulnerable :: "string \<Rightarrow> nat \<Rightarrow> node \<Rightarrow> bool" where
  "vulnerable name i n \<longleftrightarrow> \<not> get_or False (trap_exit_flags n) name \<and> map_of (live_children n) name = Some i
     \<and> (case map_of (children n) i of None \<Rightarrow> False | Some ch \<Rightarrow> driver_live ch)"

definition doomed :: "nat \<Rightarrow> node \<Rightarrow> bool" where
  "doomed i n \<longleftrightarrow> (case map_of (children n) i of None \<Rightarrow> False
     | Some ch \<Rightarrow> child_driver ch = Driver_cancelling \<and> child_pending_exit ch \<noteq> None)"

lemma deliver_exit_children:
  "map_of (children (snd (deliver_exit n l target r))) i =
     (if \<not> get_or False (trap_exit_flags n) target \<and> map_of (live_children n) target = Some i
      then map_option (kill_child (exit_error l r)) (map_of (children n) i) else map_of (children n) i)"
  by (auto simp: deliver_exit_def split: option.split)

lemma run_task_child:
  "map_of (children (run_task t n)) i = map_of (children n) i
   \<or> (\<exists>e. map_of (children (run_task t n)) i = map_option (kill_child e) (map_of (children n) i))"
  by (cases t) (auto simp: deliver_exit_children notify_remote_exit_def notify_remote_down_def
      send_group_snapshot_def send_registry_snapshot_def)

lemma kill_child_live: "driver_live ch \<Longrightarrow> driver_live (kill_child e ch)"
  "driver_live ch \<Longrightarrow> child_driver (kill_child e ch) = Driver_cancelling \<and> child_pending_exit (kill_child e ch) = Some e"
  by (simp_all add: kill_child_def driver_live_def)

lemma vulnerable_run_task: "vulnerable name i n \<Longrightarrow> vulnerable name i (run_task t n)"
  using run_task_child [of t n i]
  by (auto simp: vulnerable_def run_task_tables kill_child_live split: option.splits)

lemma doomed_run_task: "doomed i n \<Longrightarrow> doomed i (run_task t n)"
  using run_task_child [of t n i] kill_child_live(2)
  by (auto simp: doomed_def driver_live_def split: option.splits)

lemma doomed_by_exit: "vulnerable name i n \<Longrightarrow> doomed i (run_task (Deliver_exit l name r) n)"
  by (auto simp: vulnerable_def doomed_def deliver_exit_children kill_child_live(2) split: option.splits)

lemma doom_tasks_update [simp]:
  "vulnerable name i (n\<lparr>tasks := ts\<rparr>) = vulnerable name i n" "doomed i (n\<lparr>tasks := ts\<rparr>) = doomed i n"
  by (simp_all add: vulnerable_def doomed_def)

lemma run_loop_doomed: "doomed i n \<Longrightarrow> doomed i (run_loop k n)"
  by (induction k n rule: run_loop.induct)
    (auto simp: loop_step_def doomed_run_task split: list.splits option.splits)

lemma run_loop_exit:
  "vulnerable name i n \<Longrightarrow> Deliver_exit l name r \<in> set (take k (tasks n)) \<Longrightarrow> doomed i (run_loop k n)"
proof (induction k arbitrary: n)
  case 0
  then show ?case by simp
next
  case (Suc k)
  then obtain t ts where t: "tasks n = t # ts" by (cases "tasks n") auto
  let ?n = "run_task t (n\<lparr>tasks := ts\<rparr>)"
  have st: "run_loop (Suc k) n = run_loop k ?n" "tasks ?n = ts"
    by (simp_all add: loop_step_def t run_task_tasks)
  show ?case
  proof (cases "t = Deliver_exit l name r")
    case True
    then have "doomed i ?n" using Suc.prems(1) doomed_by_exit by simp
    then show ?thesis by (simp only: st run_loop_doomed)
  next
    case False
    with Suc.prems t st have "Deliver_exit l name r \<in> set (take k (tasks ?n))" by simp
    then show ?thesis unfolding st(1)
      using Suc.IH Suc.prems(1) vulnerable_run_task by simp
  qed
qed

subsection \<open>Properties of the loop\<close>

text \<open>The loop always drains. A task never schedules another one, so after exactly as many steps as
  there are scheduled tasks the queue of the loop is empty, and not before; the invariant of the
  node holds then too.\<close>

lemma loop_drains:
  assumes "loop_wf n"
  shows "tasks (run_loop (length (tasks n)) n) = [] \<and> loop_wf (run_loop (length (tasks n)) n)
    \<and> (\<forall>k. length (tasks (run_loop k n)) = length (tasks n) - k)"
proof -
  have "length (tasks (run_loop k n)) = length (tasks n) - k \<and> loop_wf (run_loop k n)" for k
    using assms
  proof (induction k arbitrary: n)
    case (Suc k)
    show ?case
    proof (cases "loop_step n")
      case None
      with Suc.prems show ?thesis by (auto simp: loop_step_def split: list.splits)
    next
      case (Some n')
      with Suc.IH [OF loop_step_wf [OF Suc.prems Some]] show ?thesis by (simp add: loop_step_tasks)
    qed
  qed simp
  note run = this
  have "length (tasks (run_loop (length (tasks n)) n)) = 0" by (simp only: run diff_self_eq_0)
  then have "tasks (run_loop (length (tasks n)) n) = []" by (simp only: length_0_conv)
  with run show ?thesis by blast
qed

lemma loop_drains_witness:
  "let n = (demo_started ''a'')\<lparr>tasks := [Deliver_exit ''v'' ''w'' ''noproc'']\<rparr>
   in tasks (run_loop (length (tasks n)) n) = [] \<and> loop_wf (run_loop (length (tasks n)) n)"
proof -
  let ?n = "(demo_started ''a'')\<lparr>tasks := [Deliver_exit ''v'' ''w'' ''noproc'']\<rparr>"
  have "node_wf ?n" using demo_started_wf [of "''a''"] by (simp add: node_wf_cong [of ?n "demo_started ''a''"])
  then have "loop_wf ?n" by (simp add: loop_wf_def)
  from loop_drains [OF this] show ?thesis unfolding Let_def by blast
qed

text \<open>C20. Losing a node reaches every actor that was linked to it. When a peer drops off, then after the
  loop has run the tasks that are scheduled by then, every live local actor that was linked to an
  actor of that peer and does not trap exits has been cancelled with an exit error.\<close>

theorem peer_loss_reaches_linked:
  assumes "(name, Some p, a) \<in> link_entries (links n)" and "vulnerable name i n"
  shows "let n' = on_core_event (Ev_peer_disconnected p) n
    in doomed i (run_loop (length (tasks n')) n')"
proof -
  define n' where "n' = on_core_event (Ev_peer_disconnected p) n"
  have "tasks n' = tasks n @ link_exits p (links n) @ monitor_downs p (monitors n)"
    by (simp add: n'_def on_core_event_def event_frame disconnect_listeners_tasks tasks_peer_lost)
  with assms(1) have "Deliver_exit (peer_label p a) name ''noconnection'' \<in> set (take (length (tasks n')) (tasks n'))"
    by (auto simp: set_link_exits)
  moreover have "vulnerable name i n'" using assms(2) by (simp add: n'_def vulnerable_def event_frame)
  ultimately show ?thesis using run_loop_exit by (simp flip: n'_def)
qed

theorem peer_loss_reaches_linked_witness:
  "let n = (demo_started ''a'')\<lparr>links := [(''w'', [(Some ''b@h:2'', ''v'')])],
             live_children := [(''w'', 5)], children := [(5, demo_child)]\<rparr>;
       n' = on_core_event (Ev_peer_disconnected ''b@h:2'') n
   in doomed 5 (run_loop (length (tasks n')) n')"
proof -
  let ?n = "(demo_started ''a'')\<lparr>links := [(''w'', [(Some ''b@h:2'', ''v'')])],
             live_children := [(''w'', 5)], children := [(5, demo_child)]\<rparr>"
  have "(''w'', Some ''b@h:2'', ''v'') \<in> link_entries (links ?n)" by (simp add: link_entries_def)
  moreover have "vulnerable ''w'' 5 ?n"
    by (simp add: vulnerable_def demo_child_def driver_live_def demo_started_def new_node_def get_or_def)
  ultimately show ?thesis using peer_loss_reaches_linked [of "''w''" "''b@h:2''" "''v''" ?n 5]
    by (simp only: Let_def)
qed

end
