(* ===== verification/Restart_Budget.thy ===== *)
theory Restart_Budget
  imports Complex_Main Prelude
begin

text \<open>
  The restart budget of a supervisor (\<^verbatim>\<open>Supervisor._allow_restart\<close> and \<^verbatim>\<open>Supervisor._backoff\<close> in
  \<^verbatim>\<open>src/lapinbeam/supervisor.py\<close>): at most \<open>max_restarts\<close> restarts within any window of
  \<open>restart_window\<close> seconds, and a delay before each that doubles up to one second. Seconds are
  rationals instead of floats, and the reading of the monotonic clock is an argument.
\<close>

record budget =
  max_restarts :: int
  restart_window :: rat
  restart_times :: "rat list"

definition allow_restart :: "rat \<Rightarrow> budget \<Rightarrow> bool \<times> budget" where
  "allow_restart now b =
     (let times = filter (\<lambda>t. now - t < restart_window b) (restart_times b);
          b' = b\<lparr>restart_times := times\<rparr>
      in if max_restarts b \<le> int (length times) then (False, b')
         else (True, b'\<lparr>restart_times := times @ [now]\<rparr>))"

definition backoff :: "budget \<Rightarrow> rat" where
  "backoff b = min (2 ^ length (restart_times b) * (1 / 20)) 1"

text \<open>The crashes of a supervisor's life, in the order of the clock: which were answered by a restart.\<close>

fun grants :: "budget \<Rightarrow> rat list \<Rightarrow> rat list" where
  "grants b [] = []"
| "grants b (now # ts) =
     (case allow_restart now b of (ok, b') \<Rightarrow> (if ok then [now] else []) @ grants b' ts)"

subsection \<open>The sliding window\<close>

definition in_window :: "rat \<Rightarrow> rat \<Rightarrow> rat list \<Rightarrow> nat" where
  "in_window w t gs = length (filter (\<lambda>g. t - w < g \<and> g \<le> t) gs)"

text \<open>\<open>tracks b t gs\<close>: the remembered times are the grants that can still matter from time \<open>t\<close> on.\<close>

definition tracks :: "budget \<Rightarrow> rat \<Rightarrow> rat list \<Rightarrow> bool" where
  "tracks b t gs \<longleftrightarrow>
     (\<forall>now \<ge> t. filter (\<lambda>g. now - g < restart_window b) (restart_times b)
              = filter (\<lambda>g. now - g < restart_window b) gs)"

lemma allow_restart_fields [simp]:
  "restart_window (snd (allow_restart now b)) = restart_window b"
  "max_restarts (snd (allow_restart now b)) = max_restarts b"
  by (simp_all add: allow_restart_def Let_def)

lemma allow_restart_tracks:
  assumes "tracks b t gs" and "t \<le> now" and "allow_restart now b = (ok, b')"
  shows "tracks b' now (gs @ (if ok then [now] else []))"
    and "ok \<longleftrightarrow> int (length (filter (\<lambda>g. now - g < restart_window b) gs)) < max_restarts b"
proof -
  have same: "filter (\<lambda>g. now - g < restart_window b) (restart_times b)
      = filter (\<lambda>g. now - g < restart_window b) gs"
    using assms(1,2) by (simp add: tracks_def)
  show "ok \<longleftrightarrow> int (length (filter (\<lambda>g. now - g < restart_window b) gs)) < max_restarts b"
    using assms(3) same by (auto simp: allow_restart_def Let_def split: if_splits)
  have later: "filter (\<lambda>g. x - g < restart_window b) (filter (\<lambda>g. now - g < restart_window b) gs)
      = filter (\<lambda>g. x - g < restart_window b) gs" if "now \<le> x" for x
    using that by (auto intro!: filter_cong)
  show "tracks b' now (gs @ (if ok then [now] else []))"
    using assms(3) later by (auto simp: tracks_def allow_restart_def Let_def same split: if_splits)
qed

lemma within_snoc:
  assumes "\<forall>t. int (in_window w t gs) \<le> m" and "int (length (filter (\<lambda>g. x - g < w) gs)) < m"
  shows "int (in_window w t (gs @ [x])) \<le> m"
proof (cases "t - w < x \<and> x \<le> t")
  case True
  have "filter (\<lambda>g. t - w < g \<and> g \<le> t) gs = filter (\<lambda>g. t - w < g \<and> g \<le> t) (filter (\<lambda>g. x - g < w) gs)"
    using True by (auto intro!: filter_cong)
  then have "in_window w t gs \<le> length (filter (\<lambda>g. x - g < w) gs)"
    using length_filter_le [of "\<lambda>g. t - w < g \<and> g \<le> t" "filter (\<lambda>g. x - g < w) gs"]
    by (simp add: in_window_def)
  with True assms(2) show ?thesis by (simp add: in_window_def)
next
  case False
  then have "in_window w t (gs @ [x]) = in_window w t gs" by (simp add: in_window_def)
  with assms(1) show ?thesis by simp
qed

lemma grants_within:
  assumes "tracks b t gs" and "sorted (t # ts)"
    and "\<forall>s. int (in_window (restart_window b) s gs) \<le> max_restarts b"
  shows "\<forall>s. int (in_window (restart_window b) s (gs @ grants b ts)) \<le> max_restarts b"
  using assms
proof (induction ts arbitrary: b t gs)
  case (Cons now ts)
  obtain ok b' where ok: "allow_restart now b = (ok, b')" by (cases "allow_restart now b")
  have fields: "restart_window b' = restart_window b" "max_restarts b' = max_restarts b"
    using ok allow_restart_fields [of now b] by simp_all
  note step = allow_restart_tracks [OF Cons.prems(1) _ ok]
  have le: "t \<le> now" and sorted: "sorted (now # ts)" using Cons.prems(2) by auto
  have "\<forall>s. int (in_window (restart_window b) s (gs @ (if ok then [now] else []))) \<le> max_restarts b"
    using step(2) [OF le] Cons.prems(3) within_snoc [OF Cons.prems(3)] by (cases ok) simp_all
  from Cons.IH [OF step(1) [OF le] sorted] this fields ok show ?case by simp
qed simp

subsection \<open>Properties of the budget\<close>

text \<open>C4. The restart intensity is bounded: however the crashes fall, no window as long as
  \<^verbatim>\<open>restart_window\<close> contains more than \<^verbatim>\<open>max_restarts\<close> of the restarts a supervisor performs.\<close>

theorem restart_intensity_bounded:
  assumes "sorted ts" and "restart_times b = []" and "0 \<le> max_restarts b"
  shows "int (in_window (restart_window b) t (grants b ts)) \<le> max_restarts b"
proof (cases ts)
  case Nil
  with assms show ?thesis by (simp add: in_window_def)
next
  case (Cons now us)
  have "tracks b now []" using assms(2) by (simp add: tracks_def)
  moreover have "sorted (now # ts)" using assms(1) Cons by simp
  ultimately have "\<forall>s. int (in_window (restart_window b) s ([] @ grants b ts)) \<le> max_restarts b"
    using grants_within [of b now "[]" ts] assms(3) by (simp add: in_window_def)
  then show ?thesis by simp
qed

theorem restart_intensity_bounded_witness:
  "int (in_window 5 4 (grants \<lparr>max_restarts = 2, restart_window = 5, restart_times = []\<rparr> [1, 2, 3, 7, 8])) \<le> 2"
  using restart_intensity_bounded [of "[1, 2, 3, 7, 8]" "\<lparr>max_restarts = 2, restart_window = 5, restart_times = []\<rparr>" 4]
  by simp

text \<open>A supervisor gives up only when it must: with the clock running forward, a crash is answered by
  a restart exactly when fewer than \<^verbatim>\<open>max_restarts\<close> restarts happened less than \<^verbatim>\<open>restart_window\<close> ago. The
  delay before the restart then lies between a tenth of a second and one second.\<close>

lemma restart_decision:
  assumes "tracks b t gs" and "t \<le> now" and "allow_restart now b = (ok, b')"
  shows "(ok \<longleftrightarrow> int (length (filter (\<lambda>g. now - g < restart_window b) gs)) < max_restarts b)
    \<and> tracks b' now (gs @ (if ok then [now] else []))
    \<and> (ok \<longrightarrow> 1 / 10 \<le> backoff b' \<and> backoff b' \<le> 1)"
proof -
  have "1 / 10 \<le> backoff b' \<and> backoff b' \<le> 1" if "ok"
  proof -
    have "restart_times b' = filter (\<lambda>t. now - t < restart_window b) (restart_times b) @ [now]"
      using assms(3) that by (auto simp: allow_restart_def Let_def split: if_splits)
    then obtain k where k: "length (restart_times b') = Suc k" by simp
    have "(1 :: rat) \<le> 2 ^ k" by simp
    then show ?thesis by (simp add: backoff_def k)
  qed
  with allow_restart_tracks [OF assms] show ?thesis by blast
qed

end
