(* ===== verification/Supervisor.thy ===== *)
theory Supervisor
  imports Restart_Budget Monitors
begin

text \<open>
  Supervision of actors (\<^verbatim>\<open>src/lapinbeam/supervisor.py\<close>). Every child is run by a task of its own,
  \<^verbatim>\<open>_run_actor_child\<close>, which suspends at a few points only; the phase of a child says where its
  task is suspended, and each function below is the code from one suspension point to the next.

    \<^item> \<open>New\<close>: the task has not had its first turn;
    \<^item> \<open>Driving\<close>: it awaits the driver, the task that feeds messages to the actor;
    \<^item> \<open>Backing_off\<close>: it sleeps before a restart;
    \<^item> \<open>Tearing_down\<close>: it awaits the end of the first listed sibling, in a group restart;
    \<^item> \<open>Giving_up\<close>: it awaits the end of all siblings after the budget was exceeded;
    \<^item> \<open>Done\<close>: it has ended.

  A call of \<^verbatim>\<open>cancel\<close> on a task is recorded in \<open>cancels\<close> and takes effect when the task is resumed.
  The supervisor of the actors of one node is modelled here; supervision trees are in \<^verbatim>\<open>Nested\<close>.
\<close>

datatype strategy = One_for_one | One_for_all | Rest_for_one

definition strategy_of :: "string \<Rightarrow> strategy res" where
  "strategy_of s =
     (if s = ''one_for_one'' then Inr One_for_one
      else if s = ''one_for_all'' then Inr One_for_all
      else if s = ''rest_for_one'' then Inr Rest_for_one
      else Inl (ValueError (''unsupported strategy: '' @ py_repr s)))"

datatype outcome = Cancelled | Raised exn

datatype phase =
    New
  | Driving
  | Backing_off
  | Tearing_down "nat list" "nat list"
  | Giving_up exn "target list" "(string, target) dict"
  | Done outcome

record sup =
  sup_strategy :: strategy
  sup_budget :: budget
  sup_children :: "nat list"
  give_up_exc :: "exn option"
  given_up :: bool
  phases :: "(nat, phase) dict"
  cancels :: "nat list"

type_synonym sys = "node \<times> sup"

definition new_supervisor :: "string \<Rightarrow> int \<Rightarrow> rat \<Rightarrow> sup res" where
  "new_supervisor strategy_name restarts window =
     res_bind (strategy_of strategy_name) (\<lambda>st. Inr
       \<lparr>sup_strategy = st,
        sup_budget = \<lparr>max_restarts = restarts, restart_window = window, restart_times = []\<rparr>,
        sup_children = [], give_up_exc = None, given_up = False, phases = [], cancels = []\<rparr>)"

subsection \<open>Access to children\<close>

definition no_child :: child where
  "no_child = \<lparr>child_name = [], child_mailbox = 0, child_driver = Driver_none, child_pending_exit = None\<rparr>"

definition child_at :: "node \<Rightarrow> nat \<Rightarrow> child" where
  "child_at n i = get_or no_child (children n) i"

definition update_child :: "nat \<Rightarrow> (child \<Rightarrow> child) \<Rightarrow> node \<Rightarrow> node" where
  "update_child i f n = n\<lparr>children := dict_set i (f (child_at n i)) (children n)\<rparr>"

definition set_phase :: "nat \<Rightarrow> phase \<Rightarrow> sup \<Rightarrow> sup" where
  "set_phase i p s = s\<lparr>phases := dict_set i p (phases s)\<rparr>"

fun is_done :: "phase option \<Rightarrow> bool" where
  "is_done (Some (Done r)) = True"
| "is_done None = True"
| "is_done _ = False"

text \<open>The done callback of a task drops it from the node's set of tasks.\<close>

definition finish :: "nat \<Rightarrow> outcome \<Rightarrow> sys \<Rightarrow> sys" where
  "finish i r = (\<lambda>(n, s). (n\<lparr>actor_tasks := set_discard i (actor_tasks n)\<rparr>, set_phase i (Done r) s))"

definition ask_cancel :: "nat \<Rightarrow> sup \<Rightarrow> sup" where
  "ask_cancel i s = (if is_done (map_of (phases s) i) then s else s\<lparr>cancels := set_add i (cancels s)\<rparr>)"

subsection \<open>Spawning\<close>

definition spawn :: "string \<Rightarrow> sys \<Rightarrow> nat res \<times> sys" where
  "spawn name = (\<lambda>(n, s).
     case new_mailbox (case mailbox_capacity n of None \<Rightarrow> 0 | Some c \<Rightarrow> c) n of (q, n1) \<Rightarrow>
       (case register_actor n1 name q of
          (Inl e, n2) \<Rightarrow> (Inl e, (n2, s))
        | (Inr _, n2) \<Rightarrow>
            let i = next_id n2
            in (Inr i,
                (n2\<lparr>next_id := i + 1,
                    children := dict_set i \<lparr>child_name = name, child_mailbox = q,
                      child_driver = Driver_none, child_pending_exit = None\<rparr> (children n2),
                    actor_tasks := set_add i (actor_tasks n2)\<rparr>,
                 set_phase i New (s\<lparr>sup_children := sup_children s @ [i]\<rparr>)))))"

subsection \<open>The end of a generation\<close>

definition end_generation :: "node \<Rightarrow> string \<Rightarrow> target list \<times> (string, target) dict \<times> node" where
  "end_generation n name =
     (let n1 = snd (unregister_actor n name);
          n2 = n1\<lparr>live_children := dict_del name (live_children n1)\<rparr>
      in case clear_links n2 name of (linked, n3) \<Rightarrow>
         (case clear_monitors n3 name of (monitored, n4) \<Rightarrow>
            (linked, monitored, clear_registry (clear_groups n4 name) name)))"

definition notify_all :: "node \<Rightarrow> string \<Rightarrow> target list \<Rightarrow> (string, target) dict \<Rightarrow> string \<Rightarrow> node" where
  "notify_all n name linked monitored reason =
     notify_monitors (notify_links n name linked reason) name monitored reason"

subsection \<open>Crashes\<close>

definition discard_child :: "nat \<Rightarrow> sup \<Rightarrow> sup" where
  "discard_child i s = s\<lparr>sup_children := remove1 i (sup_children s)\<rparr>"

definition shutdown_except :: "nat option \<Rightarrow> sup \<Rightarrow> sup" where
  "shutdown_except exclude s = fold ask_cancel (filter (\<lambda>c. Some c \<noteq> exclude) (sup_children s)) s"

definition shutdown :: "sup \<Rightarrow> sup" where
  "shutdown s = shutdown_except None s"

text \<open>The end of a child for good, after \<^verbatim>\<open>_handle_child_crash\<close> said no.\<close>

definition raise_for_good :: "nat \<Rightarrow> exn \<Rightarrow> target list \<Rightarrow> (string, target) dict \<Rightarrow> sys \<Rightarrow> sys" where
  "raise_for_good i exc linked monitored = (\<lambda>(n, s).
     finish i (Raised exc) (notify_all n (child_name (child_at n i)) linked monitored (describe exc), s))"

text \<open>\<^verbatim>\<open>_handle_child_crash\<close> up to its first suspension, and what its caller does with a refusal.\<close>

definition child_crashed ::
  "rat \<Rightarrow> nat \<Rightarrow> exn \<Rightarrow> target list \<Rightarrow> (string, target) dict \<Rightarrow> sys \<Rightarrow> sys" where
  "child_crashed now i exc linked monitored = (\<lambda>(n, s).
     case allow_restart now (sup_budget s) of (ok, b) \<Rightarrow>
       let s1 = s\<lparr>sup_budget := b\<rparr>
       in if ok then (n, set_phase i Backing_off s1)
          else let n1 = on_core_event (Ev_supervisor_gave_up (child_name (child_at n i)) (describe exc)) n
               in if sup_strategy s = One_for_one
                  then let s2 = discard_child i s1;
                           s3 = (if sup_children s2 = []
                                 then s2\<lparr>give_up_exc := Some exc, given_up := True\<rparr> else s2)
                       in raise_for_good i exc linked monitored (n1, s3)
                  else if filter (\<lambda>c. c \<noteq> i) (sup_children s1) = []
                  then raise_for_good i exc linked monitored
                         (n1, s1\<lparr>give_up_exc := Some exc, given_up := True\<rparr>)
                  else (n1, set_phase i (Giving_up exc linked monitored) (shutdown_except (Some i) s1)))"

definition generation_failed :: "rat \<Rightarrow> nat \<Rightarrow> exn \<Rightarrow> sys \<Rightarrow> sys" where
  "generation_failed now i exc = (\<lambda>(n, s).
     case end_generation n (child_name (child_at n i)) of (linked, monitored, n1) \<Rightarrow>
       child_crashed now i exc linked monitored (n1, s))"

text \<open>The top of the loop: construct the actor, register its mailbox again and start a driver. The
  constructor is the application's code; \<open>init\<close> says whether it raises.\<close>

definition begin_generation :: "rat \<Rightarrow> unit res \<Rightarrow> nat \<Rightarrow> sys \<Rightarrow> sys" where
  "begin_generation now init i = (\<lambda>(n, s).
     case init of
       Inl e \<Rightarrow> generation_failed now i e (n, s)
     | Inr _ \<Rightarrow>
        (case register_actor n (child_name (child_at n i)) (child_mailbox (child_at n i)) of
           (Inl e, n1) \<Rightarrow> generation_failed now i e (n1, s)
         | (Inr _, n1) \<Rightarrow>
             (update_child i (\<lambda>c. c\<lparr>child_driver := Driver_running\<rparr>)
                (n1\<lparr>live_children := dict_set (child_name (child_at n i)) i (live_children n1)\<rparr>),
              set_phase i Driving s)))"

text \<open>The driver ended with an exception of the actor.\<close>

definition driver_failed :: "rat \<Rightarrow> nat \<Rightarrow> exn \<Rightarrow> sys \<Rightarrow> sys" where
  "driver_failed now i exc = (\<lambda>(n, s).
     generation_failed now i exc (update_child i (\<lambda>c. c\<lparr>child_driver := Driver_done\<rparr>) n, s))"

text \<open>The driver was cancelled: by an exit signal, which left its error in \<^verbatim>\<open>pending_exit\<close>, or because
  the task that awaits it was cancelled.\<close>

definition driver_cancelled :: "rat \<Rightarrow> nat \<Rightarrow> sys \<Rightarrow> sys" where
  "driver_cancelled now i = (\<lambda>(n, s).
     let n0 = update_child i (\<lambda>c. c\<lparr>child_driver := Driver_done, child_pending_exit := None\<rparr>) n;
         name = child_name (child_at n i)
     in case end_generation n0 name of (linked, monitored, n1) \<Rightarrow>
          (case child_pending_exit (child_at n i) of
             Some exc \<Rightarrow> child_crashed now i exc linked monitored (n1, s)
           | None \<Rightarrow> finish i Cancelled (notify_all n1 name linked monitored ''shutdown'', s)))"

subsection \<open>Cancellation\<close>

definition cancel_lands :: "rat \<Rightarrow> nat \<Rightarrow> sys \<Rightarrow> sys" where
  "cancel_lands now i = (\<lambda>(n, s).
     let s0 = s\<lparr>cancels := set_discard i (cancels s)\<rparr>
     in case map_of (phases s) i of
          Some New \<Rightarrow> finish i Cancelled (n, s0)
        | Some Driving \<Rightarrow> driver_cancelled now i (n, s0)
        | Some Backing_off \<Rightarrow> finish i Cancelled (n, s0)
        | Some (Tearing_down (c # cs) sibs) \<Rightarrow> (n, ask_cancel c s0)
        | Some (Giving_up exc l m) \<Rightarrow> finish i Cancelled (n, s0)
        | _ \<Rightarrow> (n, s0))"

subsection \<open>Restarts\<close>

text \<open>None is the ValueError of \<^verbatim>\<open>list.index\<close> for a child that is no longer listed.\<close>

definition affected_children :: "sup \<Rightarrow> nat \<Rightarrow> nat list option" where
  "affected_children s i =
     (case sup_strategy s of
        One_for_one \<Rightarrow> Some [i]
      | One_for_all \<Rightarrow> Some (sup_children s)
      | Rest_for_one \<Rightarrow> if i \<in> set (sup_children s) then Some (dropWhile (\<lambda>c. c \<noteq> i) (sup_children s))
                        else None)"

definition respawn_child :: "nat \<Rightarrow> sys \<Rightarrow> sys" where
  "respawn_child c = (\<lambda>(n, s).
     (update_child c (\<lambda>ch. ch\<lparr>child_driver := Driver_none\<rparr>)
        (n\<lparr>actor_tasks := set_add c (actor_tasks n)\<rparr>), set_phase c New s))"

fun teardown_siblings :: "rat \<Rightarrow> unit res \<Rightarrow> nat \<Rightarrow> nat list \<Rightarrow> nat list \<Rightarrow> sys \<Rightarrow> sys" where
  "teardown_siblings now init i [] sibs (n, s) =
     begin_generation now init i (fold respawn_child sibs (n, s))"
| "teardown_siblings now init i (c # cs) sibs (n, s) =
     (if is_done (map_of (phases s) c) then teardown_siblings now init i cs sibs (n, s)
      else (n, set_phase i (Tearing_down (c # cs) sibs) (ask_cancel c s)))"

definition backoff_over :: "rat \<Rightarrow> unit res \<Rightarrow> nat \<Rightarrow> sys \<Rightarrow> sys" where
  "backoff_over now init i = (\<lambda>(n, s).
     case affected_children s i of
       None \<Rightarrow> finish i (Raised (ValueError ''x not in list'')) (n, s)
     | Some cs \<Rightarrow>
         let sibs = filter (\<lambda>c. c \<noteq> i) cs in teardown_siblings now init i sibs sibs (n, s))"

definition teardown_over :: "rat \<Rightarrow> unit res \<Rightarrow> nat \<Rightarrow> sys \<Rightarrow> sys" where
  "teardown_over now init i = (\<lambda>(n, s).
     case map_of (phases s) i of
       Some (Tearing_down (c # cs) sibs) \<Rightarrow>
         if is_done (map_of (phases s) c) then teardown_siblings now init i cs sibs (n, s) else (n, s)
     | _ \<Rightarrow> (n, s))"

definition giving_up_over :: "nat \<Rightarrow> sys \<Rightarrow> sys" where
  "giving_up_over i = (\<lambda>(n, s).
     case map_of (phases s) i of
       Some (Giving_up exc linked monitored) \<Rightarrow>
         if \<forall>c \<in> set (sup_children s). c = i \<or> is_done (map_of (phases s) c)
         then raise_for_good i exc linked monitored (n, s\<lparr>give_up_exc := Some exc, given_up := True\<rparr>)
         else (n, s)
     | _ \<Rightarrow> (n, s))"

subsection \<open>Stopping the node\<close>

text \<open>\<^verbatim>\<open>Node.stop\<close>: every actor task of the node is cancelled; when all have ended, the rest follows. The
  second definition is the code after the wait.\<close>

definition stop_begin :: "sys \<Rightarrow> sys" where
  "stop_begin = (\<lambda>(n, s). (n, fold ask_cancel (actor_tasks n) s))"

definition stop_over :: "nat list \<Rightarrow> sys \<Rightarrow> sys" where
  "stop_over waited = (\<lambda>(n, s).
     if \<forall>i \<in> set waited. is_done (map_of (phases s) i) then (stop_rest n, s) else (n, s))"

text \<open>\<^verbatim>\<open>wait_until_stopped\<close> returns at once on a node that was never started.\<close>

definition wait_returns :: "node \<Rightarrow> bool" where
  "wait_returns n = (case stopped n of None \<Rightarrow> True | Some done \<Rightarrow> done)"

end
