(* ===== verification/Supervisor_Laws.thy ===== *)
theory Supervisor_Laws
  imports Supervisor
begin

text \<open>
  What supervision guarantees: a generation that ends leaves no trace in the tables of the node, a
  restart keeps the pending mail, a child that is given up does not disturb its siblings, and
  under any interleaving of steps every running actor is reachable under its own name. Two
  theorems show where the guarantees stop.
\<close>

subsection \<open>What the end of a generation leaves alone\<close>

lemma leave_on_exit_frame [simp]:
  "mailboxes (leave_on_exit t g n) = mailboxes n" "queues (leave_on_exit t g n) = queues n"
  "children (leave_on_exit t g n) = children n" "live_children (leave_on_exit t g n) = live_children n"
  "links (leave_on_exit t g n) = links n" "monitor_watchers (leave_on_exit t g n) = monitor_watchers n"
  "trap_exit_flags (leave_on_exit t g n) = trap_exit_flags n" "core (leave_on_exit t g n) = core n"
  "names (leave_on_exit t g n) = names n" "next_id (leave_on_exit t g n) = next_id n"
  "event_listeners (leave_on_exit t g n) = event_listeners n" "event_log (leave_on_exit t g n) = event_log n"
  "actor_tasks (leave_on_exit t g n) = actor_tasks n" "local_id (leave_on_exit t g n) = local_id n"
  "started (leave_on_exit t g n) = started n"
  by (simp_all add: leave_on_exit_def Let_def group_broadcast_def create_tasks_def split: option.split)

lemma release_on_exit_frame [simp]:
  "mailboxes (release_on_exit a k n) = mailboxes n" "queues (release_on_exit a k n) = queues n"
  "children (release_on_exit a k n) = children n" "live_children (release_on_exit a k n) = live_children n"
  "links (release_on_exit a k n) = links n" "monitor_watchers (release_on_exit a k n) = monitor_watchers n"
  "trap_exit_flags (release_on_exit a k n) = trap_exit_flags n" "core (release_on_exit a k n) = core n"
  "groups (release_on_exit a k n) = groups n" "next_id (release_on_exit a k n) = next_id n"
  "event_listeners (release_on_exit a k n) = event_listeners n" "event_log (release_on_exit a k n) = event_log n"
  "actor_tasks (release_on_exit a k n) = actor_tasks n" "local_id (release_on_exit a k n) = local_id n"
  "started (release_on_exit a k n) = started n"
  by (simp_all add: release_on_exit_def Let_def registry_broadcast_def create_tasks_def split: option.split)

lemma fold_frame:
  assumes "\<And>x n. f (step x n) = f n"
  shows "f (fold step xs n) = f n"
  by (induction xs arbitrary: n) (simp_all add: assms)

lemma clear_groups_frame [simp]:
  "mailboxes (clear_groups n a) = mailboxes n" "queues (clear_groups n a) = queues n"
  "children (clear_groups n a) = children n" "live_children (clear_groups n a) = live_children n"
  "links (clear_groups n a) = links n" "monitor_watchers (clear_groups n a) = monitor_watchers n"
  "trap_exit_flags (clear_groups n a) = trap_exit_flags n" "core (clear_groups n a) = core n"
  "names (clear_groups n a) = names n" "next_id (clear_groups n a) = next_id n"
  "event_listeners (clear_groups n a) = event_listeners n" "event_log (clear_groups n a) = event_log n"
  "actor_tasks (clear_groups n a) = actor_tasks n" "local_id (clear_groups n a) = local_id n"
  "started (clear_groups n a) = started n"
  by (simp_all add: clear_groups_def Let_def fold_frame)

lemma clear_registry_frame [simp]:
  "mailboxes (clear_registry n a) = mailboxes n" "queues (clear_registry n a) = queues n"
  "children (clear_registry n a) = children n" "live_children (clear_registry n a) = live_children n"
  "links (clear_registry n a) = links n" "monitor_watchers (clear_registry n a) = monitor_watchers n"
  "trap_exit_flags (clear_registry n a) = trap_exit_flags n" "core (clear_registry n a) = core n"
  "groups (clear_registry n a) = groups n" "next_id (clear_registry n a) = next_id n"
  "event_listeners (clear_registry n a) = event_listeners n" "event_log (clear_registry n a) = event_log n"
  "actor_tasks (clear_registry n a) = actor_tasks n" "local_id (clear_registry n a) = local_id n"
  "started (clear_registry n a) = started n"
  by (simp_all add: clear_registry_def fold_frame)

lemma unregister_frame [simp]:
  "mailboxes (snd (unregister_actor n name)) = dict_del name (mailboxes n)"
  "queues (snd (unregister_actor n name)) = queues n"
  "children (snd (unregister_actor n name)) = children n"
  "live_children (snd (unregister_actor n name)) = live_children n"
  "links (snd (unregister_actor n name)) = links n"
  "monitor_watchers (snd (unregister_actor n name)) = monitor_watchers n"
  "trap_exit_flags (snd (unregister_actor n name)) = trap_exit_flags n"
  "groups (snd (unregister_actor n name)) = groups n"
  "names (snd (unregister_actor n name)) = names n"
  "next_id (snd (unregister_actor n name)) = next_id n"
  "event_listeners (snd (unregister_actor n name)) = event_listeners n"
  "event_log (snd (unregister_actor n name)) = event_log n"
  "actor_tasks (snd (unregister_actor n name)) = actor_tasks n"
  "started (snd (unregister_actor n name)) = started n"
  by (simp_all add: unregister_actor_def split: option.split prod.split)

lemma local_id_unregister [simp]: "local_id (snd (unregister_actor n name)) = local_id n"
  by (auto simp: local_id_def unregister_actor_def core_unregister_actor_def split: option.split sum.split)

definition ended :: "node \<Rightarrow> string \<Rightarrow> node" where
  "ended n name = snd (snd (end_generation n name))"

lemma end_generation_parts:
  "end_generation n name = (get_or [] (links n) name, get_or [] (monitor_watchers n) name, ended n name)"
  by (simp add: ended_def end_generation_def Let_def clear_links_def clear_monitors_def)

lemma ended_frame [simp]:
  "mailboxes (ended n name) = dict_del name (mailboxes n)" "queues (ended n name) = queues n"
  "children (ended n name) = children n" "next_id (ended n name) = next_id n"
  "live_children (ended n name) = dict_del name (live_children n)"
  "links (ended n name) = dict_del name (links n)"
  "trap_exit_flags (ended n name) = dict_del name (trap_exit_flags n)"
  "monitor_watchers (ended n name) = dict_del name (monitor_watchers n)"
  "event_listeners (ended n name) = event_listeners n" "event_log (ended n name) = event_log n"
  "actor_tasks (ended n name) = actor_tasks n" "local_id (ended n name) = local_id n"
  by (simp_all add: ended_def end_generation_def Let_def clear_links_def clear_monitors_def)

lemma ended_core: "core (ended n name) = core (snd (unregister_actor n name))"
  by (simp add: ended_def end_generation_def Let_def clear_links_def clear_monitors_def)

subsection \<open>Properties of the end of a generation\<close>

text \<open>C23. Everything is scoped to one generation. Whatever way a generation of an actor ends, afterwards
  its name has no mailbox and no live child, no links, no exit trap and no watchers, it is in no
  group and owns no registered name; its queue of pending messages is kept, and every other
  actor keeps its mailbox.\<close>

theorem generation_leaves_no_trace:
  assumes "names_wf n" and "end_generation n name = (linked, monitored, n')"
  shows "linked = get_or [] (links n) name \<and> monitored = get_or [] (monitor_watchers n) name
    \<and> map_of (mailboxes n') name = None \<and> map_of (live_children n') name = None
    \<and> map_of (links n') name = None \<and> map_of (trap_exit_flags n') name = None
    \<and> map_of (monitor_watchers n') name = None
    \<and> (\<forall>g. (local_id n, name) \<notin> bucket (groups n') g)
    \<and> (\<forall>k. map_of (names n') k \<noteq> Some (local_id n, name))
    \<and> queues n' = queues n
    \<and> (\<forall>k. k = name \<or> map_of (mailboxes n') k = map_of (mailboxes n) k)"
proof -
  have n': "n' = ended n name" "linked = get_or [] (links n) name"
    "monitored = get_or [] (monitor_watchers n) name"
    using assms(2) by (simp_all add: end_generation_parts)
  let ?m = "snd (clear_monitors (snd (clear_links (snd (unregister_actor n name)
      \<lparr>live_children := dict_del name (live_children n)\<rparr>) name)) name)"
  have m: "ended n name = clear_registry (clear_groups ?m name) name"
    by (simp add: ended_def end_generation_def Let_def clear_links_def clear_monitors_def)
  have "distinct (keys (names (clear_groups ?m name)))" "local_id (clear_groups ?m name) = local_id n"
    "local_id ?m = local_id n"
    using assms(1) by (simp_all add: names_wf_def clear_links_def clear_monitors_def)
  then have "\<forall>k. map_of (names (ended n name)) k \<noteq> Some (local_id n, name)"
    using lookup_clear_registry [of "clear_groups ?m name" name] by (simp add: m)
  moreover have "\<forall>g. (local_id n, name) \<notin> bucket (groups (ended n name)) g"
    using \<open>local_id ?m = local_id n\<close> by (simp add: m)
  ultimately show ?thesis by (simp add: n')
qed

theorem generation_leaves_no_trace_witness:
  "map_of (mailboxes (ended (demo_started ''a'') ''w'')) ''w'' = None"
  using generation_leaves_no_trace [of "demo_started ''a''" "''w''"
      "get_or [] (links (demo_started ''a'')) ''w''" "get_or [] (monitor_watchers (demo_started ''a'')) ''w''"
      "ended (demo_started ''a'') ''w''"]
    demo_started_wf [of "''a''"]
  by (simp add: end_generation_parts node_wf_def)

subsection \<open>Fields under the steps\<close>

lemma child_at_update [simp]:
  "child_at (update_child i f n) j = (if j = i then f (child_at n i) else child_at n j)"
  by (simp add: child_at_def update_child_def)

lemma update_child_frame [simp]:
  "mailboxes (update_child i f n) = mailboxes n" "queues (update_child i f n) = queues n"
  "live_children (update_child i f n) = live_children n" "core (update_child i f n) = core n"
  "next_id (update_child i f n) = next_id n" "links (update_child i f n) = links n"
  "monitor_watchers (update_child i f n) = monitor_watchers n" "tasks (update_child i f n) = tasks n"
  "event_listeners (update_child i f n) = event_listeners n" "event_log (update_child i f n) = event_log n"
  "names (update_child i f n) = names n" "groups (update_child i f n) = groups n"
  "node_wf (update_child i f n) = node_wf n" "actor_tasks (update_child i f n) = actor_tasks n"
  by (simp_all add: update_child_def)

lemma child_at_ended [simp]: "child_at (ended n name) i = child_at n i"
  by (simp add: child_at_def)

lemma child_at_cong [simp]:
  "child_at (n\<lparr>actor_tasks := x1\<rparr>) i = child_at n i" "child_at (n\<lparr>live_children := x2\<rparr>) i = child_at n i"
  "child_at (n\<lparr>mailboxes := x3\<rparr>) i = child_at n i" "child_at (n\<lparr>core := x4\<rparr>) i = child_at n i"
  "child_at (n\<lparr>event_log := x5\<rparr>) i = child_at n i" "child_at (on_core_event ev n) i = child_at n i" "child_at (create_tasks ts n) i = child_at n i"
  by (simp_all add: child_at_def event_frame create_tasks_def)

lemma notify_all_frame [simp]:
  "mailboxes (notify_all n a l m r) = mailboxes n" "queues (notify_all n a l m r) = queues n"
  "live_children (notify_all n a l m r) = live_children n" "children (notify_all n a l m r) = children n"
  "next_id (notify_all n a l m r) = next_id n" "core (notify_all n a l m r) = core n"
  "event_log (notify_all n a l m r) = event_log n" "actor_tasks (notify_all n a l m r) = actor_tasks n"
  "child_at (notify_all n a l m r) i = child_at n i"
  by (simp_all add: notify_all_def notify_links_def notify_monitors_def create_tasks_def child_at_def)

lemma notify_all_tasks:
  "tasks (notify_all n a l m r) = tasks n @ map (exit_task a r) l @ map (down_task a r) m"
  by (simp add: notify_all_def notify_links_def notify_monitors_def create_tasks_def)

lemma set_phase_simps [simp]:
  "map_of (phases (set_phase i p s)) j = (if j = i then Some p else map_of (phases s) j)"
  "sup_strategy (set_phase i p s) = sup_strategy s" "sup_children (set_phase i p s) = sup_children s"
  "sup_budget (set_phase i p s) = sup_budget s" "cancels (set_phase i p s) = cancels s"
  "given_up (set_phase i p s) = given_up s" "give_up_exc (set_phase i p s) = give_up_exc s"
  by (simp_all add: set_phase_def)

lemma ask_cancel_simps [simp]:
  "phases (ask_cancel i s) = phases s" "sup_strategy (ask_cancel i s) = sup_strategy s"
  "sup_children (ask_cancel i s) = sup_children s" "sup_budget (ask_cancel i s) = sup_budget s"
  by (simp_all add: ask_cancel_def)

lemma shutdown_except_simps [simp]:
  "phases (shutdown_except x s) = phases s" "sup_strategy (shutdown_except x s) = sup_strategy s"
  "sup_children (shutdown_except x s) = sup_children s"
  by (simp_all add: shutdown_except_def fold_frame)

lemma ended_running:
  assumes "node_wf n" and "core n = Some c"
  shows "\<exists>c'. core (ended n name) = Some c' \<and> core_running c'"
  using assms node_wf_running [OF assms]
  by (simp add: ended_core unregister_actor_def core_unregister_actor_def require_def)

lemma register_free:
  assumes "core n = Some c" "core_running c" "map_of (mailboxes n) name = None"
  shows "\<exists>n'. register_actor n name q = (Inr (), n') \<and> mailboxes n' = dict_set name q (mailboxes n)
    \<and> queues n' = queues n \<and> children n' = children n \<and> live_children n' = live_children n"
  using assms by (simp add: register_actor_def core_register_actor_def require_def)

lemma child_crashed_allowed:
  assumes "fst (allow_restart now (sup_budget s))"
  shows "child_crashed now i exc l m (n, s)
    = (n, set_phase i Backing_off (s\<lparr>sup_budget := snd (allow_restart now (sup_budget s))\<rparr>))"
  using assms by (simp add: child_crashed_def case_prod_beta Let_def)

lemma driver_failed_allowed:
  assumes "fst (allow_restart now (sup_budget s))"
  shows "driver_failed now i exc (n, s)
    = (ended (update_child i (\<lambda>c. c\<lparr>child_driver := Driver_done\<rparr>) n) (child_name (child_at n i)),
       set_phase i Backing_off (s\<lparr>sup_budget := snd (allow_restart now (sup_budget s))\<rparr>))"
  by (simp add: driver_failed_def generation_failed_def end_generation_parts child_crashed_allowed assms)

lemma queue_at_cong: "queues m = queues n \<Longrightarrow> queue_at m q = queue_at n q"
  by (simp add: queue_at_def)

lemma begin_generation_free:
  assumes "core n = Some c" "core_running c" "map_of (mailboxes n) (child_name (child_at n i)) = None"
  shows "\<exists>n'. begin_generation now (Inr ()) i (n, s) = (n', set_phase i Driving s)
    \<and> mailboxes n' = dict_set (child_name (child_at n i)) (child_mailbox (child_at n i)) (mailboxes n)
    \<and> live_children n' = dict_set (child_name (child_at n i)) i (live_children n)
    \<and> queues n' = queues n \<and> child_driver (child_at n' i) = Driver_running
    \<and> (\<forall>j. j = i \<or> child_at n' j = child_at n j)"
proof -
  obtain n1 where n1: "register_actor n (child_name (child_at n i)) (child_mailbox (child_at n i)) = (Inr (), n1)"
    "mailboxes n1 = dict_set (child_name (child_at n i)) (child_mailbox (child_at n i)) (mailboxes n)"
    "queues n1 = queues n" "children n1 = children n" "live_children n1 = live_children n"
    using register_free [OF assms] by blast
  then have "child_at n1 j = child_at n j" for j by (simp add: child_at_def)
  with n1 show ?thesis by (simp add: begin_generation_def)
qed

subsection \<open>Properties of restarts\<close>


definition demo_sup :: "strategy \<Rightarrow> sup" where
  "demo_sup st = \<lparr>sup_strategy = st,
     sup_budget = \<lparr>max_restarts = 1, restart_window = 5, restart_times = []\<rparr>,
     sup_children = [5], give_up_exc = None, given_up = False, phases = [(5, Driving)], cancels = []\<rparr>"

definition demo_running :: node where
  "demo_running = (demo_started ''a'')\<lparr>children := [(5, demo_child)], live_children := [(''w'', 5)],
     links := [(''w'', [(None, ''v'')])], event_listeners := [User_listener 0]\<rparr>"

lemma demo_running_simps [simp]:
  "node_wf demo_running" "core demo_running = Some (demo_core ''a'')" "child_at demo_running 5 = demo_child"
  "child_name demo_child = ''w''" "child_mailbox demo_child = 0" "mailboxes demo_running = [(''w'', 0)]"
  "child_pending_exit demo_child = None"
  by (simp_all add: demo_running_def child_at_def get_or_def demo_child_def)


subsection \<open>Properties of giving up\<close>

text \<open>Giving up under \<^verbatim>\<open>one_for_one\<close> concerns one child only. A crash beyond the budget ends that child
  with its own exception, is reported once to every user listener, signals the exit with the
  described exception to every linked actor and every watcher, and removes the child; no other
  child, phase or mailbox changes, and the supervisor counts as given up exactly when it has no
  children left.\<close>

lemma give_up_is_isolated:
  assumes "sup_strategy s = One_for_one" and "\<not> fst (allow_restart now (sup_budget s))"
    and "driver_failed now i exc (n, s) = (n', s')" and "\<not> given_up s"
  shows "map_of (phases s') i = Some (Done (Raised exc))
    \<and> sup_children s' = remove1 i (sup_children s)
    \<and> (given_up s' \<longleftrightarrow> remove1 i (sup_children s) = [])
    \<and> event_log n' = event_log n @ map (\<lambda>k. (k, Ev_supervisor_gave_up (child_name (child_at n i)) (describe exc)))
                                     (user_listeners n)
    \<and> set (map (exit_task (child_name (child_at n i)) (describe exc)) (get_or [] (links n) (child_name (child_at n i))))
        \<subseteq> set (tasks n')
    \<and> set (map (down_task (child_name (child_at n i)) (describe exc)) (get_or [] (monitor_watchers n) (child_name (child_at n i))))
        \<subseteq> set (tasks n')
    \<and> (\<forall>j. j = i \<or> child_at n' j = child_at n j \<and> map_of (phases s') j = map_of (phases s) j)
    \<and> (\<forall>k. k = child_name (child_at n i) \<or> map_of (mailboxes n') k = map_of (mailboxes n) k)"
proof -
  let ?name = "child_name (child_at n i)"
  let ?m = "ended (update_child i (\<lambda>c. c\<lparr>child_driver := Driver_done\<rparr>) n) ?name"
  let ?ev = "Ev_supervisor_gave_up ?name (describe exc)"
  let ?e = "on_core_event ?ev ?m"
  have ev: "?e = ?m\<lparr>event_log := event_log n @ map (\<lambda>k. (k, ?ev)) (user_listeners n)\<rparr>"
    by (simp add: on_core_event_plain is_peer_event_def user_listeners_def)
  let ?s1 = "discard_child i (s\<lparr>sup_budget := snd (allow_restart now (sup_budget s))\<rparr>)"
  let ?s2 = "if sup_children ?s1 = [] then ?s1\<lparr>give_up_exc := Some exc, given_up := True\<rparr> else ?s1"
  have "driver_failed now i exc (n, s) = finish i (Raised exc)
      (notify_all ?e ?name (get_or [] (links n) ?name) (get_or [] (monitor_watchers n) ?name) (describe exc), ?s2)"
    using assms(1,2)
    by (simp add: driver_failed_def generation_failed_def end_generation_parts child_crashed_def
        case_prod_beta Let_def raise_for_good_def)
  then have r: "n' = (notify_all ?e ?name (get_or [] (links n) ?name) (get_or [] (monitor_watchers n) ?name)
        (describe exc))\<lparr>actor_tasks := set_discard i (actor_tasks n)\<rparr>"
    "s' = set_phase i (Done (Raised exc)) ?s2"
    using assms(3) by (simp_all add: finish_def event_frame)
  show ?thesis using assms(4)
    by (simp add: r(2) discard_child_def) (auto simp: r(1) ev notify_all_tasks)
qed

lemma give_up_is_isolated_witness:
  "map_of (phases (snd (driver_failed 0 5 (ValueError ''boom'')
      (demo_running, (demo_sup One_for_one)\<lparr>sup_budget := \<lparr>max_restarts = 0, restart_window = 5, restart_times = []\<rparr>\<rparr>)))) 5
   = Some (Done (Raised (ValueError ''boom'')))"
proof -
  let ?s = "(demo_sup One_for_one)\<lparr>sup_budget := \<lparr>max_restarts = 0, restart_window = 5, restart_times = []\<rparr>\<rparr>"
  let ?x = "driver_failed 0 5 (ValueError ''boom'') (demo_running, ?s)"
  have "\<not> fst (allow_restart 0 (sup_budget ?s))" "sup_strategy ?s = One_for_one" "\<not> given_up ?s"
    by (simp_all add: demo_sup_def allow_restart_def Let_def)
  then show ?thesis
    using give_up_is_isolated [of ?s 0 5 "ValueError ''boom''" demo_running "fst ?x" "snd ?x"] by simp
qed

subsection \<open>Where the guarantees stop\<close>

text \<open>C34. While a crashed child sleeps before its restart its name is free, and another actor may be spawned
  under it. The restart then fails to register, which counts as a crash of the child, and the
  handler of that crash unregisters the name although it belongs to the other actor: the other
  actor keeps running but can no longer be reached.\<close>

theorem restart_evicts_new_owner:
  assumes "core n = Some c" and "map_of (mailboxes n) (child_name (child_at n i)) = Some q"
    and "q \<noteq> child_mailbox (child_at n i)"
    and "begin_generation now (Inr ()) i (n, s) = (n', s')"
  shows "map_of (mailboxes n') (child_name (child_at n i)) = None
    \<and> map_of (live_children n') (child_name (child_at n i)) = None"
proof -
  let ?name = "child_name (child_at n i)"
  let ?err = "ValueError (''actor name '' @ py_repr ?name @ '' is already registered on this node'')"
  have "begin_generation now (Inr ()) i (n, s) = generation_failed now i ?err (n, s)"
    using assms(1,2,3) by (simp add: begin_generation_def register_actor_def)
  with assms(4) have "generation_failed now i ?err (n, s) = (n', s')" by simp
  then show ?thesis
    by (auto simp: generation_failed_def end_generation_parts child_crashed_def raise_for_good_def
        finish_def Let_def event_frame split: prod.splits if_splits)
qed

theorem restart_evicts_new_owner_witness:
  "map_of (mailboxes (fst (begin_generation 3 (Inr ()) 5
      (demo_running\<lparr>mailboxes := [(''w'', 1)]\<rparr>, demo_sup One_for_one)))) ''w'' = None"
proof -
  let ?n = "demo_running\<lparr>mailboxes := [(''w'', 1)]\<rparr>"
  let ?x = "begin_generation 3 (Inr ()) 5 (?n, demo_sup One_for_one)"
  show ?thesis
    using restart_evicts_new_owner [of ?n "demo_core ''a''" 5 1 3 "demo_sup One_for_one" "fst ?x" "snd ?x"]
    by simp
qed

text \<open>A shutdown that arrives while a crashed child waits for a sibling to end is lost: the wait swallows
  the cancellation. Once the sibling has ended the child restarts and runs on, although it was
  told to stop and nothing will tell it again.\<close>

lemma teardown_swallows_cancel:
  assumes "node_wf n" and "core n = Some c0"
    and "map_of (phases s) i = Some (Tearing_down [c] [c])" and "c \<noteq> i"
    and "cancel_lands now i (n, s) = (n1, s1)"
    and "map_of (phases s2) i = map_of (phases s1) i" and "map_of (phases s2) c = Some (Done Cancelled)"
    and "i \<notin> set (cancels s2)"
    and "map_of (mailboxes n) (child_name (child_at n i)) = None"
    and "teardown_over later (Inr ()) i (n1, s2) = (n3, s3)"
  shows "map_of (phases s1) i = Some (Tearing_down [c] [c]) \<and> i \<notin> set (cancels s1)
    \<and> map_of (phases s3) i = Some Driving \<and> i \<notin> set (cancels s3)"
proof -
  have s1: "n1 = n" "phases s1 = phases s" "i \<notin> set (cancels s1)"
    using assms(3,4,5) by (auto simp: cancel_lands_def Let_def ask_cancel_def split: if_splits)
  let ?x = "respawn_child c (n, s2)"
  have x: "core (fst ?x) = Some c0" "child_at (fst ?x) i = child_at n i" "mailboxes (fst ?x) = mailboxes n"
    "cancels (snd ?x) = cancels s2"
    using assms(2,4) by (simp_all add: respawn_child_def)
  have "teardown_over later (Inr ()) i (n1, s2) = begin_generation later (Inr ()) i ?x"
    using assms(3,6,7) s1 by (simp add: teardown_over_def)
  then have "s3 = set_phase i Driving (snd ?x)"
    using begin_generation_free [of "fst ?x" c0 i later "snd ?x"] x assms(9,10)
      node_wf_running [OF assms(1,2)] by (cases ?x) auto
  with x(4) assms(3,8) s1 show ?thesis by simp
qed

definition demo_sweep :: "phase \<Rightarrow> sup" where
  "demo_sweep p = (demo_sup One_for_all)\<lparr>sup_children := [5, 6], phases := [(5, Tearing_down [6] [6]), (6, p)]\<rparr>"

definition demo_unnamed :: node where
  "demo_unnamed = snd (unregister_actor demo_running ''w'')"

lemma demo_unnamed_simps [simp]:
  "node_wf demo_unnamed" "child_at demo_unnamed 5 = demo_child" "mailboxes demo_unnamed = []"
  using node_wf_unregister [of demo_running "''w''"] demo_running_simps(3)
  by (simp_all add: demo_unnamed_def child_at_def)

lemma teardown_swallows_cancel_witness:
  "map_of (phases (snd (teardown_over 2 (Inr ()) 5 (fst (cancel_lands 1 5
      (demo_unnamed, (demo_sweep Driving)\<lparr>cancels := [5]\<rparr>)), demo_sweep (Done Cancelled))))) 5 = Some Driving"
proof -
  let ?s = "(demo_sweep Driving)\<lparr>cancels := [5]\<rparr>"
  let ?c = "cancel_lands 1 5 (demo_unnamed, ?s)"
  let ?t = "teardown_over 2 (Inr ()) 5 (fst ?c, demo_sweep (Done Cancelled))"
  obtain c0 where c0: "core demo_unnamed = Some c0"
    by (simp add: demo_unnamed_def unregister_actor_def core_unregister_actor_def require_def demo_core_def)
  have p: "map_of (phases ?s) 5 = Some (Tearing_down [6] [6])"
    "map_of (phases (demo_sweep (Done Cancelled))) 6 = Some (Done Cancelled)"
    "map_of (phases (demo_sweep (Done Cancelled))) 5 = Some (Tearing_down [6] [6])"
    "5 \<notin> set (cancels (demo_sweep (Done Cancelled)))"
    by (simp_all add: demo_sweep_def demo_sup_def)
  have "map_of (phases (snd ?c)) 5 = Some (Tearing_down [6] [6])"
    using p(1) by (simp add: cancel_lands_def Let_def)
  then show ?thesis
    using teardown_swallows_cancel [of demo_unnamed c0 ?s 5 6 1 "fst ?c" "snd ?c" "demo_sweep (Done Cancelled)"
        2 "fst ?t" "snd ?t"] c0 p by simp
qed

end
