(* ===== verification/Node_Steps.thy ===== *)
theory Node_Steps
  imports Node_Loop Supervisor_Laws
begin

text \<open>
  Everything that can happen on a node, as one relation: the calls of applications and
  supervisors, the operations of the cluster modules and of their reserved actors, the traffic
  and the events of the transport, and the turns of the loop, in any order. The invariant of the
  node holds in every state that is reached from a new node. A start that fails to bind its
  listener is left out: it leaves a transport that refuses every call.
\<close>

subsection \<open>The steps\<close>

inductive node_step :: "node \<Rightarrow> node \<Rightarrow> bool" where
  Start: "start len bound n = (Inr (), n') \<Longrightarrow> node_step n n'"
| Stop: "node_step n (stop_rest n)"
| Listen: "node_step n (on_event n l)"
| Connect: "node_step n (snd (connect_check n p))"
| Wait: "node_step n (snd (connect_wait n p))"
| Connected: "node_step n (snd (connect_finish n p fut))"
| Forget: "node_step n (snd (forget_peer n p))"
| New_actor: "node_step n (snd (register_actor (snd (new_mailbox m n)) name (fst (new_mailbox m n))))"
| Again: "has_key q (queues n) \<Longrightarrow> node_step n (snd (register_actor n name q))"
| Unregister: "node_step n (snd (unregister_actor n name))"
| Send: "node_step n (snd (send n ref m r k))"
| Take: "map_of (queues n) q = Some x \<Longrightarrow> get_item x = Some (m, x') \<Longrightarrow>
    node_step n (n\<lparr>queues := dict_set q x' (queues n)\<rparr>)"
| Ended: "node_step n (ended n name)"
| Notify: "node_step n (notify_all n name linked monitored reason)"
| Join_group: "node_step n (snd (join_group n g ref me))"
| Leave_group: "node_step n (snd (leave_group n g ref me))"
| Groups_msg: "node_step n (snd (groups_receive n msg))"
| Register_name: "node_step n (snd (register_name n k ref me))"
| Unregister_name: "node_step n (snd (unregister_name n k ref me))"
| Registry_msg: "node_step n (snd (registry_receive n msg))"
| Link: "node_step n (snd (link n me other))"
| Unlink: "node_step n (snd (unlink n me other))"
| Trap: "node_step n (snd (trap_exit n me b))"
| Link_msg: "node_step n (snd (link_receive n msg))"
| Monitor: "node_step n (snd (monitor mref n me other))"
| Demonitor: "node_step n (snd (demonitor n me mref))"
| Monitor_msg: "node_step n (snd (monitor_receive n msg))"
| Event: "node_step n (on_core_event ev n)"
| Data: "node_step n (route_data n from_peer src dst j i r k room)"
| Error: "node_step n (route_error n from_peer shown k)"
| Transport: "core n = Some c \<Longrightarrow> core_routing c' = core_routing c \<Longrightarrow> core_running c' = core_running c \<Longrightarrow>
    node_step n (n\<lparr>core := Some c'\<rparr>)"
| Turn: "loop_step n = Some n' \<Longrightarrow> node_step n n'"

subsection \<open>The invariant under the operations of the cluster modules\<close>

lemma node_wf_group_broadcast [simp]: "node_wf (group_broadcast n g m v) = node_wf n"
  by (simp add: group_broadcast_def split: option.split)

lemma node_wf_registry_broadcast [simp]: "node_wf (registry_broadcast n g m v) = node_wf n"
  by (simp add: registry_broadcast_def split: option.split)

lemma node_wf_group_ops [wf_intros]:
  assumes "node_wf n"
  shows "node_wf (snd (join_group n g ref me))" "node_wf (snd (leave_group n g ref me))"
  using assms node_wf_buckets [OF assms]
  by (auto simp: join_group_def leave_group_def Let_def split: sum.split
      intro!: node_wf_groups buckets_wf_add buckets_wf_discard)

lemma buckets_wf_add_members: "buckets_wf gs \<Longrightarrow> buckets_wf (snd (add_members g ms gs))"
  by (induction ms arbitrary: gs) (auto split: sum.split intro: buckets_wf_add)

lemma buckets_wf_add_snapshot: "buckets_wf gs \<Longrightarrow> buckets_wf (snd (add_snapshot es gs))"
proof (induction es arbitrary: gs)
  case (Cons e es)
  obtain g v where e: "e = (g, v)" by force
  let ?gs = "dict_set g (get_or [] gs g) gs"
  have gs: "buckets_wf ?gs" using Cons.prems by (simp add: buckets_wf_set buckets_wf_get)
  show ?case
  proof (cases "as_elems v")
    case (Inr ms)
    obtain r gs2 where a: "add_members g ms ?gs = (r, gs2)" by force
    then have "buckets_wf gs2" using buckets_wf_add_members [OF gs, of g ms] by simp
    with Cons.IH a Inr e show ?thesis by (auto simp: Let_def split: sum.split)
  qed (simp add: e Let_def gs)
qed simp

lemma node_wf_groups_receive [wf_intros]:
  assumes "node_wf n"
  shows "node_wf (snd (groups_receive n msg))"
  using assms node_wf_buckets [OF assms] buckets_wf_add_snapshot [of "groups n"]
  by (auto simp: groups_receive_def case_prod_beta split: sum.split
      intro!: node_wf_groups buckets_wf_add buckets_wf_discard)

lemma node_wf_registry_ops [wf_intros]:
  assumes "node_wf n"
  shows "node_wf (snd (register_name n k ref me))" "node_wf (snd (unregister_name n k ref me))"
  using assms node_wf_names_distinct [OF assms]
  by (auto simp: register_name_def unregister_name_def Let_def distinct_update split: sum.split option.split
      intro!: node_wf_names distinct_keys_del)

lemma node_wf_claim: "node_wf n \<Longrightarrow> node_wf (apply_claim k p n)"
  using node_wf_names_distinct [of n]
  by (auto simp: apply_claim_def distinct_update split: option.split intro!: node_wf_names node_wf_event)

lemma node_wf_release: "node_wf n \<Longrightarrow> node_wf (apply_release k p n)"
  using node_wf_names_distinct [of n]
  by (auto simp: apply_release_def intro!: node_wf_names distinct_keys_del)

lemma node_wf_snapshot: "node_wf n \<Longrightarrow> node_wf (snd (apply_snapshot es n))"
  by (induction es n rule: apply_snapshot.induct) (auto simp: node_wf_claim split: sum.split)

lemma node_wf_registry_receive [wf_intros]: "node_wf n \<Longrightarrow> node_wf (snd (registry_receive n msg))"
  by (auto simp: registry_receive_def node_wf_claim node_wf_release node_wf_snapshot split: sum.split)

lemma node_wf_trap [wf_intros]: "node_wf n \<Longrightarrow> node_wf (snd (trap_exit n me b))"
  by (auto simp: trap_exit_def split: sum.split)

lemma node_wf_fold: "(\<And>x n. node_wf n \<Longrightarrow> node_wf (f x n)) \<Longrightarrow> node_wf n \<Longrightarrow> node_wf (fold f xs n)"
  by (induction xs arbitrary: n) simp_all

lemma node_wf_clear_groups [wf_intros]: "node_wf n \<Longrightarrow> node_wf (clear_groups n a)"
  unfolding clear_groups_def Let_def
  by (rule node_wf_fold) (auto simp: leave_on_exit_def Let_def intro!: node_wf_groups buckets_wf_discard node_wf_buckets)

lemma node_wf_clear_registry [wf_intros]: "node_wf n \<Longrightarrow> node_wf (clear_registry n a)"
  unfolding clear_registry_def
  by (rule node_wf_fold) (auto simp: release_on_exit_def Let_def
      intro!: node_wf_names distinct_keys_del node_wf_names_distinct)

lemma node_wf_ended [wf_intros]: "node_wf n \<Longrightarrow> node_wf (ended n name)"
  by (auto simp: ended_def end_generation_def Let_def clear_links_def clear_monitors_def
      intro!: node_wf_clear_registry node_wf_clear_groups node_wf_unregister)

lemma node_wf_notify_all [wf_intros]: "node_wf n \<Longrightarrow> node_wf (notify_all n a l m r)"
  by (simp add: notify_all_def notify_links_def notify_monitors_def)

lemma node_wf_connect [wf_intros]:
  assumes "node_wf n"
  shows "node_wf (snd (connect_check n p))" "node_wf (snd (connect_wait n p))"
    "node_wf (snd (connect_finish n p fut))" "node_wf (snd (forget_peer n p))"
proof -
  have "snd (connect_check n p) = snd (with_core n (\<lambda>c. core_connect_peer c p))"
    by (simp add: connect_check_def split: sum.split prod.split)
  with assms show "node_wf (snd (connect_check n p))" by (simp add: node_wf_with_core)
  show "node_wf (snd (connect_wait n p))" using assms
    by (auto simp: connect_wait_def node_wf_def queues_wf_def names_wf_def less_SucI)
  show "node_wf (snd (connect_finish n p fut))" using assms
    by (simp add: connect_finish_def drop_waiter_def Let_def)
  show "node_wf (snd (forget_peer n p))" using assms by (simp add: forget_peer_def node_wf_with_core)
qed

subsection \<open>What the operations do to mailboxes and pending callbacks\<close>

lemma calm_register: "calm n (snd (register_actor n name q))"
  by (rule calm_same) (auto simp: register_actor_def split: option.split prod.split)

lemma calm_new_actor: "calm n (snd (register_actor (snd (new_mailbox m n)) name (fst (new_mailbox m n))))"
proof (rule calm_trans [OF _ calm_register])
  show "calm n (snd (new_mailbox m n))" by (auto simp: calm_def new_mailbox_def)
qed

lemma calm_unregister: "calm n (snd (unregister_actor n name))"
  by (rule calm_same) (auto simp: unregister_actor_def split: option.split prod.split)

lemma calm_send: "calm n (snd (send n ref m r k))"
  by (cases ref) (simp_all add: calm_send_local calm_send_remote)

lemma calm_group_ops: "calm n (snd (join_group n g ref me))" "calm n (snd (leave_group n g ref me))"
  by (auto simp: join_group_def leave_group_def Let_def split: sum.split
      intro: calm_from [OF calm_group_broadcast])

lemma calm_groups_receive: "calm n (snd (groups_receive n msg))"
  by (rule calm_same) (auto simp: groups_receive_def split: sum.split prod.split)

lemma calm_registry_ops: "calm n (snd (register_name n k ref me))" "calm n (snd (unregister_name n k ref me))"
  by (auto simp: register_name_def unregister_name_def Let_def split: sum.split option.split
      intro: calm_from [OF calm_registry_broadcast])

lemma calm_claim: "calm n (apply_claim k p n)"
  by (auto simp: apply_claim_def calm_event calm_same split: option.split)

lemma calm_snapshot: "calm n (snd (apply_snapshot es n))"
proof (induction es n rule: apply_snapshot.induct)
  case (2 k v es n)
  then show ?case by (auto split: sum.split intro: calm_trans [OF calm_claim])
qed simp

lemma calm_registry_receive: "calm n (snd (registry_receive n msg))"
  by (auto simp: registry_receive_def calm_claim calm_snapshot apply_release_def calm_same split: sum.split)

lemma calm_links:
  "calm n (snd (link n me other))" "calm n (snd (unlink n me other))" "calm n (snd (trap_exit n me b))"
  "calm n (snd (link_receive n msg))"
  by (auto simp: link_def unlink_def trap_exit_def link_receive_def send_back_def Let_def calm_same
      split: sum.split prod.split option.split
      intro: calm_from [OF calm_deliver_exit] calm_from [OF calm_send_remote])

lemma watcher_tasks [simp]:
  "tasks (add_watcher a ref w n) = tasks n" "tasks (drop_watcher a ref n) = tasks n"
  "queues (drop_watcher a ref n) = queues n"
  by (simp_all add: add_watcher_def drop_watcher_def split: option.split)

lemma calm_monitors:
  "calm n (snd (monitor mref n me other))" "calm n (snd (demonitor n me mref))"
  "calm n (snd (monitor_receive n msg))"
  by (auto simp: monitor_def demonitor_def monitor_receive_def Let_def case_prod_beta calm_same
      split: sum.split option.split
      intro: calm_from [OF calm_deliver_down] calm_from [OF calm_send_remote])

lemma calm_clear_groups: "calm n (clear_groups n a)"
  unfolding clear_groups_def Let_def
  by (rule calm_fold) (auto simp: leave_on_exit_def Let_def calm_same intro: calm_from [OF calm_group_broadcast])

lemma calm_clear_registry: "calm n (clear_registry n a)"
  unfolding clear_registry_def
  by (rule calm_fold) (auto simp: release_on_exit_def Let_def calm_same intro: calm_from [OF calm_registry_broadcast])

lemma calm_ended: "calm n (ended n name)"
  unfolding ended_def end_generation_def Let_def clear_links_def clear_monitors_def prod.case snd_conv
  by (rule calm_trans [OF _ calm_clear_registry], rule calm_trans [OF _ calm_clear_groups])
    (rule calm_via [OF calm_unregister], simp_all)

lemma calm_notify_all: "calm n (notify_all n a l m r)"
proof (rule calm_schedule [of _ _ "map (exit_task a r) l @ map (down_task a r) m"])
  have "callback_queue (exit_task a r t) = None" for t by (cases "(a, r, t)" rule: exit_task.cases) simp_all
  moreover have "callback_queue (down_task a r t) = None" for t by (cases "(a, r, t)" rule: down_task.cases) simp_all
  ultimately show "\<forall>t \<in> set (map (exit_task a r) l @ map (down_task a r) m). callback_queue t = None" by auto
qed (simp_all add: notify_all_def notify_links_def notify_monitors_def create_tasks_def)

lemma calm_connect:
  "calm n (snd (connect_check n p))" "calm n (snd (connect_wait n p))"
  "calm n (snd (connect_finish n p fut))" "calm n (snd (forget_peer n p))"
proof -
  have "snd (connect_check n p) = snd (with_core n (\<lambda>c. core_connect_peer c p))"
    by (simp add: connect_check_def split: sum.split prod.split)
  then show "calm n (snd (connect_check n p))" by (simp add: calm_same)
qed (simp_all add: connect_wait_def connect_finish_def drop_waiter_def forget_peer_def Let_def calm_same)

lemma loop_wf_route_data:
  assumes "loop_wf n"
  shows "loop_wf (route_data n f s d j i r k room)"
proof -
  from assms have wf: "node_wf n" by (simp add: loop_wf_def)
  have "has_key q (queues n)" if "core n = Some c" "map_of (core_routing c) d = Some q" for c q
    using that node_wf_routing [OF wf] node_wf_mailbox_key [OF wf] by simp
  then have "callbacks (tasks (route_data n f s d j i r k room)) \<subseteq> dom (map_of (queues (route_data n f s d j i r k room)))"
    using assms by (auto simp: route_data_def loop_wf_def create_task_def split: option.split)
  with node_wf_route(1) [OF wf] show ?thesis by (simp add: loop_wf_def)
qed

subsection \<open>The invariant of reachable states\<close>

lemmas calm_steps = calm_connect calm_new_actor calm_register calm_unregister calm_send calm_ended
  calm_notify_all calm_group_ops calm_groups_receive calm_registry_ops calm_registry_receive calm_links
  calm_monitors calm_event

lemmas wf_steps = node_wf_stop_rest node_wf_connect node_wf_register node_wf_new_mailbox node_wf_unregister
  node_wf_send node_wf_ended node_wf_notify_all node_wf_group_ops node_wf_groups_receive
  node_wf_registry_ops node_wf_registry_receive node_wf_link node_wf_unlink node_wf_trap
  node_wf_link_receive node_wf_monitor node_wf_demonitor node_wf_monitor_receive node_wf_event

lemma calm_start: "start len bound n = (r, n') \<Longrightarrow> calm n n'"
  by (rule calm_same) (auto simp: start_def split: if_splits sum.splits prod.splits)

lemma node_wf_take:
  assumes "node_wf n" "map_of (queues n) q = Some x" "get_item x = Some (m, x')"
  shows "node_wf (n\<lparr>queues := dict_set q x' (queues n)\<rparr>)"
proof -
  have "queue_wf x" using assms(1,2) by (auto simp: node_wf_def queues_wf_def)
  then have "queue_wf x'" using assms(3) by (auto simp: get_item_def queue_wf_def split: list.splits)
  with assms show ?thesis by (simp add: node_wf_put_queue)
qed

lemma loop_wf_step: "node_step n n' \<Longrightarrow> loop_wf n \<Longrightarrow> loop_wf n'"
proof (induction rule: node_step.induct)
  case (Data n from_peer src dst j i r k room)
  then show ?case by (rule loop_wf_route_data)
next
  case (Turn n n')
  then show ?case using loop_step_wf by blast
next
  case (Start len bound n n')
  then show ?case using calm_wf calm_start node_wf_start by (metis loop_wf_def)
next
  case (Stop n)
  then show ?case by (auto simp: loop_wf_def node_wf_stop_rest) (auto simp: stop_rest_def)
next
  case (Take n q x m x')
  then have "node_wf (n\<lparr>queues := dict_set q x' (queues n)\<rparr>)" by (simp add: loop_wf_def node_wf_take)
  moreover have "calm n (n\<lparr>queues := dict_set q x' (queues n)\<rparr>)" by (auto simp: calm_def)
  ultimately show ?case using calm_wf Take.prems by blast
next
  case (Listen n l)
  then show ?case by (simp add: loop_wf_def on_event_def)
next
  case (Error n from_peer shown k)
  then show ?case by (auto simp: loop_wf_def node_wf_route) (auto simp: route_error_def split: option.splits)
next
  case (Transport n c c')
  then show ?case by (simp add: loop_wf_def node_wf_core)
next
  case (New_actor n m name)
  then have "node_wf (snd (register_actor (snd (new_mailbox m n)) name (fst (new_mailbox m n))))"
    by (simp add: loop_wf_def node_wf_register node_wf_new_mailbox)
  then show ?case using calm_wf [OF New_actor.prems calm_new_actor] by blast
qed (rule calm_wf; auto simp: loop_wf_def intro: calm_steps wf_steps)+

lemma loop_wf_reachable: "node_step\<^sup>*\<^sup>* n n' \<Longrightarrow> loop_wf n \<Longrightarrow> loop_wf n'"
  by (induction rule: rtranclp_induct) (auto intro: loop_wf_step)

subsection \<open>Property of reachable nodes\<close>

text \<open>C3. The tables of a node agree in every state it can reach. Whatever interleaving of calls, messages,
  events and tasks a node has gone through, the routing table of the transport leads each name to
  the mailbox that local sends use, or the node has no transport and no actors; every registered
  mailbox and the mailbox of every pending delivery exists; no mailbox holds more messages than
  its capacity; and no actor name, registered name or group member is listed twice.\<close>

theorem node_tables_agree:
  assumes "node_step\<^sup>*\<^sup>* (new_node env nid cap) n"
  shows "(\<forall>name. map_of (mailboxes n) name
            = (case core n of None \<Rightarrow> None | Some c \<Rightarrow> map_of (core_routing c) name))
    \<and> (\<forall>name q. map_of (mailboxes n) name = Some q \<longrightarrow> has_key q (queues n))
    \<and> callbacks (tasks n) \<subseteq> dom (map_of (queues n))
    \<and> (\<forall>q x. map_of (queues n) q = Some x \<longrightarrow> 0 < maxsize x \<longrightarrow> int (length (items x)) \<le> maxsize x)
    \<and> distinct (keys (mailboxes n)) \<and> distinct (keys (names n)) \<and> (\<forall>g. distinct (get_or [] (groups n) g))"
proof -
  have "loop_wf (new_node env nid cap)" by (simp add: loop_wf_def node_wf_new) (simp add: new_node_def)
  then have wf: "loop_wf n" using loop_wf_reachable [OF assms] by blast
  then have n: "node_wf n" and c: "callbacks (tasks n) \<subseteq> dom (map_of (queues n))"
    by (simp_all add: loop_wf_def)
  have r: "map_of (mailboxes n) name = (case core n of None \<Rightarrow> None | Some c \<Rightarrow> map_of (core_routing c) name)" for name
    using node_wf_routing [OF n] node_wf_stopped [OF n] by (simp split: option.split)
  have q: "\<forall>q x. map_of (queues n) q = Some x \<longrightarrow> 0 < maxsize x \<longrightarrow> int (length (items x)) \<le> maxsize x"
    using n by (auto simp: node_wf_def queues_wf_def queue_wf_def)
  have d: "distinct (keys (mailboxes n))" using n by (simp add: node_wf_def actors_wf_def)
  show ?thesis
    using r q c d node_wf_mailbox_key [OF n] node_wf_names_distinct [OF n] buckets_wf_get [OF node_wf_buckets [OF n]]
    by blast
qed

lemma parse_a: "parse ''a@h:1'' = Inr \<lparr>nid_name = ''a'', nid_host = ''h'', nid_port = 1\<rparr>"
  by (simp add: parse_def split_once_def rsplit_once_def rpartition_def parse_u16_def digit_val_def)

theorem node_tables_agree_witness:
  "\<exists>n. node_step\<^sup>*\<^sup>* (new_node sample_env ''a@h:1'' (Some 1)) n \<and> core n \<noteq> None
     \<and> map_of (mailboxes n) ''w'' = (case core n of None \<Rightarrow> None | Some c \<Rightarrow> map_of (core_routing c) ''w'')
     \<and> map_of (mailboxes n) ''w'' = Some 0"
proof -
  let ?n = "new_node sample_env ''a@h:1'' (Some 1)"
  obtain n1 where n1: "start (\<lambda>_. 10) (Inr 7) ?n = (Inr (), n1)" and f: "mailboxes n1 = []" "next_id n1 = 0"
    and c1: "\<exists>c. core n1 = Some c \<and> core_running c"
    by (simp add: start_def new_core_def core_start_def new_node_def parse_a)
  define n2 where "n2 = snd (register_actor (snd (new_mailbox 1 n1)) ''w'' (fst (new_mailbox 1 n1)))"
  have reach: "node_step\<^sup>*\<^sup>* ?n n2" unfolding n2_def
    using Start [OF n1] New_actor [of n1 1 "''w''"] by (meson r_into_rtranclp rtranclp_trans)
  from c1 have "core n2 \<noteq> None" "map_of (mailboxes n2) ''w'' = Some 0"
    by (auto simp: n2_def register_actor_def new_mailbox_def f core_register_actor_def require_def)
  with reach show ?thesis using node_tables_agree [OF reach] by blast
qed

end
