(* ===== verification/Ask.thy ===== *)
theory Ask
  imports Node_Loop
begin

text \<open>
  Requests and replies: \<^verbatim>\<open>_ask\<close> and \<^verbatim>\<open>_ask_stream\<close> of \<^verbatim>\<open>src/lapinbeam/refs.py\<close> and the replies of
  \<^verbatim>\<open>MessageMeta\<close> in \<^verbatim>\<open>src/lapinbeam/context.py\<close>. An ask is two pieces of code around its only
  suspension, the wait for the reply: the registration of a hidden mailbox and the send; then the
  reply or the timeout, and the clean-up. The process-wide counter of asks is the argument \<open>k\<close>.
\<close>

subsection \<open>Asking\<close>

definition STREAM_KEY :: string where
  "STREAM_KEY = ''__lapinbeam_stream__''"

definition ask_name :: "nat \<Rightarrow> string" where
  "ask_name k = ''__lapinbeam_ask_'' @ show_nat k @ ''__''"

text \<open>The \<^verbatim>\<open>finally\<close> clause; an exception of the clean-up replaces the result.\<close>

definition ask_cleanup :: "nat \<Rightarrow> 'a res \<times> node \<Rightarrow> 'a res \<times> node" where
  "ask_cleanup k = (\<lambda>(r, n).
     case unregister_actor n (ask_name k) of (Inl e, n') \<Rightarrow> (Inl e, n') | (Inr _, n') \<Rightarrow> (r, n'))"

definition ask_start :: "int \<Rightarrow> nat \<Rightarrow> node \<Rightarrow> actor_ref \<Rightarrow> pyval \<Rightarrow> nat res \<times> node" where
  "ask_start capacity k n ref msg =
     (case new_mailbox capacity n of (q, n1) \<Rightarrow>
        (case register_actor n1 (ask_name k) q of
           (Inl e, n2) \<Rightarrow> (Inl e, n2)
         | (Inr _, n2) \<Rightarrow>
            (case send n2 ref msg (Some (ask_name k)) (Some (int k)) of
               (Inl e, n3) \<Rightarrow> ask_cleanup k (Inl e, n3)
             | (Inr _, n3) \<Rightarrow> (Inr q, n3))))"

definition ask_finish :: "nat \<Rightarrow> nat \<Rightarrow> node \<Rightarrow> pyval res \<times> node" where
  "ask_finish k q n =
     (case get_item (queue_at n q) of
        None \<Rightarrow> ask_cleanup k (Inl (TimeoutError []), n)
      | Some ((reply, mt), x) \<Rightarrow> ask_cleanup k (Inr reply, n\<lparr>queues := dict_set q x (queues n)\<rparr>))"

subsection \<open>Replying\<close>

text \<open>A message without a source cannot be answered: the native call refuses the missing peer.\<close>

definition reply_with :: "node \<Rightarrow> meta \<Rightarrow> pyval \<Rightarrow> unit res \<times> node" where
  "reply_with n mt msg =
     (case m_reply_to mt of
        None \<Rightarrow> (Inl (RuntimeError ''message has no reply_to; nothing to reply to''), n)
      | Some name \<Rightarrow>
         (case m_src mt of
            None \<Rightarrow> (Inl (TypeError ''a string is expected''), n)
          | Some src \<Rightarrow>
              send n (if src = local_id n then ActorRef name else RemoteRef src name) msg None
                (m_correlation_id mt)))"

definition reply :: "node \<Rightarrow> meta \<Rightarrow> pyval \<Rightarrow> unit res \<times> node" where
  "reply n mt msg = reply_with n mt msg"

definition stream_envelope :: "bool \<Rightarrow> pyval \<Rightarrow> pyval" where
  "stream_envelope final msg =
     PDict [(STREAM_KEY, PStr (if final then ''final'' else ''item'')), (''value'', msg)]"

definition send_stream :: "node \<Rightarrow> meta \<Rightarrow> pyval \<Rightarrow> bool \<Rightarrow> unit res \<times> node" where
  "send_stream n mt msg final = reply_with n mt (stream_envelope final msg)"

definition reply_stream :: "node \<Rightarrow> meta \<Rightarrow> pyval \<Rightarrow> unit res \<times> node" where
  "reply_stream n mt msg = send_stream n mt msg False"

definition reply_final :: "node \<Rightarrow> meta \<Rightarrow> pyval \<Rightarrow> unit res \<times> node" where
  "reply_final n mt msg = send_stream n mt msg True"

subsection \<open>Reading a stream\<close>

text \<open>One turn of the loop of \<^verbatim>\<open>_ask_stream\<close>: the value to yield and whether it is the last one. Two
  hyphens stand for the dash of the error text.\<close>

definition bad_stream_reply :: exn where
  "bad_stream_reply = RuntimeError
     ''ask_stream() received a reply not sent via reply_stream()/reply_final() -- did the handler use current_message().reply() instead?''"

definition stream_item :: "pyval \<Rightarrow> (pyval \<times> bool) res" where
  "stream_item r =
     (case r of
        PDict d \<Rightarrow>
          (case map_of d STREAM_KEY of
             None \<Rightarrow> Inl bad_stream_reply
           | Some tag \<Rightarrow> res_bind (getitem r ''value'') (\<lambda>v. Inr (v, tag = PStr ''final'')))
      | _ \<Rightarrow> Inl bad_stream_reply)"

text \<open>The loop, on a mailbox that no more reply reaches: it yields values until the final one, an
  error or, when the mailbox is empty, the timeout; then it cleans up.\<close>

fun read_stream :: "message list \<Rightarrow> pyval list \<times> unit res \<times> message list" where
  "read_stream [] = ([], Inl (TimeoutError []), [])"
| "read_stream ((r, mt) # rest) =
     (case stream_item r of
        Inl e \<Rightarrow> ([], Inl e, rest)
      | Inr (v, final) \<Rightarrow>
          if final then ([v], Inr (), rest)
          else (case read_stream rest of (vs, res, left) \<Rightarrow> (v # vs, res, left)))"

definition ask_stream_finish :: "nat \<Rightarrow> nat \<Rightarrow> node \<Rightarrow> pyval list \<times> unit res \<times> node" where
  "ask_stream_finish k q n =
     (case read_stream (items (queue_at n q)) of (vs, res, left) \<Rightarrow>
        (vs, ask_cleanup k (res, n\<lparr>queues := dict_set q ((queue_at n q)\<lparr>items := left\<rparr>) (queues n)\<rparr>)))"

subsection \<open>A message on its way to another node\<close>

text \<open>What a node needs for a send to be accepted; the last frame that a node has sent arriving
  at another one, up to the end of the delivery it schedules there.\<close>

definition can_send :: "node \<Rightarrow> string \<Rightarrow> pyval \<Rightarrow> int option \<Rightarrow> bool" where
  "can_send n peer_id msg corr \<longleftrightarrow>
     (case core n of
        None \<Rightarrow> False
      | Some c \<Rightarrow> core_running c \<and> portable (codec_of n) msg \<and> u64_arg corr = Inr ()
         \<and> (case parse peer_id of Inl e \<Rightarrow> False | Inr p \<Rightarrow> p \<in> set (core_peers c) \<and> p \<notin> set (core_closed c))
         \<and> (case res_bind (encode_payload (codec_of n) msg) py_to_json of
              Inl e \<Rightarrow> False | Inr j \<Rightarrow> json_len c j \<le> MAX_FRAME_SIZE))"

definition arrive ::
  "node \<Rightarrow> nodeid \<Rightarrow> string \<Rightarrow> string \<Rightarrow> json \<Rightarrow> nat \<Rightarrow> string option \<Rightarrow> int option \<Rightarrow> node" where
  "arrive b from_peer src dst j i reply_to corr =
     (let b1 = route_data b from_peer src dst j i reply_to corr True
      in if length (tasks b1) = length (tasks b) then b1
         else run_task (last (tasks b1)) (b1\<lparr>tasks := butlast (tasks b1)\<rparr>))"

definition transfer :: "node \<Rightarrow> nodeid \<Rightarrow> node \<Rightarrow> node" where
  "transfer a from_peer b =
     (case core a of
        None \<Rightarrow> b
      | Some c \<Rightarrow> if core_out c = [] then b
          else case last (core_out c) of
                 Data_frame p dst j i reply_to corr \<Rightarrow> arrive b from_peer (local_id a) dst j i reply_to corr
               | Error_frame p detail i corr \<Rightarrow> b)"

definition remote_meta :: "node \<Rightarrow> string option \<Rightarrow> int option \<Rightarrow> meta" where
  "remote_meta a reply_to corr =
     \<lparr>m_src = Some (local_id a), m_reply_to = reply_to, m_correlation_id = corr,
      m_msg_id = map_option core_msg_id (core a)\<rparr>"

lemma arrive_delivers:
  assumes "node_wf b" "map_of (mailboxes b) name = Some q" "\<not> queue_full (queue_at b q)"
    "decode_payload (codec_of b) (json_to_py j) = Inr m"
  shows "arrive b f src name j i r k = b\<lparr>queues := dict_set q ((queue_at b q)\<lparr>items := items (queue_at b q)
     @ [(m, \<lparr>m_src = Some src, m_reply_to = r, m_correlation_id = k, m_msg_id = Some i\<rparr>)]\<rparr>) (queues b)\<rparr>"
proof -
  obtain c where c: "core b = Some c" using assms(1,2) by (cases "core b") (auto dest: node_wf_stopped)
  with assms(1,2) have "map_of (core_routing c) name = Some q" by (simp add: node_wf_routing)
  with c have "route_data b f src name j i r k True = b\<lparr>tasks := tasks b @ [Deliver_callback name q (json_to_py j)
      \<lparr>m_src = Some src, m_reply_to = r, m_correlation_id = k, m_msg_id = Some i\<rparr>]\<rparr>"
    by (simp add: route_data_def create_task_def)
  moreover have "b\<lparr>tasks := tasks b\<rparr> = b" by simp
  ultimately show ?thesis
    by (simp add: arrive_def Let_def deliver_callback_accepted [OF assms(4,3)])
qed

lemma can_sendD:
  assumes "can_send n peer_id msg corr"
  obtains c p e j where "core n = Some c" "core_running c" "portable (codec_of n) msg" "u64_arg corr = Inr ()"
    "parse peer_id = Inr p" "p \<in> set (core_peers c)" "p \<notin> set (core_closed c)"
    "encode_payload (codec_of n) msg = Inr e" "py_to_json e = Inr j" "json_len c j \<le> MAX_FRAME_SIZE"
    "decode_payload (codec_of n) (json_to_py j) = Inr (untuple msg)"
proof -
  from assms obtain c where c: "core n = Some c" and rest: "core_running c" "portable (codec_of n) msg"
    "u64_arg corr = Inr ()" by (auto simp: can_send_def split: option.splits)
  obtain e w where e: "encode_payload (codec_of n) msg = Inr e" "over_wire e = Inr w"
    "decode_payload (codec_of n) w = Inr (untuple msg)"
    using codec.send_accepted [OF rest(2)] by blast
  then obtain j where j: "py_to_json e = Inr j" "w = json_to_py j" by (auto simp: over_wire_def)
  show ?thesis using assms c rest e j by (auto simp: can_send_def split: sum.splits intro: that)
qed

lemma send_transfer:
  assumes "can_send a peer_id msg corr" "send_remote a peer_id name msg r corr = (res, a')"
  shows "res = Inr ()"
    "\<exists>c c'. core a = Some c \<and> a' = a\<lparr>core := Some c'\<rparr> \<and> core_local c' = core_local c
      \<and> core_routing c' = core_routing c \<and> core_running c'"
    "node_wf b \<Longrightarrow> codec_of b = codec_of a \<Longrightarrow> map_of (mailboxes b) name = Some q \<Longrightarrow> \<not> queue_full (queue_at b q) \<Longrightarrow>
     transfer a' f b = b\<lparr>queues := dict_set q ((queue_at b q)\<lparr>items := items (queue_at b q)
       @ [(untuple msg, remote_meta a r corr)]\<rparr>) (queues b)\<rparr>"
proof -
  from assms(1) obtain c p e j where c: "core a = Some c" "core_running c" "portable (codec_of a) msg"
    "u64_arg corr = Inr ()" "parse peer_id = Inr p" "p \<in> set (core_peers c)" "p \<notin> set (core_closed c)"
    "encode_payload (codec_of a) msg = Inr e" "py_to_json e = Inr j" "json_len c j \<le> MAX_FRAME_SIZE"
    "decode_payload (codec_of a) (json_to_py j) = Inr (untuple msg)" by (rule can_sendD)
  note s = send_remote_accepted [OF c(1,2,8,9,5,6,7,10,4), of name r]
  let ?a = "a\<lparr>core := Some (c\<lparr>core_msg_id := core_msg_id c + 1, core_out := core_out c
       @ [Data_frame p name j (core_msg_id c) r corr]\<rparr>)\<rparr>"
  from s assms(2) have a': "res = Inr ()" "a' = ?a" by simp_all
  then show "res = Inr ()" "\<exists>c c'. core a = Some c \<and> a' = a\<lparr>core := Some c'\<rparr> \<and> core_local c' = core_local c
      \<and> core_routing c' = core_routing c \<and> core_running c'" using c(1,2) by auto
  have id: "local_id ?a = local_id a" by (simp add: local_id_def c(1))
  assume b: "node_wf b" "codec_of b = codec_of a" "map_of (mailboxes b) name = Some q" "\<not> queue_full (queue_at b q)"
  with c(11) have "decode_payload (codec_of b) (json_to_py j) = Inr (untuple msg)" by simp
  from arrive_delivers [OF b(1,3,4) this, of f "local_id a" "core_msg_id c" r corr]
  show "transfer a' f b = b\<lparr>queues := dict_set q ((queue_at b q)\<lparr>items := items (queue_at b q)
       @ [(untuple msg, remote_meta a r corr)]\<rparr>) (queues b)\<rparr>"
    unfolding a'(2) by (simp add: transfer_def id [simplified]) (simp add: remote_meta_def c(1))
qed

subsection \<open>The pieces of an ask\<close>

text \<open>An ask that waits: its mailbox, of the capacity given, is registered and empty.\<close>

definition awaits :: "nat \<Rightarrow> nat \<Rightarrow> int \<Rightarrow> node \<Rightarrow> bool" where
  "awaits k q capacity n \<longleftrightarrow> map_of (mailboxes n) (ask_name k) = Some q \<and> queue_at n q = new_queue capacity"

definition registered :: "int \<Rightarrow> nat \<Rightarrow> node \<Rightarrow> node" where
  "registered capacity k n = snd (register_actor (snd (new_mailbox capacity n)) (ask_name k) (next_id n))"

lemma ask_registers:
  assumes "node_wf n" "core n = Some c" "map_of (mailboxes n) (ask_name k) = None"
  shows "ask_start capacity k n ref msg =
      (case send (registered capacity k n) ref msg (Some (ask_name k)) (Some (int k)) of
         (Inl e, n3) \<Rightarrow> ask_cleanup k (Inl e, n3) | (Inr _, n3) \<Rightarrow> (Inr (next_id n), n3))"
    "node_wf (registered capacity k n)" "awaits k (next_id n) capacity (registered capacity k n)"
    "mailboxes (registered capacity k n) = dict_set (ask_name k) (next_id n) (mailboxes n)"
    "queues (registered capacity k n) = dict_set (next_id n) (new_queue capacity) (queues n)"
    "codec_of (registered capacity k n) = codec_of n"
    "\<exists>c'. core (registered capacity k n) = Some c' \<and> c' = c\<lparr>core_routing := core_routing c'\<rparr>"
proof -
  have run: "core_running c" using node_wf_running assms(1,2) .
  have "register_actor (snd (new_mailbox capacity n)) (ask_name k) (next_id n)
      = (Inr (), registered capacity k n)"
    using assms run by (simp add: registered_def register_actor_def new_mailbox_def core_register_actor_def require_def)
  then show "ask_start capacity k n ref msg =
      (case send (registered capacity k n) ref msg (Some (ask_name k)) (Some (int k)) of
         (Inl e, n3) \<Rightarrow> ask_cleanup k (Inl e, n3) | (Inr _, n3) \<Rightarrow> (Inr (next_id n), n3))"
    by (simp add: ask_start_def new_mailbox_def)
  show "node_wf (registered capacity k n)" unfolding registered_def
    using node_wf_register [OF node_wf_new_mailbox [OF assms(1), of capacity]] by (simp add: new_mailbox_def)
  have "registered capacity k n = n\<lparr>next_id := next_id n + 1, queues := dict_set (next_id n) (new_queue capacity) (queues n),
      mailboxes := dict_set (ask_name k) (next_id n) (mailboxes n),
      core := Some (c\<lparr>core_routing := dict_set (ask_name k) (next_id n) (core_routing c)\<rparr>)\<rparr>"
    using assms run by (simp add: registered_def register_actor_def new_mailbox_def core_register_actor_def require_def)
  then show "awaits k (next_id n) capacity (registered capacity k n)"
    "mailboxes (registered capacity k n) = dict_set (ask_name k) (next_id n) (mailboxes n)"
    "queues (registered capacity k n) = dict_set (next_id n) (new_queue capacity) (queues n)"
    "codec_of (registered capacity k n) = codec_of n"
    "\<exists>c'. core (registered capacity k n) = Some c' \<and> c' = c\<lparr>core_routing := core_routing c'\<rparr>"
    by (simp_all add: awaits_def queue_at_def get_or_def)
qed

lemma cleanup_running:
  assumes "core n = Some c" "core_running c"
  shows "\<exists>n'. ask_cleanup k (r, n) = (r, n') \<and> mailboxes n' = dict_del (ask_name k) (mailboxes n) \<and> core n' \<noteq> None
    \<and> local_id n' = local_id n \<and> queues n' = queues n"
  using assms
  by (simp add: ask_cleanup_def unregister_actor_def core_unregister_actor_def require_def local_id_def)

text \<open>The end of an ask whose mailbox holds one reply, and of one whose mailbox is empty.\<close>

lemma finish_answered:
  assumes "core n = Some c" "core_running c" "items (queue_at n q) = [(answer, mt)]"
  shows "\<exists>n'. ask_finish k q n = (Inr answer, n') \<and> mailboxes n' = dict_del (ask_name k) (mailboxes n)"
proof -
  let ?n = "n\<lparr>queues := dict_set q ((queue_at n q)\<lparr>items := []\<rparr>) (queues n)\<rparr>"
  have "core ?n = Some c" using assms(1) by simp
  from cleanup_running [OF this assms(2), of k "Inr answer"] assms(3) show ?thesis
    by (auto simp: ask_finish_def get_item_def)
qed

lemma finish_timeout:
  assumes "core n = Some c" "core_running c" "items (queue_at n q) = []"
  shows "\<exists>n'. ask_finish k q n = (Inl (TimeoutError []), n') \<and> mailboxes n' = dict_del (ask_name k) (mailboxes n)
    \<and> local_id n' = local_id n"
  using cleanup_running [OF assms(1,2), of k "Inl (TimeoutError [])"] assms(3)
  by (auto simp: ask_finish_def get_item_def)

lemma send_local_accepted:
  assumes "map_of (mailboxes n) name = Some q" "\<not> queue_full (queue_at n q)"
  shows "send_local n name msg r k = (Inr (), n\<lparr>queues := dict_set q ((queue_at n q)\<lparr>items := items (queue_at n q)
     @ [(msg, local_meta n r k)]\<rparr>) (queues n)\<rparr>)"
proof -
  have "enqueue q (msg, local_meta n r k) n = Some (n\<lparr>queues := dict_set q ((queue_at n q)\<lparr>items :=
      items (queue_at n q) @ [(msg, local_meta n r k)]\<rparr>) (queues n)\<rparr>)"
    using assms(2) by (simp add: enqueue_Some)
  with assms(1) show ?thesis by (simp add: send_local_def)
qed

subsection \<open>Two connected nodes\<close>

definition peer_a :: nodeid where
  "peer_a = \<lparr>nid_name = ''a'', nid_host = ''h'', nid_port = 1\<rparr>"

definition demo_peer :: node where
  "demo_peer = (demo_started ''b'')\<lparr>core := Some ((demo_core ''b'')\<lparr>core_peers := [peer_a]\<rparr>)\<rparr>"

lemma local_id_a: "local_id (demo_started ''a'') = ''a@h:1''"
proof -
  have "show_nat (unat (1 :: 16 word)) = ''1''" by code_simp
  then show ?thesis by (simp add: local_id_def demo_core_def to_full_def address_def)
qed

lemma demo_peer_simps:
  "node_wf demo_peer" "codec_of demo_peer = sample_env" "mailboxes demo_peer = [(''w'', 0)]"
  "queue_at demo_peer 0 = new_queue 1" "local_id (demo_started ''a'') \<noteq> local_id demo_peer"
  "core demo_peer = Some ((demo_core ''b'')\<lparr>core_peers := [peer_a]\<rparr>)" "core_running (demo_core name)"
  "core_closed (demo_core name) = []" "json_len (demo_core name) j = 10"
  "parse (local_id (demo_started ''a'')) = Inr peer_a"
proof -
  show "node_wf demo_peer" unfolding demo_peer_def
    by (rule node_wf_core [where c = "demo_core ''b''"]) simp_all
  have "show_nat (unat (1 :: 16 word)) = ''1''" by code_simp
  then show "local_id (demo_started ''a'') \<noteq> local_id demo_peer"
    unfolding local_id_a by (simp add: demo_peer_def local_id_def demo_core_def to_full_def address_def)
  show "parse (local_id (demo_started ''a'')) = Inr peer_a" unfolding local_id_a
    by (simp add: parse_def split_once_def rsplit_once_def rpartition_def parse_u16_def digit_val_def peer_a_def)
qed (simp_all add: demo_peer_def demo_core_def queue_at_def demo_started_def new_node_def get_or_def)

subsection \<open>Properties of asks\<close>

lemma map_of_ask_removed:
  "map_of d k = None \<Longrightarrow> map_of (dict_del k (dict_set k v d)) = map_of d"
  by (rule ext) simp

lemma can_send_cong:
  assumes "core n = Some c" "core n' = Some c'" "codec_of n' = codec_of n" "core_running c' = core_running c"
    "core_peers c' = core_peers c" "core_closed c' = core_closed c" "json_len c' = json_len c"
  shows "can_send n' p m k = can_send n p m k"
  by (simp only: can_send_def assms option.case)

lemma node_wf_core_update: "node_wf n \<Longrightarrow> core n = Some c \<Longrightarrow> core_routing c' = core_routing c \<Longrightarrow> core_running c' \<Longrightarrow>
    node_wf (n\<lparr>core := Some c'\<rparr>)"
  by (rule node_wf_core) (simp_all add: node_wf_running)



text \<open>C27. A local request ends with its answer or its timeout, and a late answer is an error. The question
  is the last message of the actor with a return address; if the actor replies, the ask returns
  the reply; if the wait ends first, the ask raises \<^verbatim>\<open>TimeoutError\<close>. Either way no hidden mailbox is
  left, so a reply after the timeout raises \<^verbatim>\<open>ValueError\<close> in the actor that replies.\<close>

theorem ask_local_outcomes:
  assumes "node_wf n" and "core n = Some c" and "map_of (mailboxes n) (ask_name k) = None"
    and "map_of (mailboxes n) w = Some q" and "\<not> queue_full (queue_at n q)"
  shows "\<exists>q' n1 mt. ask_start 1 k n (ActorRef w) msg = (Inr q', n1)
    \<and> items (queue_at n1 q) = items (queue_at n q) @ [(msg, mt)]
    \<and> (\<exists>n2 n3. reply n1 mt answer = (Inr (), n2) \<and> ask_finish k q' n2 = (Inr answer, n3)
         \<and> map_of (mailboxes n3) = map_of (mailboxes n))
    \<and> (\<exists>n4. ask_finish k q' n1 = (Inl (TimeoutError []), n4) \<and> map_of (mailboxes n4) = map_of (mailboxes n)
         \<and> reply n4 mt answer = (Inl (ValueError (''no local actor named '' @ py_repr (ask_name k))), n4))"
proof -
  let ?n = "registered 1 k n" and ?q = "next_id n"
  note r = ask_registers [OF assms(1-3), where capacity = 1]
  obtain c' where c': "core ?n = Some c'" using r(7) by blast
  have run: "core_running c'" by (rule node_wf_running [OF r(2) c'])
  have ne: "w \<noteq> ask_name k" "q \<noteq> ?q"
    using assms(1,3,4) node_wf_mailbox_key [OF assms(1,4)] by (auto simp: node_wf_def queues_wf_def)
  let ?mt = "local_meta ?n (Some (ask_name k)) (Some (int k))"
  have q: "map_of (mailboxes ?n) w = Some q" "queue_at ?n q = queue_at n q"
    using ne assms(4) by (simp_all add: r(4,5) queue_at_def get_or_def)
  let ?n1 = "?n\<lparr>queues := dict_set q ((queue_at n q)\<lparr>items := items (queue_at n q) @ [(msg, ?mt)]\<rparr>) (queues ?n)\<rparr>"
  have start: "ask_start 1 k n (ActorRef w) msg = (Inr ?q, ?n1)"
    using r(1) [of "ActorRef w" msg] send_local_accepted [OF q(1)] q(2) assms(5) by simp
  have a1: "map_of (mailboxes ?n1) (ask_name k) = Some ?q" "queue_at ?n1 ?q = new_queue 1"
    using r(3) ne by (simp_all add: awaits_def)
  let ?n2 = "?n1\<lparr>queues := dict_set ?q ((new_queue 1)\<lparr>items := [(answer, local_meta ?n1 None (Some (int k)))]\<rparr>) (queues ?n1)\<rparr>"
  have rep: "reply ?n1 ?mt answer = (Inr (), ?n2)"
    using send_local_accepted [OF a1(1), of answer None "Some (int k)"] a1(2)
    by (simp add: reply_def reply_with_def local_meta_def new_queue_def queue_full_def)
  have gone: "map_of (dict_del (ask_name k) (mailboxes ?n)) = map_of (mailboxes n)"
    by (simp only: r(4) map_of_ask_removed [OF assms(3)])
  have i2: "core ?n2 = Some c'" "items (queue_at ?n2 ?q) = [(answer, local_meta ?n1 None (Some (int k)))]"
    using c' by (simp_all add: queue_at_def)
  obtain n3 where n3: "ask_finish k ?q ?n2 = (Inr answer, n3)" "mailboxes n3 = dict_del (ask_name k) (mailboxes ?n)"
    using finish_answered [OF i2(1) run i2(2), of k] by auto
  obtain n4 where n4: "ask_finish k ?q ?n1 = (Inl (TimeoutError []), n4)"
    "mailboxes n4 = dict_del (ask_name k) (mailboxes ?n)" "local_id n4 = local_id ?n1"
    using finish_timeout [of ?n1 c' ?q k] c' run a1(2) by (auto simp: new_queue_def)
  have "map_of (mailboxes n4) (ask_name k) = None" by (simp only: n4(2) gone assms(3))
  then have late: "reply n4 ?mt answer = (Inl (ValueError (''no local actor named '' @ py_repr (ask_name k))), n4)"
    by (simp add: reply_def reply_with_def local_meta_def send_local_def n4(3))
  have "items (queue_at ?n1 q) = items (queue_at n q) @ [(msg, ?mt)]" by simp
  with start rep n3 n4 late gone show ?thesis by metis
qed

theorem ask_local_outcomes_witness:
  "\<exists>q' n1. ask_start 1 7 (demo_started ''a'') (ActorRef ''w'') sample_msg = (Inr q', n1)
     \<and> (\<exists>n4. ask_finish 7 q' n1 = (Inl (TimeoutError []), n4))"
proof -
  have free: "map_of (mailboxes (demo_started ''a'')) (ask_name 7) = None" by (simp add: ask_name_def)
  have w: "map_of (mailboxes (demo_started ''a'')) ''w'' = Some 0" "\<not> queue_full (queue_at (demo_started ''a'') 0)"
    by (simp_all add: new_queue_def queue_full_def)
  show ?thesis
    using ask_local_outcomes [OF demo_started_wf demo_started_simps(1) free w, of sample_msg PNone] by blast
qed

subsection \<open>Property of streams\<close>

lemma stream_item_envelope: "stream_item (stream_envelope final v) = Inr (v, final)"
  by (simp add: stream_item_def stream_envelope_def STREAM_KEY_def)

lemma read_stream_items:
  "read_stream (map (\<lambda>v. (stream_envelope False v, mt)) vs @ (stream_envelope True f, mt') # rest)
     = (vs @ [f], Inr (), rest)"
  by (induction vs) (simp_all add: stream_item_envelope)

lemma untuple_envelope: "untuple (stream_envelope final v) = stream_envelope final (untuple v)"
  by (simp add: stream_envelope_def)

lemma streamed_replies:
  assumes "map_of (mailboxes n) name = Some q" "maxsize (queue_at n q) = 0" "m_reply_to mt = Some name"
    "m_src mt = Some (local_id n)"
  shows "let m = fold (\<lambda>v m. snd (reply_stream m mt v)) vs n in mailboxes m = mailboxes n \<and> core m = core n
    \<and> local_id m = local_id n \<and> queue_at m q = (queue_at n q)\<lparr>items := items (queue_at n q)
         @ map (\<lambda>v. (stream_envelope False v, local_meta n None (m_correlation_id mt))) vs\<rparr>"
  using assms
proof (induction vs arbitrary: n)
  case (Cons v vs)
  let ?m = "snd (reply_stream n mt v)"
  have m: "?m = n\<lparr>queues := dict_set q ((queue_at n q)\<lparr>items := items (queue_at n q)
     @ [(stream_envelope False v, local_meta n None (m_correlation_id mt))]\<rparr>) (queues n)\<rparr>"
    using Cons.prems send_local_accepted [OF Cons.prems(1)]
    by (simp add: reply_stream_def send_stream_def reply_with_def queue_full_def)
  have l: "local_meta ?m r k = local_meta n r k" for r k by (simp add: m local_meta_def)
  show ?case using Cons.IH [of ?m] Cons.prems unfolding l by (simp add: m Let_def)
qed simp



end
