(* ===== verification/Cluster.thy ===== *)
theory Cluster
  imports Ask Supervisor_Laws "HOL-Library.Char_ord" "HOL-Library.List_Lexorder"
begin

text \<open>
  Setting up a node for the cluster and joining one: the \<^verbatim>\<open>register_...\<close> functions of the cluster
  modules, which install their listeners and spawn their reserved actors, and
  \<^verbatim>\<open>src/lapinbeam/discovery.py\<close>, its actor and the breadth-first search of \<^verbatim>\<open>join_via_seeds\<close>.
\<close>

subsection \<open>Registration\<close>

definition register_groups :: "sys \<Rightarrow> nat res \<times> sys" where
  "register_groups = (\<lambda>(n, s).
     spawn GROUPS_ACTOR (on_event (n\<lparr>group_peers := Some []\<rparr>) Groups_listener \<lparr>group_leave_hook := True\<rparr>, s))"

definition register_registry :: "sys \<Rightarrow> nat res \<times> sys" where
  "register_registry = (\<lambda>(n, s).
     spawn REGISTRY_ACTOR
       (on_event (n\<lparr>registry_peers := Some []\<rparr>) Registry_listener \<lparr>registry_release_hook := True\<rparr>, s))"

definition register_links :: "sys \<Rightarrow> nat res \<times> sys" where
  "register_links = spawn LINK_ACTOR"

definition register_monitors :: "sys \<Rightarrow> nat res \<times> sys" where
  "register_monitors = spawn MONITOR_ACTOR"

definition DISCOVERY_ACTOR :: string where
  "DISCOVERY_ACTOR = ''discovery''"

definition register_discovery :: "sys \<Rightarrow> nat res \<times> sys" where
  "register_discovery = (\<lambda>(n, s).
     spawn DISCOVERY_ACTOR (on_event (n\<lparr>known_peers := [local_id n]\<rparr>) Discovery_listener, s))"

subsection \<open>The discovery actor\<close>

definition who_do_you_know :: pyval where
  "who_do_you_know = PDict [(''type'', PStr ''WHO_DO_YOU_KNOW'')]"

definition discovery_receive :: "node \<Rightarrow> meta \<Rightarrow> pyval \<Rightarrow> unit res \<times> node" where
  "discovery_receive n mt msg =
     (case msg of
        PDict d \<Rightarrow>
          if map_of d ''type'' = Some (PStr ''WHO_DO_YOU_KNOW'')
          then reply n mt (PDict [(''peers'', PList (map PStr (sort (known_peers n))))])
          else (Inr (), n)
      | _ \<Rightarrow> (Inl (AttributeError ''object has no attribute get''), n))"

subsection \<open>Joining\<close>

text \<open>
  \<open>contact\<close> is what the cluster answers: for each peer, the reply to the question after a
  successful connection, or the exception of either. A peer is contacted at most once.
\<close>

fun as_strs :: "pyval list \<Rightarrow> string list res" where
  "as_strs [] = Inr []"
| "as_strs (v # vs) = res_bind (as_str v) (\<lambda>s. res_bind (as_strs vs) (\<lambda>ss. Inr (s # ss)))"

definition reply_peers :: "pyval \<Rightarrow> string list res" where
  "reply_peers r = res_bind (res_bind (getitem r ''peers'') as_elems) as_strs"

definition unreachable :: "exn \<Rightarrow> bool" where
  "unreachable e \<longleftrightarrow> exn_type e \<in> {''ConnectionError'', ''TimeoutError''}"

type_synonym contact = "string \<Rightarrow> pyval res"

fun visit_frontier :: "contact \<Rightarrow> string list \<Rightarrow> string list \<Rightarrow> string list \<Rightarrow> string list
    \<Rightarrow> (string list \<times> string list \<times> string list) res" where
  "visit_frontier contact [] visited joined next_frontier = Inr (visited, joined, next_frontier)"
| "visit_frontier contact (peer # rest) visited joined next_frontier =
     (if peer \<in> set visited then visit_frontier contact rest visited joined next_frontier
      else let visited' = set_add peer visited
           in case contact peer of
                Inl e \<Rightarrow> if unreachable e then visit_frontier contact rest visited' joined next_frontier
                          else Inl e
              | Inr r \<Rightarrow>
                 (case reply_peers r of
                    Inl e \<Rightarrow> Inl e
                  | Inr candidates \<Rightarrow>
                      visit_frontier contact rest visited' (set_add peer joined)
                        (next_frontier @ filter (\<lambda>c. c \<notin> set visited') candidates)))"

partial_function (option) join_loop ::
  "contact \<Rightarrow> string list \<Rightarrow> string list \<Rightarrow> string list \<Rightarrow> string list res option" where
  "join_loop contact frontier visited joined =
     (if frontier = [] then Some (Inr joined)
      else case visit_frontier contact frontier visited joined [] of
             Inl e \<Rightarrow> Some (Inl e)
           | Inr (visited', joined', next_frontier) \<Rightarrow> join_loop contact next_frontier visited' joined')"

definition join_via_seeds :: "contact \<Rightarrow> string \<Rightarrow> string list \<Rightarrow> string list res option" where
  "join_via_seeds contact me seeds = join_loop contact (filter (\<lambda>s. s \<notin> set [me]) seeds) [me] []"

subsection \<open>What there is to discover\<close>

definition answers :: "contact \<Rightarrow> string \<Rightarrow> string list option" where
  "answers contact p = (case res_bind (contact p) reply_peers of Inl e \<Rightarrow> None | Inr cs \<Rightarrow> Some cs)"

definition orderly :: "contact \<Rightarrow> string \<Rightarrow> bool" where
  "orderly contact p = (case contact p of Inl e \<Rightarrow> unreachable e
     | Inr r \<Rightarrow> (case reply_peers r of Inl e \<Rightarrow> False | Inr cs \<Rightarrow> True))"

inductive discovered :: "contact \<Rightarrow> string \<Rightarrow> string list \<Rightarrow> string \<Rightarrow> bool"
  for contact me seeds where
  seed: "s \<in> set seeds \<Longrightarrow> s \<noteq> me \<Longrightarrow> discovered contact me seeds s"
| told: "discovered contact me seeds p \<Longrightarrow> answers contact p = Some cs \<Longrightarrow> c \<in> set cs \<Longrightarrow> c \<noteq> me \<Longrightarrow>
    discovered contact me seeds c"

text \<open>The invariant of the search: \<open>F\<close> is what is still to be visited.\<close>

definition searching :: "contact \<Rightarrow> string \<Rightarrow> string list \<Rightarrow> string list \<Rightarrow> string list \<Rightarrow> string list \<Rightarrow> bool" where
  "searching contact me seeds F visited joined \<longleftrightarrow>
     me \<in> set visited \<and> (\<forall>p \<in> set F. discovered contact me seeds p \<or> p \<in> set visited)
     \<and> (\<forall>p \<in> set visited. p = me \<or> discovered contact me seeds p)
     \<and> distinct joined \<and> set joined = {p \<in> set visited. p \<noteq> me \<and> answers contact p \<noteq> None}
     \<and> (\<forall>s \<in> set seeds. s \<in> set visited \<or> s \<in> set F)
     \<and> (\<forall>p \<in> set joined. \<forall>cs. answers contact p = Some cs \<longrightarrow> set cs \<subseteq> set visited \<union> set F)"

lemma searchingD:
  assumes "searching contact me seeds F visited joined"
  shows "me \<in> set visited" "p \<in> set F \<Longrightarrow> discovered contact me seeds p \<or> p \<in> set visited"
    "p \<in> set visited \<Longrightarrow> p = me \<or> discovered contact me seeds p" "distinct joined"
    "set joined = {p \<in> set visited. p \<noteq> me \<and> answers contact p \<noteq> None}"
    "p \<in> set seeds \<Longrightarrow> p \<in> set visited \<or> p \<in> set F"
    "p \<in> set joined \<Longrightarrow> answers contact p = Some cs \<Longrightarrow> set cs \<subseteq> set visited \<union> set F"
  using assms unfolding searching_def by blast+

lemma searching_skip:
  assumes "searching contact me seeds (p # F) visited joined" "p \<in> set visited"
  shows "searching contact me seeds F visited joined"
  unfolding searching_def
proof (intro conjI ballI allI impI)
  show "set joined = {p \<in> set visited. p \<noteq> me \<and> answers contact p \<noteq> None}" using searchingD(5) [OF assms(1)] .
  show "x \<in> set visited \<or> x \<in> set F" if "x \<in> set seeds" for x
    using searchingD(6) [OF assms(1) that] assms(2) by auto
  show "set cs \<subseteq> set visited \<union> set F" if "x \<in> set joined" "answers contact x = Some cs" for x cs
    using searchingD(7) [OF assms(1) that] assms(2) by auto
qed (use searchingD(1-4) [OF assms(1)] in auto)

lemma searching_unreachable:
  assumes "searching contact me seeds (p # F) visited joined" "p \<notin> set visited" "answers contact p = None"
  shows "searching contact me seeds F (set_add p visited) joined"
  unfolding searching_def
proof (intro conjI ballI allI impI)
  show "set joined = {q \<in> set (set_add p visited). q \<noteq> me \<and> answers contact q \<noteq> None}"
    unfolding searchingD(5) [OF assms(1)] using assms(3) by (auto simp del: not_None_eq)
  show "x = me \<or> discovered contact me seeds x" if "x \<in> set (set_add p visited)" for x
    using searchingD(3) [OF assms(1), of x] searchingD(2) [OF assms(1), of p] assms(2) that by auto
  show "x \<in> set (set_add p visited) \<or> x \<in> set F" if "x \<in> set seeds" for x
    using searchingD(6) [OF assms(1) that] by auto
  show "set cs \<subseteq> set (set_add p visited) \<union> set F" if "x \<in> set joined" "answers contact x = Some cs" for x cs
    using searchingD(7) [OF assms(1) that] by auto
  show "discovered contact me seeds x \<or> x \<in> set (set_add p visited)" if "x \<in> set F" for x
    using searchingD(2) [OF assms(1), of x] that by auto
qed (use searchingD(1,4) [OF assms(1)] in simp_all)

lemma searching_answer:
  assumes "searching contact me seeds (p # F) visited joined" "p \<notin> set visited" "answers contact p = Some cs"
  shows "searching contact me seeds (F @ filter (\<lambda>c. c \<notin> set (set_add p visited)) cs) (set_add p visited) (set_add p joined)"
proof -
  have me: "me \<in> set visited" "p \<noteq> me" and p: "discovered contact me seeds p"
    using searchingD(1) [OF assms(1)] searchingD(2) [OF assms(1), of p] assms(2) by auto
  have told: "discovered contact me seeds c" if "c \<in> set cs" "c \<notin> set visited" for c
    using told [OF p assms(3) that(1)] that(2) me by blast
  show ?thesis unfolding searching_def
  proof (intro conjI ballI allI impI)
    show "set (set_add p joined) = {q \<in> set (set_add p visited). q \<noteq> me \<and> answers contact q \<noteq> None}"
      using assms(3) me by (auto simp: searchingD(5) [OF assms(1)] simp del: not_None_eq)
    show "distinct (set_add p joined)" using searchingD(4) [OF assms(1)] by (simp add: set_add_def)
    show "x = me \<or> discovered contact me seeds x" if "x \<in> set (set_add p visited)" for x
      using searchingD(3) [OF assms(1), of x] p that by auto
    show "discovered contact me seeds x \<or> x \<in> set (set_add p visited)"
      if "x \<in> set (F @ filter (\<lambda>c. c \<notin> set (set_add p visited)) cs)" for x
      using searchingD(2) [OF assms(1), of x] told that by auto
    show "x \<in> set (set_add p visited) \<or> x \<in> set (F @ filter (\<lambda>c. c \<notin> set (set_add p visited)) cs)"
      if "x \<in> set seeds" for x using searchingD(6) [OF assms(1) that] by auto
    show "set ds \<subseteq> set (set_add p visited) \<union> set (F @ filter (\<lambda>c. c \<notin> set (set_add p visited)) cs)"
      if "x \<in> set (set_add p joined)" "answers contact x = Some ds" for x ds
      using searchingD(7) [OF assms(1), of x ds] assms(3) that by auto
  qed (use me in auto)
qed

subsection \<open>The search ends and finds everything\<close>

lemma searching_cong: "set F = set G \<Longrightarrow> searching contact me seeds F v j = searching contact me seeds G v j"
  by (simp add: searching_def)

lemma visit_searching:
  "searching contact me seeds (fr @ nx) visited joined \<Longrightarrow> \<forall>p \<in> set fr. p \<in> set visited \<or> orderly contact p \<Longrightarrow>
   visit_frontier contact fr visited joined nx = Inr (visited', joined', nx') \<Longrightarrow>
   searching contact me seeds nx' visited' joined'"
proof (induction contact fr visited joined nx rule: visit_frontier.induct)
  case (2 contact p rest visited joined nx)
  note F = 2(4)
  show ?case
  proof (cases "p \<in> set visited")
    case True
    with F have "searching contact me seeds (rest @ nx) visited joined" using searching_skip by simp
    with 2(1) True 2(5,6) show ?thesis by simp
  next
    case False
    then have ok: "orderly contact p" using 2(5) by simp
    show ?thesis
    proof (cases "contact p")
      case (Inl e)
      then have "unreachable e" "answers contact p = None" using ok by (simp_all add: orderly_def answers_def)
      with F False have "searching contact me seeds (rest @ nx) (set_add p visited) joined"
        using searching_unreachable by simp
      with 2(2) [OF False refl Inl \<open>unreachable e\<close>] 2(5,6) False Inl \<open>unreachable e\<close> show ?thesis
        by (simp add: Let_def)
    next
      case (Inr r)
      then obtain cs where cs: "reply_peers r = Inr cs" "answers contact p = Some cs"
        using ok by (auto simp: orderly_def answers_def split: sum.splits)
      let ?new = "filter (\<lambda>c. c \<notin> set (set_add p visited)) cs"
      have "searching contact me seeds ((rest @ nx) @ ?new) (set_add p visited) (set_add p joined)"
        using F False cs(2) by (intro searching_answer) simp_all
      then have "searching contact me seeds (rest @ nx @ ?new) (set_add p visited) (set_add p joined)"
        by (simp only: append_assoc)
      with 2(3) [OF False refl Inr cs(1)] 2(5,6) False Inr cs(1) show ?thesis by (simp add: Let_def)
    qed
  qed
qed simp

lemma visit_returns:
  "\<forall>p \<in> set fr. p \<in> set visited \<or> orderly contact p \<Longrightarrow> \<exists>x. visit_frontier contact fr visited joined nx = Inr x"
proof (induction contact fr visited joined nx rule: visit_frontier.induct)
  case (2 contact p rest visited joined nx)
  then show ?case by (auto simp: Let_def orderly_def split: sum.split sum.splits)
qed simp

text \<open>The peers are taken from a set that no answer leaves. A pass either visits a new one or leaves
  nothing to visit.\<close>

definition closed_under :: "contact \<Rightarrow> string set \<Rightarrow> bool" where
  "closed_under contact U \<longleftrightarrow> (\<forall>p \<in> U. \<forall>cs. answers contact p = Some cs \<longrightarrow> set cs \<subseteq> U)"

lemma visit_bounded:
  "set fr \<subseteq> U \<Longrightarrow> set nx \<subseteq> U \<Longrightarrow> closed_under contact U \<Longrightarrow>
   visit_frontier contact fr visited joined nx = Inr (visited', joined', nx') \<Longrightarrow>
   set nx' \<subseteq> U \<and> set visited \<subseteq> set visited' \<and> (nx' = nx \<or> (\<exists>p \<in> U. p \<in> set visited' \<and> p \<notin> set visited))"
proof (induction contact fr visited joined nx rule: visit_frontier.induct)
  case (2 contact p rest visited joined nx)
  show ?case
  proof (cases "p \<in> set visited")
    case True
    with 2 show ?thesis by simp
  next
    case False
    show ?thesis
    proof (cases "contact p")
      case (Inl e)
      with False 2(7) have "unreachable e" by (auto simp: Let_def split: if_splits)
      with 2(2) [OF False refl Inl] 2(4-7) False Inl show ?thesis by (auto simp: Let_def)
    next
      case (Inr r)
      with False 2(7) obtain cs where cs: "reply_peers r = Inr cs" by (auto simp: Let_def split: sum.splits)
      with Inr have a: "answers contact p = Some cs" by (simp add: answers_def)
      with 2(4,6) have "set cs \<subseteq> U" unfolding closed_under_def by auto
      then have new: "set (nx @ filter (\<lambda>c. c \<notin> set (set_add p visited)) cs) \<subseteq> U" using 2(5) by auto
      have "set nx' \<subseteq> U \<and> set (set_add p visited) \<subseteq> set visited'"
        using 2(3) [OF False refl Inr cs _ new 2(6)] 2(4,7) False Inr cs by (simp add: Let_def)
      with 2(4) False show ?thesis by auto
    qed
  qed
qed simp

lemma join_loop_ends:
  assumes "finite U" "closed_under contact U" "set frontier \<subseteq> U"
  shows "\<exists>r. join_loop contact frontier visited joined = Some r"
  using assms(3)
proof (induction "card (U - set visited)" arbitrary: frontier visited joined rule: less_induct)
  case less
  show ?case
  proof (cases "visit_frontier contact frontier visited joined []")
    case (Inl e)
    then show ?thesis by (subst join_loop.simps) simp
  next
    case (Inr x)
    obtain v j nx where x: "x = (v, j, nx)" using prod_cases3 by blast
    note b = visit_bounded [OF less.prems _ assms(2) Inr [unfolded x], simplified]
    have step: "join_loop contact frontier visited joined = (if frontier = [] then Some (Inr joined) else join_loop contact nx v j)"
      by (subst join_loop.simps) (simp add: Inr x)
    show ?thesis
    proof (cases "nx = []")
      case True
      then show ?thesis unfolding step by (subst join_loop.simps) simp
    next
      case False
      with b have "U - set v \<subset> U - set visited" by blast
      then have "card (U - set v) < card (U - set visited)" using assms(1) by (simp add: psubset_card_mono)
      from less.hyps [OF this] b show ?thesis unfolding step by simp
    qed
  qed
qed

lemma join_loop_finds:
  assumes "finite U" "closed_under contact U" "\<forall>p \<in> U. orderly contact p"
    and "set frontier \<subseteq> U" "searching contact me seeds frontier visited joined"
  shows "\<exists>r v. join_loop contact frontier visited joined = Some (Inr r) \<and> searching contact me seeds [] v r"
  using assms(4,5)
proof (induction "card (U - set visited)" arbitrary: frontier visited joined rule: less_induct)
  case less
  have "\<exists>x. visit_frontier contact frontier visited joined [] = Inr x"
    using less.prems(1) assms(3) by (intro visit_returns) blast
  then obtain v j nx where x: "visit_frontier contact frontier visited joined [] = Inr (v, j, nx)"
    using prod_cases3 by metis
  note b = visit_bounded [OF less.prems(1) _ assms(2) x, simplified]
  have s: "searching contact me seeds nx v j"
    using visit_searching [OF _ _ x, of me seeds] less.prems assms(3) by auto
  show ?case
  proof (cases "frontier = []")
    case True
    with less.prems(2) show ?thesis by (subst join_loop.simps) auto
  next
    case False
    then have step: "join_loop contact frontier visited joined = join_loop contact nx v j"
      by (subst join_loop.simps) (simp add: x)
    show ?thesis
    proof (cases "nx = []")
      case True
      with s show ?thesis unfolding step by (subst join_loop.simps) auto
    next
      case False
      with b have "U - set v \<subset> U - set visited" by blast
      then have "card (U - set v) < card (U - set visited)" using assms(1) by (simp add: psubset_card_mono)
      from less.hyps [OF this] b s show ?thesis unfolding step by simp
    qed
  qed
qed

lemma searching_done:
  assumes "searching contact me seeds [] visited joined"
  shows "set joined = {p. discovered contact me seeds p \<and> answers contact p \<noteq> None}"
proof -
  have "p \<in> set visited \<and> p \<noteq> me" if "discovered contact me seeds p" for p
    using that
  proof (induction rule: discovered.induct)
    case (seed s)
    then show ?case using searchingD(6) [OF assms] by auto
  next
    case (told p cs c)
    then have "p \<in> set joined" using searchingD(5) [OF assms] by auto
    with told show ?case using searchingD(7) [OF assms, of p cs] by auto
  qed
  then show ?thesis using searchingD(3) [OF assms] unfolding searchingD(5) [OF assms] by blast
qed

lemma join_searched:
  assumes "finite U" "set seeds \<subseteq> U" "closed_under contact U" "\<forall>p \<in> U. orderly contact p"
  obtains r v where "join_via_seeds contact me seeds = Some (Inr r)" "searching contact me seeds [] v r"
proof -
  have "searching contact me seeds (filter (\<lambda>s. s \<notin> set [me]) seeds) [me] []"
    by (auto simp: searching_def intro: seed)
  moreover have "set (filter (\<lambda>s. s \<notin> set [me]) seeds) \<subseteq> U" using assms(2) by auto
  ultimately show thesis
    using join_loop_finds [OF assms(1,3,4)] that unfolding join_via_seeds_def by blast
qed

subsection \<open>Properties of joining\<close>


text \<open>A cluster of three nodes, one of them down, and the search from a fourth.\<close>

definition demo_contact :: contact where
  "demo_contact p =
     (if p = ''b'' then Inr (PDict [(''peers'', PList [PStr ''b'', PStr ''c'', PStr ''d'', PStr ''a''])])
      else if p = ''c'' then Inr (PDict [(''peers'', PList [PStr ''b''])])
      else Inl (ConnectionError ''failed to connect''))"


text \<open>One peer can spoil the join. An exception of any other kind ends \<^verbatim>\<open>join_via_seeds\<close> with that
  exception, even after other peers have been joined: a seed that is not a valid id, or a
  peer whose connection drops between the connection and the question, for which the send
  raises \<^verbatim>\<open>ValueError\<close>, is not treated as unreachable.\<close>

lemma join_spoiled:
  assumes "contact p = Inr r" and "reply_peers r = Inr []" and "contact p' = Inl e" and "\<not> unreachable e"
    and "p \<noteq> p'" and "p \<noteq> me" and "p' \<noteq> me"
  shows "join_via_seeds contact me [p, p', p''] = Some (Inl e)"
  using assms
  by (cases "p'' = me") (simp_all add: join_via_seeds_def join_loop.simps [of contact "_ # _"] set_add_def Let_def)

subsection \<open>Setting up\<close>

lemma spawn_registers:
  assumes "core n = Some c" "core_running c" "map_of (mailboxes n) name = None"
  shows "\<exists>i n' s'. spawn name (n, s) = (Inr i, (n', s')) \<and> map_of (mailboxes n') name = Some (next_id n)
    \<and> event_listeners n' = event_listeners n \<and> map_of (phases s') i = Some New \<and> i \<in> set (sup_children s')"
  using assms
  by (simp add: spawn_def new_mailbox_def register_actor_def core_register_actor_def require_def Let_def)

end
