(* ===== verification/Actor.thy ===== *)
theory Actor
  imports Py_Values
begin

text \<open>
  Actor classes: the decorators \<^verbatim>\<open>@actor\<close> and \<^verbatim>\<open>@on\<close> of \<^verbatim>\<open>src/lapinbeam/actor.py\<close> and the choice of
  the handler for a message, which \<^verbatim>\<open>Supervisor._drive\<close> and the pool's
  \<^verbatim>\<open>_dispatch_to_instance\<close> share.

  A class is its name and its attributes in the order of \<^verbatim>\<open>dir(cls)\<close>, each with the mark
  \<^verbatim>\<open>__lapinbeam_on__\<close> that \<^verbatim>\<open>@on\<close> left on it, if any. Attribute names are unique, as they are in
  \<^verbatim>\<open>dir\<close>.
\<close>

record on_spec =
  spec_type :: "pycls option"
  spec_default :: bool

text \<open>\<^verbatim>\<open>on(msg_type, default=...)\<close>: the type None stands for the sentinel \<^verbatim>\<open>_UNSET\<close>.\<close>

definition on :: "pycls option \<Rightarrow> bool \<Rightarrow> on_spec res" where
  "on msg_type dflt =
     (if \<not> dflt \<and> msg_type = None
      then Inl (TypeError ''on() requires a message type, e.g. on(Task), or on(default=True)'')
      else if dflt \<and> msg_type \<noteq> None
      then Inl (TypeError ''on(msg_type) and on(default=True) are mutually exclusive'')
      else Inr \<lparr>spec_type = msg_type, spec_default = dflt\<rparr>)"

record actor_class =
  class_name :: string
  class_attrs :: "(string \<times> on_spec option) list"

record actor_meta =
  meta_name :: string
  handlers :: "(pycls, string) dict"
  default_handler :: "string option"

text \<open>The loop of \<^verbatim>\<open>_build_metadata\<close> over \<^verbatim>\<open>dir(cls)\<close>.\<close>

fun build_handlers ::
  "string \<Rightarrow> (string \<times> on_spec option) list \<Rightarrow> (pycls, string) dict \<Rightarrow> string option
   \<Rightarrow> ((pycls, string) dict \<times> string option) res" where
  "build_handlers cn [] hs dh = Inr (hs, dh)"
| "build_handlers cn ((attr_name, None) # attrs) hs dh = build_handlers cn attrs hs dh"
| "build_handlers cn ((attr_name, Some spec) # attrs) hs dh =
     (if spec_default spec then
        (case dh of
           Some d \<Rightarrow> Inl (TypeError (cn @ '' defines more than one @on(default=True) handler (''
                       @ py_repr d @ '' and '' @ py_repr attr_name @ '')''))
         | None \<Rightarrow> build_handlers cn attrs hs (Some attr_name))
      else
        (case spec_type spec of
           None \<Rightarrow> Inl (TypeError ''unset message type'')
         | Some t \<Rightarrow>
            (case map_of hs t of
               Some h \<Rightarrow> Inl (TypeError (cn @ '' defines more than one @on handler for ''
                           @ cls_qualname t @ '' ('' @ py_repr h @ '' and '' @ py_repr attr_name @ '')''))
             | None \<Rightarrow> build_handlers cn attrs (dict_set t attr_name hs) dh)))"

definition build_metadata :: "actor_class \<Rightarrow> string \<Rightarrow> actor_meta res" where
  "build_metadata cls name =
     res_bind (build_handlers (class_name cls) (class_attrs cls) [] None)
       (\<lambda>(hs, dh). Inr \<lparr>meta_name = name, handlers = hs, default_handler = dh\<rparr>)"

text \<open>\<^verbatim>\<open>@actor\<close>, \<^verbatim>\<open>@actor()\<close> and \<^verbatim>\<open>@actor(name=...)\<close>: an absent or empty name is the class name.\<close>

definition actor :: "string option \<Rightarrow> actor_class \<Rightarrow> actor_meta res" where
  "actor name cls =
     build_metadata cls (case name of None \<Rightarrow> class_name cls
                         | Some n \<Rightarrow> if n = [] then class_name cls else n)"

definition actor_name :: "actor_meta \<Rightarrow> string" where
  "actor_name m = meta_name m"

text \<open>The attribute that handles a message of type \<open>t\<close>, or the exception the dispatch raises.\<close>

definition dispatch :: "actor_class \<Rightarrow> actor_meta \<Rightarrow> pycls \<Rightarrow> string res" where
  "dispatch cls m t =
     (if handlers m = [] then
        (if ''receive'' \<in> set (keys (class_attrs cls)) then Inr ''receive''
         else Inl (AttributeError (''no attribute '' @ py_repr ''receive'')))
      else
        (case (case map_of (handlers m) t of Some h \<Rightarrow> Some h | None \<Rightarrow> default_handler m) of
           None \<Rightarrow> Inl (TypeError (class_name cls @ '' has no @on handler for '' @ cls_qualname t
                     @ '' messages and no @on(default=True) fallback''))
         | Some h \<Rightarrow> Inr h))"

subsection \<open>What the metadata says\<close>

text \<open>The marks a class carries: typed marks and default marks, as \<^verbatim>\<open>@on\<close> makes them.\<close>

definition typed_mark :: "(string \<times> on_spec option) list \<Rightarrow> pycls \<Rightarrow> string \<Rightarrow> bool" where
  "typed_mark attrs t a \<longleftrightarrow> (a, Some \<lparr>spec_type = Some t, spec_default = False\<rparr>) \<in> set attrs"

definition default_mark :: "(string \<times> on_spec option) list \<Rightarrow> string \<Rightarrow> bool" where
  "default_mark attrs a \<longleftrightarrow> (a, Some \<lparr>spec_type = None, spec_default = True\<rparr>) \<in> set attrs"

definition marks_wf :: "(string \<times> on_spec option) list \<Rightarrow> bool" where
  "marks_wf attrs \<longleftrightarrow> distinct (keys attrs) \<and>
     (\<forall>p \<in> set attrs. case snd p of None \<Rightarrow> True
        | Some s \<Rightarrow> (spec_type s = None) = spec_default s)"

definition unambiguous :: "(string \<times> on_spec option) list \<Rightarrow> bool" where
  "unambiguous attrs \<longleftrightarrow>
     (\<forall>t a b. typed_mark attrs t a \<longrightarrow> typed_mark attrs t b \<longrightarrow> a = b) \<and>
     (\<forall>a b. default_mark attrs a \<longrightarrow> default_mark attrs b \<longrightarrow> a = b)"

lemma on_marks: "on ty d = Inr s \<Longrightarrow> (spec_type s = None) = spec_default s"
  by (auto simp: on_def split: if_splits)

lemma typed_mark_Nil [simp]: "\<not> typed_mark [] t a"
  and default_mark_Nil [simp]: "\<not> default_mark [] a"
  by (simp_all add: typed_mark_def default_mark_def)

lemma typed_mark_Cons:
  "typed_mark ((n, s) # attrs) t a \<longleftrightarrow>
     (a = n \<and> s = Some \<lparr>spec_type = Some t, spec_default = False\<rparr>) \<or> typed_mark attrs t a"
  by (auto simp: typed_mark_def)

lemma default_mark_Cons:
  "default_mark ((n, s) # attrs) a \<longleftrightarrow>
     (a = n \<and> s = Some \<lparr>spec_type = None, spec_default = True\<rparr>) \<or> default_mark attrs a"
  by (auto simp: default_mark_def)

lemmas mark_simps = typed_mark_Cons default_mark_Cons

text \<open>One invariant of the loop serves both directions: what is recorded so far together with the
  marks still to come.\<close>

lemma build_handlers_sound:
  assumes "marks_wf attrs" and "build_handlers cn attrs hs dh = Inr (hs', dh')"
  shows "(\<forall>t a. map_of hs' t = Some a \<longleftrightarrow> map_of hs t = Some a \<or> typed_mark attrs t a) \<and>
         (\<forall>a. dh' = Some a \<longleftrightarrow> dh = Some a \<or> default_mark attrs a)"
  using assms
proof (induction cn attrs hs dh rule: build_handlers.induct)
  case (3 cn n s attrs hs dh)
  have wf: "marks_wf attrs" using "3.prems"(1) by (auto simp: marks_wf_def)
  obtain ty d where s: "s = \<lparr>spec_type = ty, spec_default = d\<rparr>" by (cases s) auto
  show ?case
  proof (cases d)
    case True
    then have "ty = None" "dh = None" using 3 s by (auto simp: marks_wf_def split: option.splits)
    with 3 wf s True show ?thesis by (auto simp: mark_simps)
  next
    case False
    then obtain t where "ty = Some t" "map_of hs t = None"
      using 3 s by (auto simp: marks_wf_def split: option.splits)
    with 3 wf s False show ?thesis by (auto simp: mark_simps split: if_splits)
  qed
qed (auto simp: marks_wf_def mark_simps)

lemma build_handlers_complete:
  assumes "marks_wf attrs" and "unambiguous attrs"
    and "\<And>t a. typed_mark attrs t a \<Longrightarrow> map_of hs t = None"
    and "\<And>a. default_mark attrs a \<Longrightarrow> dh = None"
  shows "\<exists>r. build_handlers cn attrs hs dh = Inr r"
  using assms
proof (induction cn attrs hs dh rule: build_handlers.induct)
  case (2 cn n attrs hs dh)
  then show ?case by (fastforce simp: marks_wf_def unambiguous_def mark_simps)
next
  case (3 cn n s attrs hs dh)
  have wf: "marks_wf attrs" and fresh: "n \<notin> set (keys attrs)"
    using "3.prems"(1) by (auto simp: marks_wf_def)
  have un: "unambiguous attrs" using "3.prems"(2) by (auto simp: unambiguous_def mark_simps)
  obtain ty d where s: "s = \<lparr>spec_type = ty, spec_default = d\<rparr>" by (cases s) auto
  have other: "a \<noteq> n" if "typed_mark attrs t a \<or> default_mark attrs a" for t a
    using that fresh by (auto simp: typed_mark_def default_mark_def image_iff)
  show ?case
  proof (cases d)
    case True
    then have ty: "ty = None" using "3.prems"(1) s by (auto simp: marks_wf_def)
    then have dh: "dh = None" using "3.prems"(4) s True by (auto simp: mark_simps)
    have "\<not> default_mark attrs a" for a
      using "3.prems"(2) other [of undefined a] s True ty
      by (auto simp: unambiguous_def mark_simps)
    with "3.IH"(1) [OF _ dh wf un] "3.prems"(3) s True dh show ?thesis
      by (auto simp: mark_simps)
  next
    case False
    then obtain t where ty: "ty = Some t" using "3.prems"(1) s by (auto simp: marks_wf_def)
    then have hs: "map_of hs t = None" using "3.prems"(3) s False by (auto simp: mark_simps)
    have "\<not> typed_mark attrs t a" for a
      using "3.prems"(2) other [of t a] s False ty
      by (auto simp: unambiguous_def mark_simps)
    then have "\<And>t' a. typed_mark attrs t' a \<Longrightarrow> map_of (dict_set t n hs) t' = None"
      using "3.prems"(3) by (auto simp: mark_simps)
    then have "\<exists>r. build_handlers cn attrs (dict_set t n hs) dh = Inr r"
      using "3.IH"(2) [OF _ _ hs wf un] "3.prems"(4) s False ty by (auto simp: mark_simps)
    with s False ty hs show ?thesis by simp
  qed
qed auto

lemma build_metadata_marks:
  assumes "marks_wf (class_attrs cls)" and "build_metadata cls n = Inr m"
  shows "map_of (handlers m) t = Some a \<longleftrightarrow> typed_mark (class_attrs cls) t a"
    and "default_handler m = Some a \<longleftrightarrow> default_mark (class_attrs cls) a"
  using assms build_handlers_sound [of "class_attrs cls" "class_name cls" "[]" None]
  by (auto simp: build_metadata_def)

lemma handlers_empty_iff:
  assumes "marks_wf (class_attrs cls)" and "build_metadata cls n = Inr m"
  shows "handlers m = [] \<longleftrightarrow> (\<forall>t a. \<not> typed_mark (class_attrs cls) t a)"
proof -
  have "handlers m = [] \<longleftrightarrow> (\<forall>t. map_of (handlers m) t = None)"
    by (metis list.set_intros(1) map_of.simps(1) map_of_eq_None_iff neq_Nil_conv image_eqI)
  then show ?thesis
    using build_metadata_marks(1) [OF assms] by (metis option.exhaust option.simps(3))
qed

subsection \<open>Properties of the decorators and of the dispatch\<close>

definition task_type :: pycls where
  "task_type = Cls ''app'' ''Task''"

definition typed_class :: actor_class where
  "typed_class = \<lparr>class_name = ''Typed'', class_attrs =
     [(''handle_other'', Some \<lparr>spec_type = None, spec_default = True\<rparr>),
      (''handle_task'', Some \<lparr>spec_type = Some task_type, spec_default = False\<rparr>),
      (''helper'', None)]\<rparr>"

definition default_only_class :: actor_class where
  "default_only_class = \<lparr>class_name = ''CatchAll'', class_attrs =
     [(''handle_other'', Some \<lparr>spec_type = None, spec_default = True\<rparr>)]\<rparr>"

text \<open>The decorator accepts exactly the unambiguous classes: building the metadata succeeds if
  and only if no message type has two handlers and there is at most one default handler.\<close>

lemma build_metadata_succeeds_iff:
  assumes "marks_wf (class_attrs cls)"
  shows "(\<exists>m. build_metadata cls n = Inr m) \<longleftrightarrow> unambiguous (class_attrs cls)"
proof
  assume "\<exists>m. build_metadata cls n = Inr m"
  then obtain m where m: "build_metadata cls n = Inr m" ..
  have "a = b" if "typed_mark (class_attrs cls) t a" "typed_mark (class_attrs cls) t b" for t a b
    using that build_metadata_marks(1) [OF assms m, of t] by (metis option.inject)
  moreover have "a = b" if "default_mark (class_attrs cls) a" "default_mark (class_attrs cls) b" for a b
    using that build_metadata_marks(2) [OF assms m] by (metis option.inject)
  ultimately show "unambiguous (class_attrs cls)" unfolding unambiguous_def by blast
next
  assume "unambiguous (class_attrs cls)"
  then have "\<exists>r. build_handlers (class_name cls) (class_attrs cls) [] None = Inr r"
    using assms by (intro build_handlers_complete) auto
  then show "\<exists>m. build_metadata cls n = Inr m" by (auto simp: build_metadata_def)
qed

lemma build_metadata_succeeds_iff_witness:
  "marks_wf (class_attrs typed_class) \<and> unambiguous (class_attrs typed_class)"
proof -
  have wf: "marks_wf (class_attrs typed_class)" by (simp add: marks_wf_def typed_class_def)
  have "\<exists>m. build_metadata typed_class ''typed'' = Inr m"
    by (simp add: build_metadata_def typed_class_def)
  with build_metadata_succeeds_iff [OF wf] wf show ?thesis by blast
qed



text \<open>A class whose only mark is a default handler never uses it: with no typed handler the
  dispatch falls back to \<^verbatim>\<open>receive\<close>, and where the class has none every message raises
  \<^verbatim>\<open>AttributeError\<close>. The documentation of \<^verbatim>\<open>@on\<close> promises the default handler instead.\<close>

lemma default_only_actor_never_dispatches:
  assumes "marks_wf (class_attrs cls)" and "build_metadata cls n = Inr m"
    and "default_mark (class_attrs cls) d"
    and "\<forall>t a. \<not> typed_mark (class_attrs cls) t a"
    and "''receive'' \<notin> set (keys (class_attrs cls))"
  shows "default_handler m = Some d \<and>
         dispatch cls m t = Inl (AttributeError (''no attribute '' @ py_repr ''receive''))"
  using handlers_empty_iff [OF assms(1,2)] build_metadata_marks(2) [OF assms(1,2)] assms(3-5)
  by (simp add: dispatch_def)

lemma default_only_actor_never_dispatches_witness:
  "\<exists>m. build_metadata default_only_class ''catch_all'' = Inr m
       \<and> default_handler m = Some ''handle_other''
       \<and> isl (dispatch default_only_class m task_type)"
proof -
  obtain m where m: "build_metadata default_only_class ''catch_all'' = Inr m"
    by (simp add: build_metadata_def default_only_class_def)
  have "default_handler m = Some ''handle_other'' \<and> dispatch default_only_class m task_type
      = Inl (AttributeError (''no attribute '' @ py_repr ''receive''))"
    by (rule default_only_actor_never_dispatches [OF _ m])
      (auto simp: marks_wf_def default_only_class_def default_mark_def typed_mark_def)
  with m show ?thesis by auto
qed

end
