(* ===== verification/Pool.thy ===== *)
theory Pool
  imports Ask Supervisor_Laws Actor
begin

text \<open>
  The loop that feeds an actor, \<^verbatim>\<open>Supervisor._drive\<close>, and the worker pools of \<^verbatim>\<open>Supervisor.spawn_pool\<close>
  (\<^verbatim>\<open>src/lapinbeam/supervisor.py\<close>, \<^verbatim>\<open>PoolRef\<close> in \<^verbatim>\<open>src/lapinbeam/refs.py\<close>). The application's handlers are
  parameters: functions from a message and a node to a result and the node they leave. A pool has
  one shared queue or, when it is sharded by a key, one queue per worker; a worker is in its loop
  from the moment its actor has received the start message until the actor is cancelled.
\<close>

subsection \<open>The driver of an actor\<close>

datatype drive = Waiting | Handled | Crashed exn

text \<open>One turn of \<^verbatim>\<open>_drive\<close>: the message leaves the mailbox before its handler runs.\<close>

definition drive_step ::
  "actor_class \<Rightarrow> actor_meta \<Rightarrow> (string \<Rightarrow> message \<Rightarrow> node \<Rightarrow> unit res \<times> node) \<Rightarrow> nat \<Rightarrow> node \<Rightarrow> drive \<times> node" where
  "drive_step cls am handle q n =
     (case get_item (queue_at n q) of
        None \<Rightarrow> (Waiting, n)
      | Some ((msg, mt), x) \<Rightarrow>
          let n1 = n\<lparr>queues := dict_set q x (queues n)\<rparr>
          in case dispatch cls am (type_of msg) of
               Inl e \<Rightarrow> (Crashed e, n1)
             | Inr h \<Rightarrow> (case handle h (msg, mt) n1 of
                            (Inl e, n2) \<Rightarrow> (Crashed e, n2) | (Inr _, n2) \<Rightarrow> (Handled, n2)))"

subsection \<open>Pools\<close>

text \<open>\<open>pool_exec\<close> is None for a pool without an executor; otherwise it says whether the executor still
  accepts work. \<open>pool_children\<close> lists the dispatcher and the workers.\<close>

record pool =
  pool_name :: string
  pool_maxsize :: int
  n_workers :: nat
  sharded :: bool
  pool_queues :: "message queue list"
  pool_exec :: "bool option"
  working :: "nat list"
  pool_children :: "nat list"

datatype handler_kind = Sync_function | Async_function | Actor_class

definition check_executor :: "string option \<Rightarrow> handler_kind \<Rightarrow> nat \<Rightarrow> bool option res" where
  "check_executor executor kind n =
     (case executor of
        None \<Rightarrow> Inr None
      | Some ex \<Rightarrow>
          if ex \<notin> {''thread'', ''process''}
          then Inl (ValueError (''executor must be '' @ py_repr ''thread'' @ '', '' @ py_repr ''process''
                      @ '', or None, not '' @ py_repr ex))
          else if kind = Actor_class
          then Inl (TypeError (''spawn_pool(executor=...) doesn'' @ [CHR 0x27] @ ''t support an @actor class handler -- per-instance state can''
                      @ [CHR 0x27] @ ''t cross a thread/process boundary; use a plain function''))
          else if kind = Async_function
          then Inl (TypeError ''spawn_pool(executor=...) requires a synchronous handler (def, not async def) -- it runs off the event loop, in a real thread/process'')
          else if n = 0 then Inl (ValueError ''max_workers must be greater than 0'')
          else Inr (Some True))"

definition new_pool :: "string \<Rightarrow> nat \<Rightarrow> int option \<Rightarrow> bool \<Rightarrow> bool option \<Rightarrow> pool" where
  "new_pool name n capacity shard ex =
     (let m = (case capacity of None \<Rightarrow> 0 | Some c \<Rightarrow> c)
      in \<lparr>pool_name = name, pool_maxsize = m, n_workers = n, sharded = shard,
          pool_queues = replicate (if shard then n else 1) (new_queue m), pool_exec = ex,
          working = [], pool_children = []\<rparr>)"

definition worker_name :: "string \<Rightarrow> nat \<Rightarrow> string" where
  "worker_name name i = ''__'' @ name @ ''_worker_'' @ show_nat i @ ''__''"

definition start_msg :: pyval where
  "start_msg = PDict [(''start'', PBool True)]"

fun spawn_workers :: "string \<Rightarrow> nat list \<Rightarrow> nat list \<Rightarrow> sys \<Rightarrow> nat list res \<times> sys" where
  "spawn_workers name [] refs sy = (Inr refs, sy)"
| "spawn_workers name (i # is) refs sy =
     (case spawn (worker_name name i) sy of
        (Inl e, sy') \<Rightarrow> (Inl e, sy')
      | (Inr c, (n, s)) \<Rightarrow>
         (case send_local n (worker_name name i) start_msg None None of
            (Inl e, n') \<Rightarrow> (Inl e, (n', s))
          | (Inr _, n') \<Rightarrow> spawn_workers name is (refs @ [c]) (n', s)))"

definition spawn_pool ::
  "handler_kind \<Rightarrow> nat \<Rightarrow> string \<Rightarrow> int option \<Rightarrow> string option \<Rightarrow> bool \<Rightarrow> sys \<Rightarrow> pool res \<times> sys" where
  "spawn_pool kind n name capacity executor shard sy =
     (case check_executor executor kind n of
        Inl e \<Rightarrow> (Inl e, sy)
      | Inr ex \<Rightarrow>
         (case spawn name sy of
            (Inl e, sy') \<Rightarrow> (Inl e, sy')
          | (Inr d, sy') \<Rightarrow>
             (case spawn_workers name [0..<n] [] sy' of
                (Inl e, sy'') \<Rightarrow> (Inl e, sy'')
              | (Inr ws, sy'') \<Rightarrow> (Inr ((new_pool name n capacity shard ex)\<lparr>pool_children := d # ws\<rparr>), sy''))))"

subsection \<open>Dispatching\<close>

text \<open>\<open>key\<close> is \<^verbatim>\<open>hash(key(msg))\<close>, or the exception of either.\<close>

definition shard_of :: "(pyval \<Rightarrow> int res) \<Rightarrow> pool \<Rightarrow> pyval \<Rightarrow> nat res" where
  "shard_of key p msg =
     (if sharded p
      then res_bind (key msg) (\<lambda>h.
             if n_workers p = 0 then Inl (Exn ''ZeroDivisionError'' ''integer modulo by zero'')
             else Inr (nat (h mod int (n_workers p))))
      else Inr 0)"

definition dispatcher_receive :: "(pyval \<Rightarrow> int res) \<Rightarrow> message \<Rightarrow> pool \<times> node \<Rightarrow> pool \<times> node" where
  "dispatcher_receive key m = (\<lambda>(p, n).
     case shard_of key p (fst m) of
       Inl e \<Rightarrow> (p, on_core_event (Ev_pool_worker_error (pool_name p) (''key() raised '' @ describe e)) n)
     | Inr j \<Rightarrow>
        (case put_nowait m (pool_queues p ! j) of
           Some x \<Rightarrow> (p\<lparr>pool_queues := (pool_queues p)[j := x]\<rparr>, n)
         | None \<Rightarrow> (p, on_core_event (Ev_pool_queue_full (pool_name p)
                         (''pool '' @ py_repr (pool_name p) @ [CHR 0x27] @ ''s queue is full (capacity=''
                           @ show_nat (nat (pool_maxsize p)) @ '')'')) n)))"

subsection \<open>Working\<close>

text \<open>\<^verbatim>\<open>_dispatch_to_instance\<close> chooses like the driver of an actor.\<close>

definition dispatch_to_instance :: "actor_class \<Rightarrow> actor_meta \<Rightarrow> pycls \<Rightarrow> string res" where
  "dispatch_to_instance cls am t =
     (if handlers am = []
      then if ''receive'' \<in> set (keys (class_attrs cls)) then Inr ''receive''
           else Inl (AttributeError (''no attribute '' @ py_repr ''receive''))
      else case map_of (handlers am) t of
             Some h \<Rightarrow> Inr h
           | None \<Rightarrow>
              (case default_handler am of
                 Some h \<Rightarrow> Inr h
               | None \<Rightarrow> Inl (TypeError (class_name cls @ '' has no @on handler for '' @ cls_qualname t
                           @ '' messages and no @on(default=True) fallback''))))"

lemma dispatch_to_instance_driver: "dispatch_to_instance cls am t = dispatch cls am t"
  by (simp add: dispatch_to_instance_def dispatch_def split: option.split)

definition worker_queue :: "pool \<Rightarrow> nat \<Rightarrow> nat" where
  "worker_queue p i = (if sharded p then i else 0)"

text \<open>What a worker does with a message: without an executor the handler is all; with one, the
  result of the handler is the reply, and an executor that was shut down refuses the call.\<close>

definition work :: "(message \<Rightarrow> node \<Rightarrow> pyval res \<times> node) \<Rightarrow> bool option \<Rightarrow> message \<Rightarrow> node \<Rightarrow> unit res \<times> node" where
  "work handle ex m n =
     (case ex of
        None \<Rightarrow> (case handle m n of (r, n') \<Rightarrow> (res_bind r (\<lambda>_. Inr ()), n'))
      | Some False \<Rightarrow> (Inl (RuntimeError ''cannot schedule new futures after shutdown''), n)
      | Some True \<Rightarrow>
         (case handle m n of
            (Inl e, n') \<Rightarrow> (Inl e, n')
          | (Inr v, n') \<Rightarrow> if m_reply_to (snd m) = None then (Inr (), n') else reply n' (snd m) v))"

text \<open>One turn of the loop of worker \<open>i\<close>; a worker that is not in its loop takes nothing.\<close>

definition worker_step :: "(message \<Rightarrow> node \<Rightarrow> pyval res \<times> node) \<Rightarrow> nat \<Rightarrow> pool \<times> node \<Rightarrow> message option \<times> pool \<times> node" where
  "worker_step handle i = (\<lambda>(p, n).
     if i \<notin> set (working p) then (None, p, n)
     else case get_item (pool_queues p ! worker_queue p i) of
            None \<Rightarrow> (None, p, n)
          | Some (m, x) \<Rightarrow>
              let p' = p\<lparr>pool_queues := (pool_queues p)[worker_queue p i := x]\<rparr>
              in case work handle (pool_exec p) m n of
                   (Inl e, n') \<Rightarrow> (Some m, p', on_core_event (Ev_pool_worker_error (pool_name p) (describe e)) n')
                 | (Inr _, n') \<Rightarrow> (Some m, p', n'))"

text \<open>The actor of a worker receives a message on its own mailbox; the loop it runs then ends only
  when it is cancelled, and it shuts the executor down on its way out.\<close>

definition worker_receive :: "nat \<Rightarrow> pool \<Rightarrow> pool" where
  "worker_receive i p = p\<lparr>working := set_add i (working p)\<rparr>"

definition worker_cancelled :: "nat \<Rightarrow> pool \<Rightarrow> pool" where
  "worker_cancelled i p =
     (if i \<in> set (working p)
      then p\<lparr>working := set_discard i (working p), pool_exec := map_option (\<lambda>_. False) (pool_exec p)\<rparr> else p)"

subsection \<open>Stopping\<close>

definition pool_stop :: "pool \<Rightarrow> sup \<Rightarrow> sup" where
  "pool_stop p s = fold ask_cancel (pool_children p) s"

definition pool_stopped :: "pool \<Rightarrow> sup \<Rightarrow> sup" where
  "pool_stopped p s = fold discard_child (pool_children p) s"

subsection \<open>Runs of a pool\<close>

datatype pool_op = Dispatch message | Work nat

text \<open>A run returns the messages that were accepted and, with the worker, those that were taken.\<close>

definition accepts :: "(pyval \<Rightarrow> int res) \<Rightarrow> pool \<Rightarrow> message \<Rightarrow> bool" where
  "accepts key p m = (case shard_of key p (fst m) of Inl e \<Rightarrow> False | Inr j \<Rightarrow> \<not> queue_full (pool_queues p ! j))"

fun run_pool :: "(pyval \<Rightarrow> int res) \<Rightarrow> (message \<Rightarrow> node \<Rightarrow> pyval res \<times> node) \<Rightarrow> pool_op list \<Rightarrow> pool \<times> node
    \<Rightarrow> message list \<times> (nat \<times> message) list \<times> pool \<times> node" where
  "run_pool key handle [] pn = ([], [], pn)"
| "run_pool key handle (Dispatch m # ops) pn =
     (case run_pool key handle ops (dispatcher_receive key m pn) of (acc, taken_by, pn') \<Rightarrow>
        (if accepts key (fst pn) m then m # acc else acc, taken_by, pn'))"
| "run_pool key handle (Work i # ops) pn =
     (case worker_step handle i pn of (taken, pn1) \<Rightarrow>
        (case run_pool key handle ops pn1 of (acc, taken_by, pn') \<Rightarrow>
           (acc, (case taken of None \<Rightarrow> taken_by | Some m \<Rightarrow> (i, m) # taken_by), pn')))"

subsection \<open>What the queues of a pool do\<close>

definition pool_wf :: "pool \<Rightarrow> bool" where
  "pool_wf p \<longleftrightarrow> length (pool_queues p) = (if sharded p then n_workers p else 1) \<and> set (working p) \<subseteq> {..<n_workers p}"

lemma pool_wf_new [wf_intros]: "pool_wf (new_pool name n capacity shard ex)"
  by (simp add: pool_wf_def new_pool_def Let_def)

lemma shard_bound: "pool_wf p \<Longrightarrow> shard_of key p msg = Inr j \<Longrightarrow> j < length (pool_queues p)"
proof -
  assume wf: "pool_wf p" and j: "shard_of key p msg = Inr j"
  show "j < length (pool_queues p)"
  proof (cases "sharded p")
    case True
    with j obtain h where "n_workers p \<noteq> 0" "j = nat (h mod int (n_workers p))"
      by (auto simp: shard_of_def split: if_splits)
    then have "int j < int (n_workers p)" by simp
    with wf True show ?thesis by (simp add: pool_wf_def)
  next
    case False
    with wf j show ?thesis by (simp add: shard_of_def pool_wf_def)
  qed
qed

lemma worker_bound: "pool_wf p \<Longrightarrow> i \<in> set (working p) \<Longrightarrow> worker_queue p i < length (pool_queues p)"
  by (auto simp: pool_wf_def worker_queue_def)

lemma dispatch_fields:
  "pool_wf p \<Longrightarrow> pool_wf (fst (dispatcher_receive key m (p, n)))"
  "sharded (fst (dispatcher_receive key m (p, n))) = sharded p"
  "n_workers (fst (dispatcher_receive key m (p, n))) = n_workers p"
  "working (fst (dispatcher_receive key m (p, n))) = working p"
  by (auto simp: dispatcher_receive_def pool_wf_def split: sum.split option.split)

lemma dispatch_queue:
  assumes "pool_wf p" "j < length (pool_queues p)"
  shows "items (pool_queues (fst (dispatcher_receive key m (p, n))) ! j) =
    items (pool_queues p ! j) @ (if accepts key p m \<and> shard_of key p (fst m) = Inr j then [m] else [])"
  using assms shard_bound [OF assms(1)]
  by (auto simp: dispatcher_receive_def accepts_def put_nowait_def nth_list_update split: sum.split option.split)

lemma step_fields:
  "worker_step handle i (p, n) = (t, p', n') \<Longrightarrow> pool_wf p \<Longrightarrow> pool_wf p'"
  "worker_step handle i (p, n) = (t, p', n') \<Longrightarrow> sharded p' = sharded p \<and> n_workers p' = n_workers p \<and> working p' = working p"
  by (auto simp: worker_step_def pool_wf_def Let_def split: if_splits option.splits prod.splits sum.splits)

lemma step_queue:
  assumes "pool_wf p" "j < length (pool_queues p)" "worker_step handle i (p, n) = (t, p', n')"
  shows "items (pool_queues p ! j) =
    (case t of None \<Rightarrow> [] | Some m \<Rightarrow> if worker_queue p i = j then [m] else []) @ items (pool_queues p' ! j)"
  using assms worker_bound [OF assms(1), of i]
  by (auto simp: worker_step_def Let_def get_item_def nth_list_update
      split: if_splits option.splits prod.splits sum.splits list.splits)

lemma shard_of_cong:
  "sharded p' = sharded p \<Longrightarrow> n_workers p' = n_workers p \<Longrightarrow> shard_of key p' = shard_of key p"
  "sharded p' = sharded p \<Longrightarrow> worker_queue p' = worker_queue p"
  by (rule ext, simp only: shard_of_def worker_queue_def)+

lemma run_pool_fifo:
  "pool_wf p \<Longrightarrow> j < length (pool_queues p) \<Longrightarrow> run_pool key handle ops (p, n) = (acc, taken, p', n') \<Longrightarrow>
   map snd (filter (\<lambda>(i, m). worker_queue p i = j) taken) @ items (pool_queues p' ! j)
     = items (pool_queues p ! j) @ filter (\<lambda>m. shard_of key p (fst m) = Inr j) acc"
proof (induction key handle ops "(p, n)" arbitrary: p n acc taken p' n' rule: run_pool.induct)
  case (2 key handle m ops)
  obtain p1 n1 where d: "dispatcher_receive key m (p, n) = (p1, n1)" by force
  obtain acc1 where r: "run_pool key handle ops (p1, n1) = (acc1, taken, p', n')"
    and acc: "acc = (if accepts key p m then m # acc1 else acc1)"
    using 2(4) d by (auto split: prod.splits)
  have f: "pool_wf p1" "sharded p1 = sharded p" "n_workers p1 = n_workers p"
    using dispatch_fields [where p = p and key = key and m = m and n = n] 2(2) d by simp_all
  have len: "j < length (pool_queues p1)" using 2(2,3) f by (auto simp: pool_wf_def split: if_splits)
  show ?case using 2(1) [OF d f(1) len r] dispatch_queue [OF 2(2,3), of key m n] acc
    by (auto simp: d shard_of_cong(1) [OF f(2,3)] shard_of_cong(2) [OF f(2)])
next
  case (3 key handle i ops)
  obtain t p1 n1 where w: "worker_step handle i (p, n) = (t, p1, n1)" using prod_cases3 by blast
  obtain taken1 where r: "run_pool key handle ops (p1, n1) = (acc, taken1, p', n')"
    and taken: "taken = (case t of None \<Rightarrow> taken1 | Some m \<Rightarrow> (i, m) # taken1)"
    using 3(4) w by (auto split: prod.splits)
  have f: "pool_wf p1" "sharded p1 = sharded p" "n_workers p1 = n_workers p"
    using step_fields [OF w] 3(2) by simp_all
  have len: "j < length (pool_queues p1)" using 3(2,3) f by (auto simp: pool_wf_def split: if_splits)
  show ?case using 3(1) [OF w [symmetric] f(1) len r] step_queue [OF 3(2,3) w] taken
    by (auto simp: shard_of_cong(1) [OF f(2,3)] shard_of_cong(2) [OF f(2)] split: option.splits)
qed simp

lemma run_pool_workers:
  "run_pool key handle ops (p, n) = (acc, taken, p', n') \<Longrightarrow> \<forall>x \<in> set taken. fst x \<in> set (working p)"
proof (induction key handle ops "(p, n)" arbitrary: p n acc taken p' n' rule: run_pool.induct)
  case (2 key handle m ops)
  obtain p1 n1 where d: "dispatcher_receive key m (p, n) = (p1, n1)" by force
  from 2(1) [OF d] 2(2) d show ?case
    using dispatch_fields(4) [of key m p n] by (auto split: prod.splits)
next
  case (3 key handle i ops)
  obtain t p1 n1 where w: "worker_step handle i (p, n) = (t, p1, n1)" using prod_cases3 by blast
  then have "t \<noteq> None \<Longrightarrow> i \<in> set (working p)" by (auto simp: worker_step_def split: if_splits)
  with 3(1) [OF w [symmetric]] 3(2) w step_fields(2) [OF w] show ?case
    by (auto split: prod.splits option.splits)
qed simp

lemma run_pool_working:
  "run_pool key handle ops (p, n) = (acc, taken, p', n') \<Longrightarrow> working p' = working p"
proof (induction key handle ops "(p, n)" arbitrary: p n acc taken p' n' rule: run_pool.induct)
  case (2 key handle m ops)
  obtain p1 n1 where d: "dispatcher_receive key m (p, n) = (p1, n1)" by force
  from 2(1) [OF d] 2(2) d show ?case
    using dispatch_fields(4) [of key m p n] by (auto split: prod.splits)
next
  case (3 key handle i ops)
  obtain t p1 n1 where w: "worker_step handle i (p, n) = (t, p1, n1)" using prod_cases3 by blast
  with 3(1) [OF w [symmetric]] 3(2) step_fields(2) [OF w] show ?case by (auto split: prod.splits)
qed simp

lemma filter_own:
  "\<forall>x \<in> set xs. P (snd x) \<longrightarrow> fst x = w \<Longrightarrow>
   filter P (map snd (filter (\<lambda>(i, m). i = w) xs)) = filter P (map snd xs)"
  by (induction xs) (auto simp: case_prod_beta)

subsection \<open>Properties of pools\<close>

text \<open>C15. A sharded pool keeps the order of each key. Whatever the interleaving of sends and workers, all
  messages of a pool whose keys have the same hash are taken by one worker, and the ones taken
  so far, followed by those still in its queue, are exactly the accepted ones in the order of
  their acceptance: none is lost, handled twice or overtaken.\<close>

theorem sharded_pool_keeps_key_order:
  assumes "run_pool key handle ops (new_pool name k capacity True ex \<lparr>working := ws\<rparr>, n) = (acc, taken, p', n')"
    and "set ws \<subseteq> {..<k}" and "0 < k"
  shows "let mine = (\<lambda>m. key (fst m) = Inr h); w = nat (h mod int k) in
    (\<forall>i m. (i, m) \<in> set taken \<longrightarrow> mine m \<longrightarrow> i = w)
    \<and> filter mine (map snd taken) @ filter mine (items (pool_queues p' ! w)) = filter mine acc"
proof -
  let ?p = "new_pool name k capacity True ex \<lparr>working := ws\<rparr>"
  define mine where "mine = (\<lambda>m :: message. key (fst m) = Inr h)"
  define w where "w = nat (h mod int k)"
  have p: "sharded ?p" "n_workers ?p = k" "length (pool_queues ?p) = k" "pool_wf ?p"
    using assms(2) by (simp_all add: new_pool_def Let_def pool_wf_def)
  have empty: "items (pool_queues ?p ! j) = []" if "j < k" for j
    using that by (simp add: new_pool_def Let_def new_queue_def)
  have fifo: "map snd (filter (\<lambda>(i, m). i = j) taken) @ items (pool_queues p' ! j)
      = filter (\<lambda>m. shard_of key ?p (fst m) = Inr j) acc" if "j < k" for j
    using run_pool_fifo [OF p(4) _ assms(1), of j] that empty p by (simp add: worker_queue_def)
  have shard: "shard_of key ?p (fst m) = Inr w" if "mine m" for m
    using that p assms(3) by (simp add: shard_of_def mine_def w_def)
  have wk: "w < k" using assms(3) by (simp add: w_def nat_less_iff)
  have own: "i = w" if "(i, m) \<in> set taken" "mine m" for i m
  proof -
    have i: "i < k" using run_pool_workers [OF assms(1)] that(1) assms(2) by force
    have "m \<in> set (map snd (filter (\<lambda>(i', m). i' = i) taken))" using that(1) by force
    then have "m \<in> set (filter (\<lambda>m. shard_of key ?p (fst m) = Inr i) acc)" using fifo [OF i] by (metis Un_iff set_append)
    with shard [OF that(2)] show ?thesis by simp
  qed
  have "filter mine (map snd (filter (\<lambda>(i, m). i = w) taken)) = filter mine (map snd taken)"
    using own by (intro filter_own) auto
  moreover have "filter mine (filter (\<lambda>m. shard_of key ?p (fst m) = Inr w) acc) = filter mine acc"
    using shard by (induction acc) auto
  ultimately have "filter mine (map snd taken) @ filter mine (items (pool_queues p' ! w)) = filter mine acc"
    using arg_cong [OF fifo [OF wk], of "filter mine"] by simp
  with own show ?thesis by (simp add: Let_def mine_def w_def)
qed

text \<open>C28. Work in a pool without a key is taken in the order it was accepted, each message exactly once and
  by a worker of the pool, whatever the handlers do: a handler that raises takes no worker out of
  its loop.\<close>

theorem shared_pool_no_loss:
  assumes "run_pool key handle ops (new_pool name k capacity False ex \<lparr>working := ws\<rparr>, n) = (acc, taken, p', n')"
    and "set ws \<subseteq> {..<k}"
  shows "map snd taken @ items (pool_queues p' ! 0) = acc \<and> fst ` set taken \<subseteq> set ws \<and> working p' = ws"
proof -
  let ?p = "new_pool name k capacity False ex \<lparr>working := ws\<rparr>"
  have p: "\<not> sharded ?p" "0 < length (pool_queues ?p)" "pool_wf ?p" "items (pool_queues ?p ! 0) = []" "working ?p = ws"
    using assms(2) by (simp_all add: new_pool_def Let_def pool_wf_def new_queue_def)
  have "map snd taken @ items (pool_queues p' ! 0) = acc"
    using run_pool_fifo [OF p(3,2) assms(1)] p(1,4) by (simp add: worker_queue_def shard_of_def case_prod_beta)
  with run_pool_workers [OF assms(1)] run_pool_working [OF assms(1)] p(5) show ?thesis by auto
qed

theorem sharded_pool_keeps_key_order_witness:
  "let m = (\<lambda>v. (PInt v, local_meta (demo_started ''a'') None None));
       r = run_pool (\<lambda>v. case v of PInt i \<Rightarrow> Inr (i mod 10) | _ \<Rightarrow> Inl (TypeError [])) (\<lambda>m n. (Inr PNone, n))
             [Dispatch (m 13), Work 0, Dispatch (m 23), Work 1, Dispatch (m 12), Work 1]
             (new_pool ''p'' 2 None True None \<lparr>working := [0, 1]\<rparr>, demo_started ''a'')
   in filter (\<lambda>x. fst x = PInt 13 \<or> fst x = PInt 23) (map snd (fst (snd r))) = [m 13, m 23]"
proof -
  define m where "m = (\<lambda>v. (PInt v, local_meta (demo_started ''a'') None None))"
  define key where "key = (\<lambda>v. case v of PInt i \<Rightarrow> Inr (i mod 10) | _ \<Rightarrow> Inl (TypeError []))"
  let ?ops = "[Dispatch (m 13), Work 0, Dispatch (m 23), Work 1, Dispatch (m 12), Work 1]"
  obtain acc taken p' n' where r: "run_pool key (\<lambda>m n. (Inr PNone, n)) ?ops
      (new_pool ''p'' 2 None True None \<lparr>working := [0, 1]\<rparr>, demo_started ''a'') = (acc, taken, p', n')"
    using prod_cases4 by blast
  from r have f: "acc = [m 13, m 23, m 12]" "items (pool_queues p' ! 1) = []" "map snd taken = [m 13, m 23]"
    by (auto simp: dispatcher_receive_def worker_step_def shard_of_def accepts_def key_def m_def new_pool_def Let_def
        new_queue_def put_nowait_def queue_full_def get_item_def worker_queue_def work_def)
  have "filter (\<lambda>m. key (fst m) = Inr 3) (map snd taken) @ filter (\<lambda>m. key (fst m) = Inr 3) (items (pool_queues p' ! 1))
      = filter (\<lambda>m. key (fst m) = Inr 3) acc"
    using sharded_pool_keeps_key_order [OF r, of 3] by (simp add: Let_def)
  with f have "filter (\<lambda>m. key (fst m) = Inr 3) (map snd taken) = [m 13, m 23]" by (simp add: key_def m_def)
  with f r show ?thesis by (simp add: Let_def flip: m_def key_def) (simp add: m_def)
qed

theorem shared_pool_no_loss_witness:
  "let m = (\<lambda>v. (PInt v, local_meta (demo_started ''a'') None None));
       r = run_pool (\<lambda>_. Inr 0) (\<lambda>m n. (Inl (ValueError ''bad''), n)) [Dispatch (m 1), Dispatch (m 2), Work 1, Work 0]
             (new_pool ''p'' 2 None False None \<lparr>working := [0, 1]\<rparr>, demo_started ''a'')
   in map snd (fst (snd r)) @ items (pool_queues (fst (snd (snd r))) ! 0) = fst r"
proof -
  define m where "m = (\<lambda>v. (PInt v, local_meta (demo_started ''a'') None None))"
  obtain acc taken p' n' where r: "run_pool (\<lambda>_. Inr 0) (\<lambda>m n. (Inl (ValueError ''bad''), n))
      [Dispatch (m 1), Dispatch (m 2), Work 1, Work 0]
      (new_pool ''p'' 2 None False None \<lparr>working := [0, 1]\<rparr>, demo_started ''a'') = (acc, taken, p', n')"
    using prod_cases4 by blast
  then show ?thesis using shared_pool_no_loss [OF r] unfolding m_def Let_def by auto
qed

subsection \<open>Restarted workers\<close>

lemma respawn_finished:
  "core (fst (respawn_child c (finish c r (n, s)))) = core n"
  "queues (fst (respawn_child c (finish c r (n, s)))) = queues n"
  "mailboxes (fst (respawn_child c (finish c r (n, s)))) = mailboxes n"
  "child_at (fst (respawn_child c (finish c r (n, s)))) c = child_at n c \<lparr>child_driver := Driver_none\<rparr>"
  by (simp_all add: respawn_child_def finish_def)

lemma respawned:
  fixes now :: rat
  assumes "node_wf n" "core n = Some k" "map_of (phases s) c = Some Driving" "child_pending_exit (child_at n c) = None"
  defines "m \<equiv> fst (respawn_child c (cancel_lands now c (n, s)))"
  shows "\<exists>k'. core m = Some k' \<and> core_running k'" "queues m = queues n"
    "map_of (mailboxes m) (child_name (child_at n c)) = None" "child_name (child_at m c) = child_name (child_at n c)"
proof -
  let ?n0 = "update_child c (\<lambda>x. x\<lparr>child_driver := Driver_done, child_pending_exit := None\<rparr>) n"
  let ?name = "child_name (child_at n c)"
  have land: "cancel_lands now c (n, s) = finish c Cancelled
      (notify_all (ended ?n0 ?name) ?name (get_or [] (links ?n0) ?name) (get_or [] (monitor_watchers ?n0) ?name) ''shutdown'',
       s\<lparr>cancels := set_discard c (cancels s)\<rparr>)"
    using assms(3,4) by (simp add: cancel_lands_def driver_cancelled_def Let_def end_generation_parts)
  have k': "\<exists>k'. core (ended ?n0 ?name) = Some k' \<and> core_running k'"
    using ended_running [of ?n0 k ?name] assms(1,2) by auto
  show "\<exists>k'. core m = Some k' \<and> core_running k'" "queues m = queues n"
    "map_of (mailboxes m) ?name = None" "child_name (child_at m c) = ?name"
    unfolding m_def land respawn_finished notify_all_frame using k' by simp_all
qed

text \<open>C35. A pool worker does not survive a restart. When a restart of its group cancels a worker, the
  supervisor starts it again, but the one message that made it enter its loop is gone: the new
  generation waits on its own empty mailbox, and from then on the worker takes nothing from the
  pool, however much work is sent to it.\<close>

theorem restarted_worker_is_lost:
  assumes "node_wf n" and "core n = Some k" and "map_of (phases s) c = Some Driving"
    and "child_pending_exit (child_at n c) = None"
    and "items (queue_at n (child_mailbox (child_at n c))) = []"
    and "begin_generation later (Inr ()) c (respawn_child c (cancel_lands now c (n, s))) = (n', s')"
    and "run_pool key handle ops (worker_cancelled i p, m) = (acc, taken, p', m')"
  shows "map_of (phases s') c = Some Driving
    \<and> drive_step cls am h (child_mailbox (child_at n c)) n' = (Waiting, n')
    \<and> i \<notin> fst ` set taken"
proof -
  obtain x t where x: "respawn_child c (cancel_lands now c (n, s)) = (x, t)" by force
  note f = respawned [OF assms(1-4), of now, unfolded x fst_conv]
  obtain k' where k': "core x = Some k'" "core_running k'" using f(1) by blast
  have "map_of (mailboxes x) (child_name (child_at x c)) = None" by (simp only: f(3,4))
  from begin_generation_free [OF k' this, of later t]
  obtain y where y: "begin_generation later (Inr ()) c (x, t) = (y, set_phase c Driving t)" "queues y = queues x"
    by blast
  with assms(6) x have r: "s' = set_phase c Driving t" "queues n' = queues n" by (simp_all add: f(2))
  have "drive_step cls am h (child_mailbox (child_at n c)) n' = (Waiting, n')"
    unfolding drive_step_def queue_at_cong [OF r(2)] get_item_def assms(5) by simp
  moreover have "i \<notin> set (working (worker_cancelled i p))" by (simp add: worker_cancelled_def)
  then have "i \<notin> fst ` set taken" using run_pool_workers [OF assms(7)] by blast
  ultimately show ?thesis by (simp add: r(1))
qed

theorem restarted_worker_is_lost_witness:
  "let r = begin_generation 2 (Inr ()) 5 (respawn_child 5 (cancel_lands 1 5 (demo_running, demo_sup One_for_all)));
       m = (PInt 1, local_meta demo_running None None);
       p = new_pool ''p'' 1 None True None \<lparr>working := [0]\<rparr>;
       w = run_pool (\<lambda>_. Inr 0) (\<lambda>m n. (Inr PNone, n)) [Dispatch m, Work 0, Work 0] (worker_cancelled 0 p, demo_running)
   in map_of (phases (snd r)) 5 = Some Driving \<and> 0 \<notin> fst ` set (fst (snd w))"
proof -
  let ?r = "begin_generation 2 (Inr ()) 5 (respawn_child 5 (cancel_lands 1 5 (demo_running, demo_sup One_for_all)))"
  let ?m = "(PInt 1, local_meta demo_running None None)"
  let ?p = "new_pool ''p'' 1 None True None \<lparr>working := [0]\<rparr>"
  obtain acc taken p' n' where w: "run_pool (\<lambda>_. Inr 0) (\<lambda>m n. (Inr PNone, n)) [Dispatch ?m, Work 0, Work 0]
      (worker_cancelled 0 ?p, demo_running) = (acc, taken, p', n')"
    using prod_cases4 by blast
  have q: "items (queue_at demo_running (child_mailbox (child_at demo_running 5))) = []"
    by (simp add: demo_running_def demo_child_def queue_at_def get_or_def demo_started_def new_queue_def)
  have d: "map_of (phases (demo_sup One_for_all)) 5 = Some Driving" "child_pending_exit (child_at demo_running 5) = None"
    by (simp_all add: demo_sup_def)
  have "map_of (phases (snd ?r)) 5 = Some Driving \<and> 0 \<notin> fst ` set taken"
    using restarted_worker_is_lost [OF demo_running_simps(1,2) d q prod.collapse [symmetric] w] by blast
  then show ?thesis unfolding Let_def w fst_conv snd_conv .
qed

end
