(* ===== verification/Nested.thy ===== *)
theory Nested
  imports Supervisor_Laws
begin

text \<open>
  Supervision trees: \<^verbatim>\<open>spawn_supervisor\<close> and \<^verbatim>\<open>_run_supervisor_child\<close> of \<^verbatim>\<open>src/lapinbeam/supervisor.py\<close>. A nested
  supervisor is a child of its parent like an actor, with the same phases and the same treatment
  of crashes; instead of a driver it awaits its own supervisor's giving up. The recipe that
  populates it is the application's code: a function from the node and the fresh supervisor.
\<close>

subsection \<open>Operations\<close>

record nested =
  nested_strategy :: string
  nested_max_restarts :: int
  nested_window :: rat

type_synonym recipe = "sys \<Rightarrow> unit res \<times> sys"

definition spawn_supervisor :: "string \<Rightarrow> sys \<Rightarrow> nat \<times> sys" where
  "spawn_supervisor name = (\<lambda>(n, s).
     let i = next_id n
     in (i, (n\<lparr>next_id := i + 1,
               children := dict_set i (no_child\<lparr>child_name := name\<rparr>) (children n),
               actor_tasks := set_add i (actor_tasks n)\<rparr>,
             set_phase i New (s\<lparr>sup_children := sup_children s @ [i]\<rparr>))))"

text \<open>The top of the loop: a fresh supervisor, populated by the recipe. An invalid strategy raises
  outside of the \<^verbatim>\<open>try\<close> and ends the task.\<close>

definition begin_nested :: "rat \<Rightarrow> nested \<Rightarrow> recipe \<Rightarrow> nat \<Rightarrow> sys \<Rightarrow> sup option \<times> sys" where
  "begin_nested now spec build i = (\<lambda>(n, s).
     case new_supervisor (nested_strategy spec) (nested_max_restarts spec) (nested_window spec) of
       Inl e \<Rightarrow> (None, finish i (Raised e) (n, s))
     | Inr sub \<Rightarrow>
        (case build (n, sub) of
           (Inl e, (n', sub')) \<Rightarrow> (Some sub', child_crashed now i e [] [] (n', s))
         | (Inr _, (n', sub')) \<Rightarrow> (Some sub', (n', set_phase i Driving s))))"

text \<open>The nested supervisor gave up.\<close>

definition nested_gave_up :: "rat \<Rightarrow> sup \<Rightarrow> nat \<Rightarrow> sys \<Rightarrow> sys" where
  "nested_gave_up now sub i = (\<lambda>(n, s).
     case give_up_exc sub of None \<Rightarrow> (n, s) | Some exc \<Rightarrow> child_crashed now i exc [] [] (n, s))"

text \<open>A cancellation while waiting: the children of the nested supervisor are told to stop, and the task
  ends when they have.\<close>

definition nested_cancelled :: "sup \<Rightarrow> sup" where
  "nested_cancelled sub = shutdown sub"

definition nested_cancel_over :: "sup \<Rightarrow> nat \<Rightarrow> sys \<Rightarrow> sys" where
  "nested_cancel_over sub i = (\<lambda>(n, s).
     if \<forall>c \<in> set (sup_children sub). is_done (map_of (phases sub) c) then finish i Cancelled (n, s) else (n, s))"

subsection \<open>Properties of nested supervisors\<close>

lemma notify_nobody [simp]: "notify_all n a [] [] r = n"
  by (simp add: notify_all_def notify_links_def notify_monitors_def)

text \<open>A failure climbs the tree as it was raised. When a nested supervisor has given up and the restart
  budget of its parent refuses another restart, the task of the nested supervisor ends with the
  exception that the nested one gave up with; and a parent that has no other child gives up
  with that same exception, so that the next level up sees it too.\<close>

lemma give_up_climbs:
  assumes "give_up_exc sub = Some exc" and "\<not> fst (allow_restart now (sup_budget s))"
    and "sup_children s = [i]" and "nested_gave_up now sub i (n, s) = (n', s')"
  shows "map_of (phases s') i = Some (Done (Raised exc)) \<and> give_up_exc s' = Some exc \<and> given_up s'
    \<and> event_log n' = event_log n @ map (\<lambda>l. (l, Ev_supervisor_gave_up (child_name (child_at n i)) (describe exc)))
                                        (user_listeners n)"
  using assms
  by (auto simp: nested_gave_up_def child_crashed_def case_prod_beta Let_def raise_for_good_def finish_def
      discard_child_def on_core_event_plain is_peer_event_def split: if_splits)

text \<open>A recipe that spawns one actor and then raises.\<close>

definition failing_recipe :: "string \<Rightarrow> exn \<Rightarrow> recipe" where
  "failing_recipe name e sy =
     (case spawn name sy of (Inl e', sy') \<Rightarrow> (Inl e', sy') | (Inr c, sy') \<Rightarrow> (Inl e, sy'))"

lemma spawn_free:
  assumes "core n = Some c" "core_running c" "map_of (mailboxes n) name = None"
  shows "spawn name (n, s) = (Inr (next_id n + 1), snd (spawn name (n, s)))"
    "map_of (mailboxes (fst (snd (spawn name (n, s))))) name = Some (next_id n)"
    "next_id (fst (snd (spawn name (n, s)))) = next_id n + 2"
    "sup_children (snd (snd (spawn name (n, s)))) = sup_children s @ [next_id n + 1]"
    "map_of (phases (snd (snd (spawn name (n, s))))) (next_id n + 1) = Some New"
    "core (fst (snd (spawn name (n, s)))) \<noteq> None"
  using assms
  by (simp_all add: spawn_def new_mailbox_def register_actor_def core_register_actor_def require_def Let_def)

lemma spawn_taken:
  assumes "core n \<noteq> None" "map_of (mailboxes n) name = Some q" "q < next_id n"
  shows "fst (spawn name (n, s)) = Inl (ValueError (''actor name '' @ py_repr name @ '' is already registered on this node''))"
  using assms by (auto simp: spawn_def new_mailbox_def register_actor_def)

text \<open>C36. A recipe that fails half-way leaves its actors behind. When the recipe of a nested supervisor
  spawns an actor and then raises, the actor keeps running under a supervisor that is dropped and
  never shut down; the parent retries, and every retry fails at once because the name is still
  taken, whatever the cause of the first failure was.\<close>

theorem failed_recipe_leaks:
  assumes "core n = Some c" and "core_running c" and "map_of (mailboxes n) name = None"
    and "nested_strategy spec \<in> {''one_for_one'', ''one_for_all'', ''rest_for_one''}"
    and "fst (allow_restart now (sup_budget s))"
    and "begin_nested now spec (failing_recipe name e) i (n, s) = (sub, (n', s'))"
  shows "map_of (phases s') i = Some Backing_off
    \<and> (\<exists>orphan child q. sub = Some orphan \<and> sup_children orphan = [child] \<and> map_of (phases orphan) child = Some New
        \<and> map_of (mailboxes n') name = Some q)
    \<and> (\<forall>fresh. fst (failing_recipe name e (n', fresh))
        = Inl (ValueError (''actor name '' @ py_repr name @ '' is already registered on this node'')))"
proof -
  obtain f where f: "new_supervisor (nested_strategy spec) (nested_max_restarts spec) (nested_window spec) = Inr f"
    "sup_children f = []" using assms(4) by (auto simp: new_supervisor_def strategy_of_def)
  note sp = spawn_free [OF assms(1-3), of f]
  let ?x = "snd (spawn name (n, f))"
  have "failing_recipe name e (n, f) = (Inl e, ?x)" unfolding failing_recipe_def by (subst sp(1)) simp
  then have b: "sub = Some (snd ?x)" "(n', s') = child_crashed now i e [] [] (fst ?x, s)"
    using assms(6) f(1) by (simp_all add: begin_nested_def case_prod_beta)
  then have n': "n' = fst ?x" "map_of (phases s') i = Some Backing_off"
    using child_crashed_allowed [OF assms(5), of i e "[]" "[]" "fst ?x"] by simp_all
  have taken: "fst (failing_recipe name e (n', fresh))
        = Inl (ValueError (''actor name '' @ py_repr name @ '' is already registered on this node''))" for fresh
    using spawn_taken [of n' name "next_id n" fresh] sp(2,3,6)
    unfolding n'(1) failing_recipe_def by (auto split: prod.split sum.split)
  show ?thesis using n' b(1) sp(2,4,5) f(2) taken by simp
qed

theorem failed_recipe_leaks_witness:
  "let spec = \<lparr>nested_strategy = ''one_for_all'', nested_max_restarts = 3, nested_window = 5\<rparr>;
       r = begin_nested 1 spec (failing_recipe ''x'' (ValueError ''bad'')) 5 (demo_started ''a'', demo_sup One_for_one)
   in map_of (phases (snd (snd r))) 5 = Some Backing_off \<and> map_of (mailboxes (fst (snd r))) ''x'' \<noteq> None"
proof -
  let ?spec = "\<lparr>nested_strategy = ''one_for_all'', nested_max_restarts = 3, nested_window = 5\<rparr>"
  obtain sub n' s' where r: "begin_nested 1 ?spec (failing_recipe ''x'' (ValueError ''bad'')) 5
      (demo_started ''a'', demo_sup One_for_one) = (sub, (n', s'))" using prod_cases3 by blast
  have a: "core_running (demo_core ''a'')" "map_of (mailboxes (demo_started ''a'')) ''x'' = None"
    "nested_strategy ?spec \<in> {''one_for_one'', ''one_for_all'', ''rest_for_one''}"
    "fst (allow_restart 1 (sup_budget (demo_sup One_for_one)))"
    by (simp_all add: demo_core_def demo_sup_def allow_restart_def Let_def)
  show ?thesis
    using failed_recipe_leaks [OF demo_started_simps(1) a r] unfolding Let_def r snd_conv fst_conv by blast
qed

end
