(* ===== verification/Framing.thy ===== *)
theory Framing
  imports Node_State
begin

text \<open>
  The framing of messages on a connection (\<^verbatim>\<open>src/src/wire/framing.rs\<close>, \<^verbatim>\<open>src/src/wire/mod.rs\<close>): a frame is
  the length of its body as four bytes, least significant first, and the body. The serialisation
  of the body is the job of a library, \<^verbatim>\<open>bincode\<close>: its encoder \<open>enc\<close> and decoder \<open>dec\<close> are parameters.
\<close>

subsection \<open>Messages on the wire\<close>

type_synonym bytes = "8 word list"

datatype message_kind = Handshake | Data | Heartbeat | Error

record wire_message =
  wm_version :: "8 word"
  wm_msg_id :: "64 word"
  wm_src :: string
  wm_dst_actor :: string
  wm_kind :: message_kind
  wm_payload :: bytes
  wm_reply_to :: "string option"
  wm_correlation_id :: "64 word option"

definition PROTOCOL_VERSION :: "8 word" where
  "PROTOCOL_VERSION = 1"

definition data_message ::
  "64 word \<Rightarrow> string \<Rightarrow> string \<Rightarrow> bytes \<Rightarrow> string option \<Rightarrow> 64 word option \<Rightarrow> wire_message" where
  "data_message i src dst payload reply_to corr =
     \<lparr>wm_version = PROTOCOL_VERSION, wm_msg_id = i, wm_src = src, wm_dst_actor = dst, wm_kind = Data,
      wm_payload = payload, wm_reply_to = reply_to, wm_correlation_id = corr\<rparr>"

definition handshake :: "64 word \<Rightarrow> string \<Rightarrow> wire_message" where
  "handshake i src =
     \<lparr>wm_version = PROTOCOL_VERSION, wm_msg_id = i, wm_src = src, wm_dst_actor = [], wm_kind = Handshake,
      wm_payload = [], wm_reply_to = None, wm_correlation_id = None\<rparr>"

definition heartbeat :: "64 word \<Rightarrow> string \<Rightarrow> wire_message" where
  "heartbeat i src =
     \<lparr>wm_version = PROTOCOL_VERSION, wm_msg_id = i, wm_src = src, wm_dst_actor = [], wm_kind = Heartbeat,
      wm_payload = [], wm_reply_to = None, wm_correlation_id = None\<rparr>"

subsection \<open>Length prefixes\<close>

text \<open>\<^verbatim>\<open>len as u32\<close> drops the high bits, as the four bytes do here.\<close>

definition to_le_bytes :: "nat \<Rightarrow> bytes" where
  "to_le_bytes n = map (\<lambda>i. of_nat (n div 256 ^ i)) [0, 1, 2, 3]"

fun from_le_bytes :: "bytes \<Rightarrow> nat" where
  "from_le_bytes [] = 0"
| "from_le_bytes (b # bs) = unat b + 256 * from_le_bytes bs"

lemma unat_byte: "unat (of_nat n :: 8 word) = n mod 256"
  by (simp add: unat_of_nat)

lemma le_bytes_wrap: "from_le_bytes (to_le_bytes n) = n mod 2 ^ 32"
proof -
  have "n mod 2 ^ 32 = n mod 256 + 256 * (n div 256 mod 2 ^ 24)" for n :: nat
    using mod_mult2_eq [of n 256 "2 ^ 24"] by simp
  moreover have "n mod 2 ^ 24 = n mod 256 + 256 * (n div 256 mod 2 ^ 16)" for n :: nat
    using mod_mult2_eq [of n 256 "2 ^ 16"] by simp
  moreover have "n mod 2 ^ 16 = n mod 256 + 256 * (n div 256 mod 256)" for n :: nat
    using mod_mult2_eq [of n 256 "256"] by simp
  moreover have "n div 256 div 256 = n div 65536" "n div 65536 div 256 = n div 16777216"
    by (simp_all add: div_mult2_eq [symmetric])
  ultimately show ?thesis by (simp add: to_le_bytes_def unat_byte eval_nat_numeral(1))
qed

lemma le_bytes_roundtrip: "n < 2 ^ 32 \<Longrightarrow> from_le_bytes (to_le_bytes n) = n"
  by (simp add: le_bytes_wrap)

lemma length_to_le_bytes [simp]: "length (to_le_bytes n) = 4"
  by (simp add: to_le_bytes_def)

subsection \<open>Encoding and decoding\<close>

definition encode_frame :: "('m \<Rightarrow> bytes) \<Rightarrow> 'm \<Rightarrow> bytes" where
  "encode_frame enc msg = to_le_bytes (length (enc msg)) @ enc msg"

datatype frame_error = Too_large nat | Undecodable

text \<open>The loop of \<^verbatim>\<open>FrameDecoder::decode\<close> on the buffered bytes; an error discards the messages that the
  same call has decoded before it.\<close>

function decode_loop :: "(bytes \<Rightarrow> 'm option) \<Rightarrow> bytes \<Rightarrow> (frame_error + 'm list) \<times> bytes" where
  "decode_loop dec buf =
     (if length buf < 4 then (Inr [], buf)
      else let len = from_le_bytes (take 4 buf)
           in if MAX_FRAME_SIZE < len then (Inl (Too_large len), buf)
              else if length buf < 4 + len then (Inr [], buf)
              else case dec (take len (drop 4 buf)) of
                     None \<Rightarrow> (Inl Undecodable, drop (4 + len) buf)
                   | Some msg \<Rightarrow>
                      (case decode_loop dec (drop (4 + len) buf) of
                         (Inl e, rest) \<Rightarrow> (Inl e, rest)
                       | (Inr out, rest) \<Rightarrow> (Inr (msg # out), rest)))"
  by pat_completeness auto
termination
  by (relation "measure (\<lambda>(dec, buf). length buf)") auto

declare decode_loop.simps [simp del]

definition decode :: "(bytes \<Rightarrow> 'm option) \<Rightarrow> bytes \<Rightarrow> bytes \<Rightarrow> (frame_error + 'm list) \<times> bytes" where
  "decode dec buf data = decode_loop dec (buf @ data)"

text \<open>The decoder of a connection fed with what the reads return, one after the other.\<close>

fun decode_all :: "(bytes \<Rightarrow> 'm option) \<Rightarrow> bytes \<Rightarrow> bytes list \<Rightarrow> (frame_error + 'm list) \<times> bytes" where
  "decode_all dec buf [] = (Inr [], buf)"
| "decode_all dec buf (chunk # chunks) =
     (case decode dec buf chunk of
        (Inl e, buf') \<Rightarrow> (Inl e, buf')
      | (Inr out, buf') \<Rightarrow>
         (case decode_all dec buf' chunks of
            (Inl e, buf'') \<Rightarrow> (Inl e, buf'')
          | (Inr out', buf'') \<Rightarrow> (Inr (out @ out'), buf'')))"

subsection \<open>Decoding does not depend on the chunks\<close>

definition after :: "'m list \<Rightarrow> (frame_error + 'm list) \<times> bytes \<Rightarrow> (frame_error + 'm list) \<times> bytes" where
  "after out r = (case r of (Inl e, rest) \<Rightarrow> (Inl e, rest) | (Inr out', rest) \<Rightarrow> (Inr (out @ out'), rest))"

lemma after_simps [simp]:
  "after out (Inl e, rest) = (Inl e, rest)" "after out (Inr out', rest) = (Inr (out @ out'), rest)"
  "after [] r = r" "after out (after out' r) = after (out @ out') r"
  by (auto simp: after_def split: prod.split sum.split)

lemma decode_loop_cases:
  obtains (short) "length buf < 4" "decode_loop dec buf = (Inr [], buf)"
  | (large) "4 \<le> length buf" "MAX_FRAME_SIZE < from_le_bytes (take 4 buf)"
      "decode_loop dec buf = (Inl (Too_large (from_le_bytes (take 4 buf))), buf)"
  | (partial) "4 \<le> length buf" "from_le_bytes (take 4 buf) \<le> MAX_FRAME_SIZE"
      "length buf < 4 + from_le_bytes (take 4 buf)" "decode_loop dec buf = (Inr [], buf)"
  | (bad) "4 + from_le_bytes (take 4 buf) \<le> length buf" "from_le_bytes (take 4 buf) \<le> MAX_FRAME_SIZE"
      "dec (take (from_le_bytes (take 4 buf)) (drop 4 buf)) = None"
      "decode_loop dec buf = (Inl Undecodable, drop (4 + from_le_bytes (take 4 buf)) buf)"
  | (good) m where "4 + from_le_bytes (take 4 buf) \<le> length buf" "from_le_bytes (take 4 buf) \<le> MAX_FRAME_SIZE"
      "dec (take (from_le_bytes (take 4 buf)) (drop 4 buf)) = Some m"
      "decode_loop dec buf = after [m] (decode_loop dec (drop (4 + from_le_bytes (take 4 buf)) buf))"
proof -
  let ?len = "from_le_bytes (take 4 buf)"
  show thesis
  proof (cases "length buf < 4")
    case True
    then show thesis using short by (simp add: decode_loop.simps [of dec buf])
  next
    case F1: False
    show thesis
    proof (cases "MAX_FRAME_SIZE < ?len")
      case True
      then show thesis using large F1 by (simp add: decode_loop.simps [of dec buf])
    next
      case F2: False
      show thesis
      proof (cases "length buf < 4 + ?len")
        case True
        then show thesis using partial F1 F2 by (simp add: decode_loop.simps [of dec buf])
      next
        case F3: False
        note d = decode_loop.simps [of dec buf]
        show thesis using bad good F1 F2 F3 d
          by (cases "dec (take ?len (drop 4 buf))") (simp_all add: after_def split: prod.splits sum.splits)
      qed
    qed
  qed
qed

lemma decode_loop_append:
  "decode_loop dec a = (Inr out, rest) \<Longrightarrow> decode_loop dec (a @ b) = after out (decode_loop dec (rest @ b))"
proof (induction "length a" arbitrary: a out rest rule: less_induct)
  case less
  let ?len = "from_le_bytes (take 4 a)"
  show ?case
  proof (cases rule: decode_loop_cases [of a dec])
    case (good m)
    let ?a = "drop (4 + ?len) a"
    obtain out1 where r: "decode_loop dec ?a = (Inr out1, rest)" "out = m # out1"
      using good(4) less.prems by (cases "decode_loop dec ?a") (auto simp: after_def split: sum.splits)
    have "length ?a < length a" using good(1) by simp
    note ih = less.hyps [OF this r(1)]
    have t: "take 4 (a @ b) = take 4 a" "take ?len (drop 4 (a @ b)) = take ?len (drop 4 a)"
      "drop (4 + ?len) (a @ b) = ?a @ b" using good(1) by simp_all
    have "decode_loop dec (a @ b) = after [m] (decode_loop dec (?a @ b))"
      using good(1-3) t by (subst decode_loop.simps) (simp add: after_def split: prod.split sum.split)
    then show ?thesis by (simp add: ih r(2))
  qed (use less.prems in auto)
qed

lemma decode_loop_error:
  "decode_loop dec a = (Inl e, rest) \<Longrightarrow> \<exists>rest'. decode_loop dec (a @ b) = (Inl e, rest')"
proof (induction "length a" arbitrary: a rest rule: less_induct)
  case less
  let ?len = "from_le_bytes (take 4 a)"
  show ?case
  proof (cases rule: decode_loop_cases [of a dec])
    case large
    then show ?thesis using less.prems by (subst decode_loop.simps) simp
  next
    case bad
    then show ?thesis using less.prems by (subst decode_loop.simps) simp
  next
    case (good m)
    let ?a = "drop (4 + ?len) a"
    obtain rest1 where r: "decode_loop dec ?a = (Inl e, rest1)"
      using good(4) less.prems by (cases "decode_loop dec ?a") (auto simp: after_def split: sum.splits)
    have "length ?a < length a" using good(1) by simp
    note ih = less.hyps [OF this r]
    have "decode_loop dec (a @ b) = after [m] (decode_loop dec (?a @ b))"
      using good(1-3) by (subst decode_loop.simps) (simp add: after_def split: prod.split sum.split)
    then show ?thesis using ih by auto
  qed (use less.prems in auto)
qed

lemma decode_all_whole:
  "decode_loop dec (buf @ concat chunks) = (Inr out, rest) \<Longrightarrow> decode_loop dec buf = (Inr [], buf) \<Longrightarrow>
   decode_all dec buf chunks = (Inr out, rest)"
proof (induction chunks arbitrary: buf out)
  case (Cons c cs)
  obtain x r where x: "decode_loop dec (buf @ c) = (x, r)" by force
  have whole: "decode_loop dec ((buf @ c) @ concat cs) = (Inr out, rest)" using Cons.prems(1) by simp
  obtain o1 where x1: "x = Inr o1"
    using decode_loop_error [of dec "buf @ c" _ r "concat cs"] whole x by (cases x) auto
  have "after o1 (decode_loop dec (r @ concat cs)) = (Inr out, rest)"
    using decode_loop_append [of dec "buf @ c" o1 r "concat cs"] whole x x1 by simp
  then obtain o2 where o2: "decode_loop dec (r @ concat cs) = (Inr o2, rest)" "out = o1 @ o2"
    by (cases "decode_loop dec (r @ concat cs)") (auto simp: after_def split: sum.splits)
  have "after o1 (decode_loop dec r) = (Inr o1, r)"
    using decode_loop_append [of dec "buf @ c" o1 r "[]"] x x1 by simp
  then have "decode_loop dec r = (Inr [], r)"
    by (cases "decode_loop dec r") (auto simp: after_def split: sum.splits)
  from Cons.IH [OF o2(1) this] show ?case using x x1 o2(2) by (simp add: decode_def)
qed simp

lemma max_frame_u32: "MAX_FRAME_SIZE < 2 ^ 32"
  by (simp add: MAX_FRAME_SIZE_def)

lemma decode_frame:
  assumes "dec (enc m) = Some m" "length (enc m) \<le> MAX_FRAME_SIZE"
  shows "decode_loop dec (encode_frame enc m @ rest) = after [m] (decode_loop dec rest)"
proof -
  have len: "from_le_bytes (take 4 (encode_frame enc m @ rest)) = length (enc m)"
    using assms(2) max_frame_u32 by (simp add: encode_frame_def le_bytes_roundtrip)
  show ?thesis
    by (subst decode_loop.simps, simp only: len Let_def)
      (use assms in \<open>simp add: encode_frame_def after_def split: prod.split sum.split\<close>)
qed

lemma decode_frames:
  "\<forall>m \<in> set ms. dec (enc m) = Some m \<and> length (enc m) \<le> MAX_FRAME_SIZE \<Longrightarrow>
   decode_loop dec (concat (map (encode_frame enc) ms)) = (Inr ms, [])"
  by (induction ms) (simp_all add: decode_loop.simps [of dec "[]"] decode_frame)

subsection \<open>Properties of frames\<close>

text \<open>C16. What one node writes the other reads. However the network cuts the bytes of a sequence of frames
  into reads, the decoder returns exactly the messages that were sent, in order, and ends with an
  empty buffer, provided that each body is within the limit and the library decodes what it has
  encoded.\<close>

theorem frames_survive_chunking:
  assumes "\<forall>m \<in> set ms. dec (enc m) = Some m" and "\<forall>m \<in> set ms. length (enc m) \<le> MAX_FRAME_SIZE"
    and "concat chunks = concat (map (encode_frame enc) ms)"
  shows "decode_all dec [] chunks = (Inr ms, [])"
proof -
  have "decode_loop dec ([] @ concat chunks) = (Inr ms, [])"
    using decode_frames [of ms dec enc] assms by simp
  then show ?thesis by (rule decode_all_whole) (simp add: decode_loop.simps [of dec "[]"])
qed

theorem frames_survive_chunking_witness:
  "decode_all (\<lambda>b. Some b) [] [[2, 0], [0, 0, 7 :: 8 word, 8, 1, 0, 0], [], [0, 9]] = (Inr [[7, 8], [9]], [])"
  by (rule frames_survive_chunking [of _ _ "\<lambda>b. b"])
    (simp_all add: encode_frame_def to_le_bytes_def MAX_FRAME_SIZE_def)

text \<open>A payload at the limit drops the connection. The sender accepts a payload of up to 16 MiB, but
  the limit of the receiver is on the whole body, envelope included: a payload that the
  sender accepts can make a frame that the receiver refuses, after which the reading of the
  connection ends; the frames before it in the same read are lost with it.\<close>

lemma payload_at_limit_refused:
  assumes "json_len c j = MAX_FRAME_SIZE" and "peer \<in> set (core_peers c)" and "peer \<notin> set (core_closed c)"
    and "length (wm_payload m) = json_len c j" and "length (wm_payload m) < length (enc m)"
    and "length (enc m) < 2 ^ 32" and "\<forall>x \<in> set before. dec (enc x) = Some x \<and> length (enc x) \<le> MAX_FRAME_SIZE"
  shows "fst (send_data_bytes c peer dst j reply_to corr) = Inr ()
    \<and> fst (decode dec [] (concat (map (encode_frame enc) before) @ encode_frame enc m)) = Inl (Too_large (length (enc m)))"
proof -
  have "decode_loop dec (concat (map (encode_frame enc) before) @ encode_frame enc m)
      = after before (decode_loop dec ([] @ encode_frame enc m))"
    by (rule decode_loop_append [OF decode_frames [OF assms(7)]])
  moreover have "from_le_bytes (take 4 (encode_frame enc m)) = length (enc m)"
    using assms(6) by (simp add: encode_frame_def le_bytes_roundtrip)
  then have "decode_loop dec (encode_frame enc m) = (Inl (Too_large (length (enc m))), encode_frame enc m)"
    using assms(1,4,5) by (subst decode_loop.simps) (simp add: encode_frame_def Let_def)
  ultimately have "fst (decode dec [] (concat (map (encode_frame enc) before) @ encode_frame enc m)) = Inl (Too_large (length (enc m)))"
    by (simp add: decode_def)
  with assms(1-3) show ?thesis by (simp add: send_data_bytes_def Let_def)
qed

definition limit_core :: "nodeid \<Rightarrow> core" where
  "limit_core p = \<lparr>core_local = p, core_running = True, core_peers = [p], core_closed = [], core_desired = [],
     core_routing = [], core_out = [], core_events = [], core_msg_id = 1, json_len = (\<lambda>_. MAX_FRAME_SIZE)\<rparr>"

lemma payload_at_limit_refused_witness:
  "let p = \<lparr>nid_name = ''b'', nid_host = ''h'', nid_port = 2\<rparr>;
       enc = (\<lambda>m. (0 :: 8 word) # wm_payload m); m = data_message 1 [] ''w'' (replicate MAX_FRAME_SIZE 0) None None
   in fst (send_data_bytes (limit_core p) p ''w'' JNull None None) = Inr ()
      \<and> fst (decode (\<lambda>b. None :: wire_message option) [] (encode_frame enc m)) = Inl (Too_large (Suc MAX_FRAME_SIZE))"
proof -
  let ?p = "\<lparr>nid_name = ''b'', nid_host = ''h'', nid_port = 2\<rparr>"
  let ?enc = "\<lambda>m :: wire_message. (0 :: 8 word) # wm_payload m"
  let ?m = "data_message 1 [] ''w'' (replicate MAX_FRAME_SIZE 0) None None"
  have "Suc MAX_FRAME_SIZE < 2 ^ 32" by (simp add: MAX_FRAME_SIZE_def)
  then show ?thesis
    using payload_at_limit_refused [of "limit_core ?p" JNull ?p ?m ?enc "[]" "\<lambda>b. None" "''w''" None None]
    by (simp add: limit_core_def data_message_def Let_def)
qed

end
