(* ===== verification/Transport.thy ===== *)
theory Transport
  imports Framing "HOL-Library.Char_ord" "HOL-Library.List_Lexorder"
begin

text \<open>
  The connections of a node (\<^verbatim>\<open>src/src/transport/mod.rs\<close>, \<^verbatim>\<open>src/src/wire/auth.rs\<close>): which of two connections
  to the same peer is kept, the handshake and its proof of a shared secret, the end of a
  connection, and the attempts to reconnect. A connection is a number; the table of peers maps the
  id of a peer to the connection that is used for it. The hash function of the proof is a
  parameter.
\<close>

subsection \<open>State\<close>

record transport =
  t_local :: nodeid
  t_secret :: "bytes option"
  t_peers :: "(nodeid, nat) dict"
  t_desired :: "nodeid list"
  t_stopped :: bool
  t_events :: "event list"

definition listen :: "nodeid \<Rightarrow> 16 word \<Rightarrow> bytes option \<Rightarrow> transport" where
  "listen local port secret =
     \<lparr>t_local = with_port local port, t_secret = secret, t_peers = [], t_desired = [], t_stopped = False,
      t_events = []\<rparr>"

definition t_emit :: "event \<Rightarrow> transport \<Rightarrow> transport" where
  "t_emit ev t = t\<lparr>t_events := t_events t @ [ev]\<rparr>"

subsection \<open>Proofs of the secret\<close>

definition NONCE_LEN :: nat where
  "NONCE_LEN = 16"

definition PROOF_LEN :: nat where
  "PROOF_LEN = 32"

definition build_proof :: "(bytes \<Rightarrow> bytes \<Rightarrow> bytes) \<Rightarrow> bytes \<Rightarrow> bytes \<Rightarrow> bytes" where
  "build_proof hmac nonce secret = nonce @ hmac secret nonce"

definition verify_proof :: "(bytes \<Rightarrow> bytes \<Rightarrow> bytes) \<Rightarrow> bytes \<Rightarrow> bytes \<Rightarrow> bool" where
  "verify_proof hmac secret payload \<longleftrightarrow>
     length payload = NONCE_LEN + PROOF_LEN \<and> hmac secret (take NONCE_LEN payload) = drop NONCE_LEN payload"

subsection \<open>Connections\<close>

definition connection_wins_tiebreak :: "transport \<Rightarrow> nodeid \<Rightarrow> bool \<Rightarrow> bool" where
  "connection_wins_tiebreak t peer we_are_dialer =
     (if we_are_dialer then to_full (t_local t) < to_full peer else to_full peer < to_full (t_local t))"

text \<open>\<^verbatim>\<open>dial\<close> up to the connection attempt, and, when it has succeeded as connection \<open>h\<close>, the registration.\<close>

definition dial_begin :: "transport \<Rightarrow> nodeid \<Rightarrow> bool \<times> transport" where
  "dial_begin t peer =
     (if has_key peer (t_peers t) then (False, t) else (True, t\<lparr>t_desired := set_add peer (t_desired t)\<rparr>))"

definition register_peer :: "bool \<Rightarrow> nodeid \<Rightarrow> nat \<Rightarrow> transport \<Rightarrow> transport" where
  "register_peer we_are_dialer peer h t =
     (if has_key peer (t_peers t) \<and> \<not> connection_wins_tiebreak t peer we_are_dialer then t
      else t_emit (Ev_peer_connected (to_full peer)) (t\<lparr>t_peers := dict_set peer h (t_peers t)\<rparr>))"

definition dial_connected :: "nodeid \<Rightarrow> nat \<Rightarrow> transport \<Rightarrow> transport" where
  "dial_connected peer h t = register_peer True peer h t"

text \<open>The first handshake on an inbound connection \<open>h\<close>.\<close>

definition inbound_handshake :: "(bytes \<Rightarrow> bytes \<Rightarrow> bytes) \<Rightarrow> wire_message \<Rightarrow> nat \<Rightarrow> transport \<Rightarrow> transport" where
  "inbound_handshake hmac msg h t =
     (if t_stopped t then t
      else if (case t_secret t of None \<Rightarrow> False | Some secret \<Rightarrow> \<not> verify_proof hmac secret (wm_payload msg)) then t
      else case parse (wm_src msg) of
             Inl e \<Rightarrow> t
           | Inr peer \<Rightarrow> register_peer False peer h t)"

text \<open>The end of the read loop of connection \<open>h\<close>.\<close>

definition connection_ended :: "nodeid \<Rightarrow> nat \<Rightarrow> transport \<Rightarrow> transport" where
  "connection_ended peer h t =
     (if map_of (t_peers t) peer = Some h
      then t_emit (Ev_peer_disconnected (to_full peer)) (t\<lparr>t_peers := dict_del peer (t_peers t)\<rparr>)
      else t)"

definition t_forget_peer :: "nodeid \<Rightarrow> transport \<Rightarrow> transport" where
  "t_forget_peer peer t =
     (let t' = t\<lparr>t_desired := set_discard peer (t_desired t), t_peers := dict_del peer (t_peers t)\<rparr>
      in if has_key peer (t_peers t) then t_emit (Ev_peer_disconnected (to_full peer)) t' else t')"

definition t_shutdown :: "transport \<Rightarrow> transport" where
  "t_shutdown t = t\<lparr>t_stopped := True, t_desired := [], t_peers := []\<rparr>"

subsection \<open>Reconnecting\<close>

text \<open>What one turn of \<^verbatim>\<open>reconnect_loop\<close> finds after its sleep.\<close>

datatype attempt = Not_desired | Already_connected | Dialed | Dial_failed

datatype reconnect = Retrying nat | Ended | Reconnected | Gave_up

fun reconnect_loop :: "nat option \<Rightarrow> nat \<Rightarrow> attempt list \<Rightarrow> reconnect" where
  "reconnect_loop max_attempts attempts [] = Retrying attempts"
| "reconnect_loop max_attempts attempts (a # as) =
     (case a of
        Not_desired \<Rightarrow> Ended
      | Already_connected \<Rightarrow> Ended
      | Dialed \<Rightarrow> Reconnected
      | Dial_failed \<Rightarrow>
         (case max_attempts of
            None \<Rightarrow> reconnect_loop max_attempts (attempts + 1) as
          | Some m \<Rightarrow> if m \<le> attempts + 1 then Gave_up else reconnect_loop max_attempts (attempts + 1) as))"

lemma reconnect_gives_up:
  "a < m \<Longrightarrow> reconnect_loop (Some m) a (replicate k Dial_failed) = (if m \<le> a + k then Gave_up else Retrying (a + k))"
  by (induction k arbitrary: a) auto

subsection \<open>Handshakes\<close>

lemma proof_verifies:
  assumes "length nonce = NONCE_LEN" "\<And>k n. length (hmac k n) = PROOF_LEN"
  shows "verify_proof hmac secret (build_proof hmac nonce secret)"
  using assms by (simp add: verify_proof_def build_proof_def)

lemma unproven_rejected:
  assumes "t_secret t = Some secret" "\<not> verify_proof hmac secret (wm_payload msg)"
  shows "inbound_handshake hmac msg h t = t"
  using assms by (simp add: inbound_handshake_def)

lemma register_lookup:
  "map_of (t_peers (register_peer d peer h t)) peer =
     (if has_key peer (t_peers t) \<and> \<not> connection_wins_tiebreak t peer d then map_of (t_peers t) peer else Some h)"
  by (auto simp: register_peer_def t_emit_def)

lemma register_local [simp]: "t_local (register_peer d peer h t) = t_local t"
  by (simp add: register_peer_def t_emit_def)

text \<open>Both registrations of a peer that dials at the same time, in the order in which they happen.\<close>

definition both_dial :: "bool \<Rightarrow> nodeid \<Rightarrow> nat \<Rightarrow> nat \<Rightarrow> transport \<Rightarrow> transport" where
  "both_dial own_first peer own other t =
     (if own_first then register_peer False peer other (dial_connected peer own t)
      else dial_connected peer own (register_peer False peer other t))"

lemma both_dial_winner:
  assumes "map_of (t_peers t) peer = None" "to_full (t_local t) \<noteq> to_full peer"
  shows "map_of (t_peers (both_dial own_first peer own other t)) peer
    = Some (if to_full (t_local t) < to_full peer then own else other)"
  using assms
  by (auto simp: both_dial_def dial_connected_def register_lookup connection_wins_tiebreak_def)

subsection \<open>Property of simultaneous dials\<close>

text \<open>C18. Two nodes that dial each other at the same moment agree on one connection. Whatever the order in
  which each side registers the connection it dialed and the one it accepted, both end up using
  the same one, the one dialed by the node with the smaller id; and when the other connection ends
  the kept one stays registered and no disconnection is reported.\<close>

theorem simultaneous_dial_agrees:
  assumes "to_full (t_local a) \<noteq> to_full (t_local b)" and "dialed_by_a \<noteq> dialed_by_b"
    and "map_of (t_peers a) (t_local b) = None" and "map_of (t_peers b) (t_local a) = None"
  shows "let a' = both_dial a_first (t_local b) dialed_by_a dialed_by_b a;
             b' = both_dial b_first (t_local a) dialed_by_b dialed_by_a b;
             (kept, lost) = (if to_full (t_local a) < to_full (t_local b) then (dialed_by_a, dialed_by_b)
                             else (dialed_by_b, dialed_by_a))
         in map_of (t_peers a') (t_local b) = Some kept \<and> map_of (t_peers b') (t_local a) = Some kept
           \<and> connection_ended (t_local b) lost a' = a' \<and> connection_ended (t_local a) lost b' = b'"
  using both_dial_winner [OF assms(3,1), of a_first dialed_by_a dialed_by_b]
    both_dial_winner [OF assms(4), of b_first dialed_by_b dialed_by_a] assms(1,2)
  by (auto simp: Let_def connection_ended_def)

theorem simultaneous_dial_agrees_witness:
  "let x = \<lparr>nid_name = ''a'', nid_host = ''h'', nid_port = 1\<rparr>; y = \<lparr>nid_name = ''b'', nid_host = ''h'', nid_port = 2\<rparr>
   in \<exists>kept. map_of (t_peers (both_dial True y 10 20 (listen x 1 None))) y = Some kept
           \<and> map_of (t_peers (both_dial False x 20 10 (listen y 2 None))) x = Some kept"
proof -
  let ?x = "\<lparr>nid_name = ''a'', nid_host = ''h'', nid_port = 1\<rparr>"
  let ?y = "\<lparr>nid_name = ''b'', nid_host = ''h'', nid_port = 2\<rparr>"
  have l: "t_local (listen ?x 1 None) = ?x" "t_local (listen ?y 2 None) = ?y"
    "t_peers (listen ?x 1 None) = []" "t_peers (listen ?y 2 None) = []"
    by (simp_all add: listen_def with_port_def)
  have "to_full ?x \<noteq> to_full ?y" by (simp add: to_full_def)
  then show ?thesis
    using simultaneous_dial_agrees [of "listen ?x 1 None" "listen ?y 2 None" 10 20 True False]
    unfolding l Let_def by (auto split: if_splits)
qed

end
