(* ===== verification/Supervisor_Steps.thy ===== *)
theory Supervisor_Steps
  imports Supervisor_Laws
begin

text \<open>
  Any interleaving of the tasks of a supervisor, as a step relation. A step is one segment of a
  child's task, a call of \<^verbatim>\<open>spawn\<close> or \<^verbatim>\<open>shutdown\<close>, a cancellation, or anything else on the node that
  leaves the entries of this supervisor's actors in the two tables alone (\<open>Other\<close>). The spawned
  names are assumed distinct, which is what \<^verbatim>\<open>register_actor\<close> enforces while an actor runs and what
  the eviction theorem shows to be needed while it does not. Group restarts of two children that
  overlap can leave a task behind that no child record names; the relation follows the records.
\<close>

inductive sup_step :: "sys \<Rightarrow> sys \<Rightarrow> bool" where
  Spawn: "\<forall>j \<in> set (keys (phases s)). child_name (child_at n j) \<noteq> name \<Longrightarrow>
     spawn name (n, s) = (Inr i, x) \<Longrightarrow> sup_step (n, s) x"
| Begin: "map_of (phases s) i = Some New \<Longrightarrow> i \<notin> set (cancels s) \<Longrightarrow>
     sup_step (n, s) (begin_generation now init i (n, s))"
| Fail: "map_of (phases s) i = Some Driving \<Longrightarrow> sup_step (n, s) (driver_failed now i exc (n, s))"
| Kill: "map_of (phases s) i = Some Driving \<Longrightarrow> child_driver (child_at n i) = Driver_cancelling \<Longrightarrow>
     sup_step (n, s) (driver_cancelled now i (n, s))"
| Cancel: "i \<in> set (cancels s) \<Longrightarrow> has_key i (phases s) \<Longrightarrow> sup_step (n, s) (cancel_lands now i (n, s))"
| Backoff: "map_of (phases s) i = Some Backing_off \<Longrightarrow> i \<notin> set (cancels s) \<Longrightarrow>
     sup_step (n, s) (backoff_over now init i (n, s))"
| Teardown: "has_key i (phases s) \<Longrightarrow> sup_step (n, s) (teardown_over now init i (n, s))"
| Give_up: "has_key i (phases s) \<Longrightarrow> sup_step (n, s) (giving_up_over i (n, s))"
| Ask: "sup_step (n, s) (n, ask_cancel i s)"
| Shutdown: "sup_step (n, s) (n, shutdown s)"
| Other: "next_id n \<le> next_id n' \<Longrightarrow>
     \<forall>j. child_name (child_at n' j) = child_name (child_at n j)
       \<and> child_mailbox (child_at n' j) = child_mailbox (child_at n j) \<Longrightarrow>
     \<forall>j \<in> set (keys (phases s)).
       map_of (mailboxes n') (child_name (child_at n j)) = map_of (mailboxes n) (child_name (child_at n j))
       \<and> map_of (live_children n') (child_name (child_at n j)) = map_of (live_children n) (child_name (child_at n j)) \<Longrightarrow>
     sup_step (n, s) (n', s)"

subsection \<open>The invariant\<close>

definition known :: "sup \<Rightarrow> nat set" where
  "known s = set (keys (phases s))"

definition addressable :: "node \<Rightarrow> nat \<Rightarrow> bool" where
  "addressable n i \<longleftrightarrow>
     map_of (mailboxes n) (child_name (child_at n i)) = Some (child_mailbox (child_at n i))
     \<and> map_of (live_children n) (child_name (child_at n i)) = Some i"

fun phase_ok :: "node \<Rightarrow> sup \<Rightarrow> nat \<Rightarrow> phase \<Rightarrow> bool" where
  "phase_ok n s i Driving = addressable n i"
| "phase_ok n s i (Tearing_down cs sibs) = (set sibs \<subseteq> known s)"
| "phase_ok n s i _ = True"

definition sup_inv :: "sys \<Rightarrow> bool" where
  "sup_inv x = (case x of (n, s) \<Rightarrow>
     (\<forall>i \<in> known s. i < next_id n) \<and> inj_on (\<lambda>i. child_name (child_at n i)) (known s)
     \<and> set (sup_children s) \<subseteq> known s
     \<and> (\<forall>i p. map_of (phases s) i = Some p \<longrightarrow> phase_ok n s i p))"

text \<open>A step that concerns one child and its name only.\<close>

definition local_change :: "nat \<Rightarrow> sys \<Rightarrow> sys \<Rightarrow> bool" where
  "local_change i x y = (case x of (n, s) \<Rightarrow> case y of (n', s') \<Rightarrow>
     next_id n \<le> next_id n'
     \<and> (\<forall>j. child_name (child_at n' j) = child_name (child_at n j)
          \<and> child_mailbox (child_at n' j) = child_mailbox (child_at n j))
     \<and> (\<forall>k. k = child_name (child_at n i) \<or> (map_of (mailboxes n') k = map_of (mailboxes n) k
          \<and> map_of (live_children n') k = map_of (live_children n) k))
     \<and> (\<forall>j. j = i \<or> map_of (phases s') j = map_of (phases s) j)
     \<and> set (sup_children s') \<subseteq> set (sup_children s)
     \<and> (\<exists>p. map_of (phases s') i = Some p \<and> phase_ok n' s i p))"

lemma known_iff: "i \<in> known s \<longleftrightarrow> has_key i (phases s)"
  by (simp only: known_def has_key_iff)

lemma phase_ok_mono: "phase_ok n s i p \<Longrightarrow> known s \<subseteq> known s' \<Longrightarrow> phase_ok n s' i p"
  by (cases p) auto

lemma local_change_known:
  assumes "local_change i (n, s) (n', s')" and "i \<in> known s"
  shows "known s' = known s"
proof -
  have "j \<in> known s' \<longleftrightarrow> j \<in> known s" for j
    using assms by (cases "j = i") (auto simp: local_change_def known_iff)
  then show ?thesis by blast
qed

lemma local_change_inv:
  assumes inv: "sup_inv (n, s)" and i: "i \<in> known s" and ch: "local_change i (n, s) (n', s')"
  shows "sup_inv (n', s')"
proof -
  have known: "known s' = known s" using local_change_known [OF ch i] .
  have same: "child_name (child_at n' j) = child_name (child_at n j)"
    "child_mailbox (child_at n' j) = child_mailbox (child_at n j)" for j
    using ch by (simp_all add: local_change_def)
  have ok: "phase_ok n' s' j p" if p: "map_of (phases s') j = Some p" for j p
  proof (cases "j = i")
    case True
    with ch p have "phase_ok n' s i p" by (auto simp: local_change_def)
    then show ?thesis using True known phase_ok_mono by blast
  next
    case False
    then have pj: "map_of (phases s) j = Some p" using ch p by (auto simp: local_change_def)
    then have "phase_ok n s j p" using inv by (simp add: sup_inv_def)
    moreover have "addressable n j \<Longrightarrow> addressable n' j"
    proof -
      have "child_name (child_at n j) \<noteq> child_name (child_at n i)"
        using inv i False pj by (auto simp: sup_inv_def known_iff dest: inj_onD)
      then show "addressable n j \<Longrightarrow> addressable n' j"
        using ch by (auto simp: addressable_def same local_change_def)
    qed
    ultimately show ?thesis by (cases p) (auto simp: known)
  qed
  have "next_id n \<le> next_id n'" "set (sup_children s') \<subseteq> set (sup_children s)"
    using ch by (simp_all add: local_change_def)
  with inv ok show ?thesis by (auto simp: sup_inv_def known same order_less_le_trans)
qed

subsection \<open>The segments are local\<close>

definition node_change :: "nat \<Rightarrow> node \<Rightarrow> node \<Rightarrow> bool" where
  "node_change i n n' \<longleftrightarrow> next_id n \<le> next_id n'
     \<and> (\<forall>j. child_name (child_at n' j) = child_name (child_at n j)
          \<and> child_mailbox (child_at n' j) = child_mailbox (child_at n j))
     \<and> (\<forall>k. k = child_name (child_at n i) \<or> (map_of (mailboxes n') k = map_of (mailboxes n) k
          \<and> map_of (live_children n') k = map_of (live_children n) k))"

lemma local_change_iff:
  "local_change i (n, s) (n', s') \<longleftrightarrow> node_change i n n'
     \<and> (\<forall>j. j = i \<or> map_of (phases s') j = map_of (phases s) j)
     \<and> set (sup_children s') \<subseteq> set (sup_children s)
     \<and> (\<exists>p. map_of (phases s') i = Some p \<and> phase_ok n' s i p)"
  by (auto simp: local_change_def node_change_def)

lemma node_change_refl [simp]: "node_change i n n"
  by (simp add: node_change_def)

lemma node_change_trans: "node_change i n n1 \<Longrightarrow> node_change i n1 n2 \<Longrightarrow> node_change i n n2"
  by (fastforce simp: node_change_def)

lemma local_change_node:
  "node_change i n n1 \<Longrightarrow> local_change i (n1, s) y \<Longrightarrow> local_change i (n, s) y"
  using node_change_trans by (cases y) (auto simp: local_change_iff)

lemma node_change_update:
  "(\<And>c. child_name (f c) = child_name c \<and> child_mailbox (f c) = child_mailbox c) \<Longrightarrow>
   node_change i n (update_child j f n)"
  by (simp add: node_change_def)

lemma node_change_ended: "node_change i n (ended n (child_name (child_at n i)))"
  by (simp add: node_change_def)

lemma node_change_event [simp]: "node_change i n (on_core_event ev n)"
  by (simp add: node_change_def event_frame)

lemma node_change_notify [simp]: "node_change i n (notify_all n a l m r)"
  by (simp add: node_change_def)

lemma node_change_tasks [simp]: "node_change i n (n\<lparr>actor_tasks := x\<rparr>)"
  by (simp add: node_change_def)

lemma local_finish:
  assumes "node_change i n n'" "set (sup_children s') \<subseteq> set (sup_children s)" "phases s' = phases s"
  shows "local_change i (n, s) (finish i r (n', s'))"
  using assms node_change_trans [OF assms(1) node_change_tasks]
  by (simp add: finish_def local_change_iff)

lemma local_raise:
  assumes "node_change i n n'" "set (sup_children s') \<subseteq> set (sup_children s)" "phases s' = phases s"
  shows "local_change i (n, s) (raise_for_good i exc l m (n', s'))"
  using local_finish [OF node_change_trans [OF assms(1) node_change_notify] assms(2,3)]
  by (simp add: raise_for_good_def)

lemma local_crashed: "local_change i (n, s) (child_crashed now i exc l m (n, s))"
proof -
  obtain ok b where ok: "allow_restart now (sup_budget s) = (ok, b)" by (cases "allow_restart now (sup_budget s)")
  show ?thesis
  proof (cases ok)
    case True
    then show ?thesis by (simp add: child_crashed_def ok local_change_iff)
  next
    case False
    have "set (remove1 i (sup_children s)) \<subseteq> set (sup_children s)" by (rule set_remove1_subset)
    with False show ?thesis
      by (auto simp: child_crashed_def ok Let_def discard_child_def local_change_iff intro!: local_raise)
  qed
qed

lemma local_failed: "local_change i (n, s) (generation_failed now i exc (n, s))"
  using local_change_node [OF node_change_ended local_crashed]
  by (simp add: generation_failed_def end_generation_parts)

lemma local_driver_failed: "local_change i (n, s) (driver_failed now i exc (n, s))"
  unfolding driver_failed_def
  by (simp, rule local_change_node [OF node_change_update local_failed]) simp

lemma local_driver_cancelled: "local_change i (n, s) (driver_cancelled now i (n, s))"
proof -
  let ?n0 = "update_child i (\<lambda>c. c\<lparr>child_driver := Driver_done, child_pending_exit := None\<rparr>) n"
  have "node_change i n ?n0" by (rule node_change_update) simp
  then have n1: "node_change i n (ended ?n0 (child_name (child_at n i)))"
    using node_change_trans node_change_ended [of i ?n0] by fastforce
  show ?thesis
    using local_change_node [OF n1 local_crashed] local_finish [OF node_change_trans [OF n1 node_change_notify], of s s]
    by (simp add: driver_cancelled_def Let_def end_generation_parts split: option.split)
qed

lemma node_change_register:
  assumes "register_actor n (child_name (child_at n i)) q = (r, n1)"
  shows "node_change i n n1"
  using assms
  by (auto simp: register_actor_def node_change_def child_at_def split: option.splits if_splits prod.splits)

lemma local_begin:
  assumes "i \<in> known s"
  shows "local_change i (n, s) (begin_generation now init i (n, s))"
proof (cases init)
  case (Inl e)
  then show ?thesis by (simp add: begin_generation_def local_failed)
next
  case (Inr u)
  obtain r n1 where r: "register_actor n (child_name (child_at n i)) (child_mailbox (child_at n i)) = (r, n1)"
    by (cases "register_actor n (child_name (child_at n i)) (child_mailbox (child_at n i))")
  note ch = node_change_register [OF r]
  show ?thesis
  proof (cases r)
    case (Inl e)
    with Inr r show ?thesis using local_change_node [OF ch local_failed] by (simp add: begin_generation_def)
  next
    case (Inr v)
    with r have "map_of (mailboxes n1) (child_name (child_at n i)) = Some (child_mailbox (child_at n i))"
      by (auto simp: register_actor_def split: option.splits if_splits prod.splits)
    with Inr \<open>init = Inr u\<close> r ch show ?thesis
      by (auto simp: begin_generation_def local_change_iff node_change_def addressable_def)
  qed
qed

lemma local_cancel_lands:
  assumes "sup_inv (n, s)" and "i \<in> known s"
  shows "local_change i (n, s) (cancel_lands now i (n, s))"
proof -
  let ?s0 = "s\<lparr>cancels := set_discard i (cancels s)\<rparr>"
  obtain p where p: "map_of (phases s) i = Some p" using assms(2) by (auto simp: known_iff)
  have ok: "phase_ok n s i p" using assms(1) p by (simp add: sup_inv_def)
  have "local_change i (n, s) (driver_cancelled now i (n, ?s0))"
    using local_driver_cancelled [of i n ?s0 now]
    by (cases "driver_cancelled now i (n, ?s0)") (auto simp: local_change_iff phase_ok_mono known_def
        intro: phase_ok_mono [of _ ?s0])
  with p ok show ?thesis
    by (auto simp: cancel_lands_def Let_def local_change_iff intro!: local_finish split: phase.split list.split)
qed

subsection \<open>Every step keeps the invariant\<close>

lemma inv_local:
  assumes "sup_inv (n, s)" and "i \<in> known s" and "local_change i (n, s) y"
  shows "sup_inv y"
  using local_change_inv [OF assms(1,2)] assms(3) by (cases y) simp

lemma inv_respawn:
  assumes "sup_inv (n, s)" and "set sibs \<subseteq> known s" and "fold respawn_child sibs (n, s) = (n', s')"
  shows "sup_inv (n', s') \<and> known s' = known s"
  using assms
proof (induction sibs arbitrary: n s)
  case (Cons c sibs)
  obtain n1 s1 where r: "respawn_child c (n, s) = (n1, s1)" by (cases "respawn_child c (n, s)")
  have c: "c \<in> known s" using Cons.prems(2) by simp
  have "node_change c n n1"
    using r by (auto simp: respawn_child_def node_change_def)
  with r have ch: "local_change c (n, s) (n1, s1)"
    by (auto simp: local_change_iff respawn_child_def split: if_splits)
  have "known s1 = known s" using local_change_known [OF ch c] .
  with Cons.IH [OF inv_local [OF Cons.prems(1) c ch]] Cons.prems r show ?case by simp
qed simp

lemma inv_teardown:
  "sup_inv (n, s) \<Longrightarrow> i \<in> known s \<Longrightarrow> set sibs \<subseteq> known s \<Longrightarrow>
   sup_inv (teardown_siblings now init i cs sibs (n, s))"
proof (induction now init i cs sibs "(n, s)" rule: teardown_siblings.induct)
  case (1 now init i sibs)
  obtain n' s' where r: "fold respawn_child sibs (n, s) = (n', s')" by (cases "fold respawn_child sibs (n, s)")
  have r': "sup_inv (n', s')" "i \<in> known s'" using inv_respawn [OF 1(1,3) r] 1(2) by simp_all
  with r inv_local [OF r' local_begin [OF r'(2)]] show ?case by simp
next
  case (2 now init i c cs sibs)
  have "local_change i (n, s) (n, set_phase i (Tearing_down (c # cs) sibs) (ask_cancel c s))"
    using 2(4) by (simp add: local_change_iff)
  with 2 inv_local show ?case by auto
qed

lemma inv_spawn:
  assumes inv: "sup_inv (n, s)" and fresh: "\<forall>j \<in> set (keys (phases s)). child_name (child_at n j) \<noteq> name"
    and sp: "spawn name (n, s) = (Inr i, (n', s'))"
  shows "sup_inv (n', s')"
proof -
  let ?q = "next_id n"
  obtain n1 where n1: "new_mailbox (case mailbox_capacity n of None \<Rightarrow> 0 | Some c \<Rightarrow> c) n = (?q, n1)"
    "next_id n1 = next_id n + 1" "children n1 = children n" "live_children n1 = live_children n"
    "mailboxes n1 = mailboxes n"
    by (simp add: new_mailbox_def)
  obtain r n2 where r: "register_actor n1 name ?q = (r, n2)" by (cases "register_actor n1 name ?q")
  have f2: "next_id n2 = next_id n + 1" "children n2 = children n" "live_children n2 = live_children n"
    "\<forall>k. k \<noteq> name \<longrightarrow> map_of (mailboxes n2) k = map_of (mailboxes n) k"
    using r n1 by (auto simp: register_actor_def split: option.splits if_splits prod.splits)
  from sp n1(1) r have i: "i = next_id n2" and
    n': "n' = n2\<lparr>next_id := i + 1, children := dict_set i \<lparr>child_name = name, child_mailbox = ?q,
            child_driver = Driver_none, child_pending_exit = None\<rparr> (children n2),
          actor_tasks := set_add i (actor_tasks n2)\<rparr>"
    and s': "s' = set_phase i New (s\<lparr>sup_children := sup_children s @ [i]\<rparr>)"
    by (auto simp: spawn_def Let_def split: sum.splits)
  have at: "child_at n' j = (if j = i then \<lparr>child_name = name, child_mailbox = ?q,
      child_driver = Driver_none, child_pending_exit = None\<rparr> else child_at n j)" for j
    by (simp add: n' child_at_def f2)
  have known: "known s' = insert i (known s)"
    by (auto simp: known_iff s' split: if_splits)
  have less: "\<forall>j \<in> known s. j < i" using inv i f2(1) by (auto simp: sup_inv_def)
  have name: "\<forall>j \<in> known s. child_name (child_at n' j) \<noteq> name"
    using fresh less by (auto simp: at known_def)
  have "inj_on (\<lambda>j. child_name (child_at n' j)) (known s)"
    using inv less by (auto simp: sup_inv_def at inj_on_def)
  moreover have "child_name (child_at n' i) = name" by (simp add: at)
  ultimately have "inj_on (\<lambda>j. child_name (child_at n' j)) (known s')"
    using name by (auto simp: known)
  moreover have "phase_ok n' s' j p" if p: "map_of (phases s') j = Some p" for j p
  proof (cases "j = i")
    case True
    with p show ?thesis by (simp add: s')
  next
    case False
    then have pj: "map_of (phases s) j = Some p" using p by (simp add: s')
    then have "phase_ok n s j p" "j \<in> known s" using inv by (auto simp: sup_inv_def known_iff)
    moreover have "child_at n' j = child_at n j" "child_name (child_at n j) \<noteq> name"
      using name \<open>j \<in> known s\<close> False by (auto simp: at)
    moreover have "mailboxes n' = mailboxes n2" "live_children n' = live_children n2" by (simp_all add: n')
    ultimately have "addressable n j \<Longrightarrow> addressable n' j"
      using f2(3,4) by (auto simp: addressable_def)
    with \<open>phase_ok n s j p\<close>
    show ?thesis by (cases p) (auto simp: known)
  qed
  moreover have "\<forall>j \<in> known s'. j < next_id n'" using less by (auto simp: known n')
  moreover have "set (sup_children s') = insert i (set (sup_children s))" by (simp add: s')
  with inv have "set (sup_children s') \<subseteq> known s'" by (auto simp: sup_inv_def known)
  ultimately show ?thesis by (simp add: sup_inv_def)
qed

lemma affected_known: "affected_children s i = Some cs \<Longrightarrow> set (sup_children s) \<subseteq> known s \<Longrightarrow> i \<in> known s \<Longrightarrow> set cs \<subseteq> known s"
  by (auto simp: affected_children_def split: strategy.splits if_splits dest: set_dropWhileD)

lemma sup_step_inv: "sup_step x y \<Longrightarrow> sup_inv x \<Longrightarrow> sup_inv y"
proof (induction rule: sup_step.induct)
  case (Spawn s n name i x)
  then show ?case using inv_spawn [of n s name i] by (cases x) blast
next
  case (Begin s i n now init)
  then show ?case using inv_local [OF _ _ local_begin] by (simp add: known_iff)
next
  case (Fail s i n now exc)
  then show ?case using inv_local [OF _ _ local_driver_failed] by (simp add: known_iff)
next
  case (Kill s i n now)
  then show ?case using inv_local [OF _ _ local_driver_cancelled] by (simp add: known_iff)
next
  case (Cancel i s n now)
  then show ?case using inv_local [OF _ _ local_cancel_lands] by (simp add: known_iff)
next
  case (Backoff s i n now init)
  then have i: "i \<in> known s" by (simp add: known_iff)
  show ?case
  proof (cases "affected_children s i")
    case None
    then show ?thesis
      using inv_local [OF Backoff.prems i local_finish [of i n n s s]] by (simp add: backoff_over_def)
  next
    case (Some cs)
    have "set (filter (\<lambda>c. c \<noteq> i) cs) \<subseteq> known s"
      using affected_known [OF Some _ i] Backoff.prems by (auto simp: sup_inv_def)
    with Some inv_teardown [OF Backoff.prems i] show ?thesis by (simp add: backoff_over_def Let_def)
  qed
next
  case (Teardown i s n now init)
  then have i: "i \<in> known s" by (simp add: known_iff)
  have "set sibs \<subseteq> known s" if "map_of (phases s) i = Some (Tearing_down cs sibs)" for cs sibs
    using Teardown.prems that by (fastforce simp: sup_inv_def)
  then show ?case using Teardown.prems inv_teardown [OF Teardown.prems i]
    by (auto simp: teardown_over_def split: option.split phase.split list.split)
next
  case (Give_up i s n)
  then have i: "i \<in> known s" by (simp add: known_iff)
  have "sup_inv (raise_for_good i exc l m (n, s\<lparr>give_up_exc := Some exc, given_up := True\<rparr>))" for exc l m
    by (rule inv_local [OF Give_up.prems i local_raise]) simp_all
  then show ?case using Give_up.prems
    by (auto simp: giving_up_over_def split: option.split phase.split)
next
  case (Ask n s i)
  then show ?case by (auto simp: sup_inv_def known_def intro: phase_ok_mono [of n s] split: prod.splits)
next
  case (Shutdown n s)
  then show ?case by (auto simp: sup_inv_def known_def shutdown_def intro: phase_ok_mono [of n s])
next
  case (Other n n' s)
  have "phase_ok n' s i p" if "map_of (phases s) i = Some p" for i p
  proof -
    have "phase_ok n s i p" using Other.prems that by (simp add: sup_inv_def)
    moreover have "i \<in> set (keys (phases s))" using that by (simp only: flip: has_key_iff) simp
    ultimately show ?thesis using Other.hyps(2,3) by (cases p) (auto simp: addressable_def)
  qed
  with Other show ?case by (auto simp: sup_inv_def order_less_le_trans)
qed

subsection \<open>Properties of any interleaving\<close>


definition empty_sup :: sup where
  "empty_sup = (demo_sup One_for_one)\<lparr>sup_children := [], phases := []\<rparr>"


end
