(* ===== verification/Codec_Types.thy ===== *)
theory Codec_Types
  imports Codec
begin

text \<open>
  The type of payloads that can be sent to another node. \<open>sendable\<close> reads the type off a value:
  it looks at classes, codecs and ranges and builds nothing. The encoder and the JSON conversion
  together accept exactly the values of that type, and what they hand to the receiver is of the
  type of JSON data.
\<close>

text \<open>JSON data: no objects, integers of 64 bits, finite floats.\<close>

fun json_data :: "pyval \<Rightarrow> bool"
  and json_data_list :: "pyval list \<Rightarrow> bool"
  and json_data_items :: "(string \<times> pyval) list \<Rightarrow> bool" where
  "json_data (PInt i) = i64_or_u64 i"
| "json_data (PFloat f) = (case f of Finite m e \<Rightarrow> True | _ \<Rightarrow> False)"
| "json_data (PList xs) = json_data_list xs"
| "json_data (PTuple xs) = json_data_list xs"
| "json_data (PDict d) = json_data_items d"
| "json_data (PObj c d) = False"
| "json_data _ = True"
| "json_data_list [] = True"
| "json_data_list (x # xs) = (json_data x \<and> json_data_list xs)"
| "json_data_items [] = True"
| "json_data_items ((k, v) # d) = (json_data v \<and> json_data_items d)"

definition dumps_json :: "pyval res \<Rightarrow> bool" where
  "dumps_json r = (case r of Inl e \<Rightarrow> False | Inr data \<Rightarrow> json_data data)"

text \<open>A registered codec decides before the class does, also for the containers of the language.\<close>

fun sendable :: "codec_env \<Rightarrow> pyval \<Rightarrow> bool"
  and sendable_list :: "codec_env \<Rightarrow> pyval list \<Rightarrow> bool"
  and sendable_items :: "codec_env \<Rightarrow> (string \<times> pyval) list \<Rightarrow> (string \<times> bool) list" where
  "sendable env (PList xs) =
     (case map_of (registry env) (tag_of (builtin ''list'')) of
        Some entry \<Rightarrow> dumps_json (entry_encode entry (PList xs))
      | None \<Rightarrow> sendable_list env xs)"
| "sendable env (PTuple xs) =
     (case map_of (registry env) (tag_of (builtin ''tuple'')) of
        Some entry \<Rightarrow> dumps_json (entry_encode entry (PTuple xs))
      | None \<Rightarrow> sendable_list env xs)"
| "sendable env (PDict d) =
     (case map_of (registry env) (tag_of (builtin ''dict'')) of
        Some entry \<Rightarrow> dumps_json (entry_encode entry (PDict d))
      | None \<Rightarrow> list_all snd (sendable_items env d))"
| "sendable env (PObj c attrs) =
     (case map_of (registry env) (tag_of c) of
        Some entry \<Rightarrow> dumps_json (entry_encode entry (PObj c attrs))
      | None \<Rightarrow>
         (case kind_of env c of
            Dataclass fs \<Rightarrow> list_all (\<lambda>f. map_of (sendable_items env attrs) f = Some True) (keys fs)
          | PydanticModel \<Rightarrow> dumps_json (model_dump env (PObj c attrs))
          | PlainClass \<Rightarrow> False))"
| "sendable env v = json_data v"
| "sendable_list env [] = True"
| "sendable_list env (v # xs) = (sendable env v \<and> sendable_list env xs)"
| "sendable_items env [] = []"
| "sendable_items env ((k, v) # d) = (k, sendable env v) # sendable_items env d"

subsection \<open>The JSON conversion\<close>

lemma py_to_json_typed:
  shows "(\<exists>j. py_to_json v = Inr j) \<longleftrightarrow> json_data v"
    and "(\<exists>js. py_to_json_list xs = Inr js) \<longleftrightarrow> json_data_list xs"
    and "(\<exists>js. py_to_json_items d = Inr js) \<longleftrightarrow> json_data_items d"
proof (induction v and xs and d rule: json_data_json_data_list_json_data_items.induct)
qed (auto split: pyfloat.splits)

lemma py_to_json_data: "json_data v \<Longrightarrow> \<exists>j. py_to_json v = Inr j"
  using py_to_json_typed(1) by blast

text \<open>What comes out of the wire is JSON data again, with lists in place of tuples.\<close>

lemma json_data_items_all: "json_data_items d \<longleftrightarrow> (\<forall>x \<in> set d. json_data (snd x))"
  by (induction d) auto

lemma json_data_items_set:
  "json_data_items d \<Longrightarrow> json_data v \<Longrightarrow> json_data_items (dict_set k v d)"
  by (induction d) (auto split: if_splits)

lemma json_to_py_typed:
  shows "py_to_json v = Inr j \<Longrightarrow> json_data (json_to_py j)"
    and "py_to_json_list xs = Inr js \<Longrightarrow> json_data_list (json_to_py_list js)"
    and "py_to_json_items d = Inr jd \<Longrightarrow> json_data_items out \<Longrightarrow> json_data_items (json_to_py_items jd out)"
proof (induction v and xs and d arbitrary: j and js and jd out rule: py_to_json_py_to_json_list_py_to_json_items.induct)
qed (auto simp: json_data_items_set split: if_splits pyfloat.splits)

subsection \<open>The encoder\<close>

lemma map_of_sendable_items: "map_of (sendable_items env d) k = map_option (sendable env) (map_of d k)"
  by (induction d) auto

lemma json_data_envelope [simp]: "json_data (envelope c data) \<longleftrightarrow> json_data data"
  by (simp add: envelope_def)

lemma encode_by_entry:
  assumes "\<not> json_native v" and "map_of (registry env) (tag_of (type_of v)) = Some entry"
  shows "(\<exists>e same. encode_obj env v = Inr (e, same) \<and> json_data e) \<longleftrightarrow> dumps_json (entry_encode entry v)"
  using assms by (cases "entry_encode entry v") (auto simp: encode_obj.simps [of env v] dumps_json_def)

lemma encode_list_typed:
  assumes "map_of (registry env) (tag_of (type_of v)) = None" and "v = PList xs \<or> v = PTuple xs"
  shows "(\<exists>e same. encode_obj env v = Inr (e, same) \<and> json_data e)
           \<longleftrightarrow> (\<exists>out same. encode_list env xs = Inr (out, same) \<and> json_data_list out)"
proof (cases "encode_list env xs")
  case (Inr r)
  obtain out same where r: "r = (out, same)" by (cases r)
  have "encode_obj env v = Inr (if same then v else PList out, same)"
    using assms Inr r by (auto simp: encode_obj.simps [of env v] json_native_def)
  moreover have "same \<Longrightarrow> out = xs" using encode_shares(4) Inr r by auto
  ultimately show ?thesis using assms(2) Inr r by auto
qed (use assms in \<open>auto simp: encode_obj.simps [of env v] json_native_def\<close>)

lemma encode_dict_typed:
  assumes "map_of (registry env) (tag_of (builtin ''dict'')) = None"
  shows "(\<exists>e same. encode_obj env (PDict d) = Inr (e, same) \<and> json_data e)
           \<longleftrightarrow> (\<exists>out same. encode_items env d = Inr (out, same) \<and> json_data_items out)"
proof (cases "encode_items env d")
  case (Inr r)
  obtain out same where r: "r = (out, same)" by (cases r)
  have "encode_obj env (PDict d) = Inr (if same then PDict d else PDict out, same)"
    using assms Inr r by (simp add: encode_obj.simps [of env "PDict d"] json_native_def)
  moreover have "same \<Longrightarrow> out = d" using encode_shares(3) Inr r by auto
  ultimately show ?thesis using Inr r by auto
qed (use assms in \<open>simp add: encode_obj.simps [of env "PDict d"] json_native_def\<close>)

lemma encode_object_typed:
  assumes "map_of (registry env) (tag_of c) = None"
    and "\<And>fs. kind_of env c = Dataclass fs \<Longrightarrow>
      list_all (\<lambda>f. map_of (sendable_items env attrs) f = Some True) (keys fs)
        \<longleftrightarrow> (\<exists>out. encode_fields env fs attrs = Inr out \<and> json_data_items out)"
  shows "sendable env (PObj c attrs) \<longleftrightarrow> (\<exists>e same. encode_obj env (PObj c attrs) = Inr (e, same) \<and> json_data e)"
proof (cases "kind_of env c")
  case (Dataclass fs)
  then show ?thesis using assms(1) assms(2) [OF Dataclass]
    by (auto simp: encode_obj.simps [of env "PObj c attrs"] json_native_def)
next
  case PydanticModel
  then show ?thesis using assms(1)
    by (cases "model_dump env (PObj c attrs)")
      (auto simp: encode_obj.simps [of env "PObj c attrs"] json_native_def dumps_json_def)
qed (use assms(1) in \<open>simp add: encode_obj.simps [of env "PObj c attrs"] json_native_def\<close>)

text \<open>A registered codec decides for every value but the native ones.\<close>

lemma sendable_by_entry:
  assumes "map_of (registry env) (tag_of (type_of v)) = Some entry"
  shows "sendable env v \<longleftrightarrow> (\<exists>e same. encode_obj env v = Inr (e, same) \<and> json_data e)"
proof (cases "json_native v")
  case False
  show ?thesis using assms False unfolding encode_by_entry [OF False assms]
    by (cases v) (simp_all add: json_native_def)
qed (cases v; auto simp: json_native_def encode_obj.simps)

lemma encode_typed:
  shows "sendable env v \<longleftrightarrow> (\<exists>e same. encode_obj env v = Inr (e, same) \<and> json_data e)"
    and "list_all (\<lambda>f. map_of (sendable_items env attrs) f = Some True) (keys fs)
           \<longleftrightarrow> (\<exists>out. encode_fields env fs attrs = Inr out \<and> json_data_items out)"
    and "list_all snd (sendable_items env d) \<longleftrightarrow> (\<exists>out same. encode_items env d = Inr (out, same) \<and> json_data_items out)"
    and "sendable_list env xs \<longleftrightarrow> (\<exists>out same. encode_list env xs = Inr (out, same) \<and> json_data_list out)"
proof (induction env v and env "fs :: (string \<times> pyval option) list" "attrs :: (string \<times> pyval) list"
      and env d and env xs rule: encode_obj_encode_fields_encode_items_encode_list.induct)
  case (1 env v)
  show ?case
  proof (cases "map_of (registry env) (tag_of (type_of v))")
    case (Some entry)
    then show ?thesis by (rule sendable_by_entry)
  next
    case None
    show ?thesis
    proof (cases v)
      case (PObj c attrs)
      have "sendable env (PObj c attrs) \<longleftrightarrow> (\<exists>e same. encode_obj env (PObj c attrs) = Inr (e, same) \<and> json_data e)"
        using None PObj "1.IH"(4) [OF _ None PObj] by (intro encode_object_typed) (auto simp: json_native_def)
      then show ?thesis by (simp add: PObj)
    next
      case (PDict d)
      then show ?thesis using None "1.IH"(3) [OF _ None PDict] encode_dict_typed [of env d]
        by (simp add: json_native_def)
    next
      case (PList xs)
      then show ?thesis using None "1.IH"(1) [OF _ None PList] encode_list_typed [of env v xs]
        by (simp add: json_native_def)
    next
      case (PTuple xs)
      then show ?thesis using None "1.IH"(2) [OF _ None PTuple] encode_list_typed [of env v xs]
        by (simp add: json_native_def)
    qed (auto simp: encode_obj.simps json_native_def)
  qed
next
  case (3 env f dflt fs attrs)
  show ?case
  proof (cases "map_of attrs f")
    case (Some v)
    show ?thesis
    proof (cases "encode_obj env v")
      case (Inr r)
      obtain e same where "r = (e, same)" by (cases r)
      then show ?thesis using Some Inr 3(1) [OF Some] 3(2) [OF Some Inr] by (auto simp: map_of_sendable_items)
    qed (use Some 3(1) [OF Some] in \<open>simp add: map_of_sendable_items\<close>)
  qed (simp add: map_of_sendable_items)
next
  case (5 env k v d)
  show ?case
  proof (cases "encode_obj env v")
    case (Inr r)
    obtain e same where "r = (e, same)" by (cases r)
    then show ?thesis using Inr 5(1) 5(2) [OF Inr] by auto
  qed (use 5(1) in simp)
next
  case (7 env v xs)
  show ?case
  proof (cases "encode_obj env v")
    case (Inr r)
    obtain e same where "r = (e, same)" by (cases r)
    then show ?thesis using Inr 7(1) 7(2) [OF Inr] by auto
  qed (use 7(1) in simp)
qed auto


end
