(* ===== verification/Network.thy ===== *)
theory Network
  imports Ask
begin

text \<open>
  Programs that talk to several nodes: sequences of operations that end at the first exception,
  the traffic from one node to another, and the turns of actors. \<open>same_node\<close> relates the states of
  one node between which only mail has moved; under it everything that decides whether a send is
  accepted stays the same, which is what the composition of several hops rests on.
\<close>

subsection \<open>Sequences of operations\<close>

fun and_then :: "'a res \<times> 's \<Rightarrow> ('a \<Rightarrow> 's \<Rightarrow> 'b res \<times> 's) \<Rightarrow> 'b res \<times> 's" where
  "and_then (Inl e, s) f = (Inl e, s)"
| "and_then (Inr x, s) f = f x s"

lemma and_then_cong [fundef_cong]:
  "m = m' \<Longrightarrow> (\<And>x s. m' = (Inr x, s) \<Longrightarrow> f x s = g x s) \<Longrightarrow> and_then m f = and_then m' g"
  by (cases "(m', g)" rule: and_then.cases) auto

lemma and_then_assoc: "and_then (and_then m f) g = and_then m (\<lambda>x s. and_then (f x s) g)"
  by (cases "(m, f)" rule: and_then.cases) auto

text \<open>A property of states that every operation keeps is kept by the sequence.\<close>

lemma and_then_keeps:
  "P (snd m) \<Longrightarrow> (\<And>x s. P s \<Longrightarrow> P (snd (f x s))) \<Longrightarrow> P (snd (and_then m f))"
  by (cases "(m, f)" rule: and_then.cases) auto

subsection \<open>Traffic between nodes\<close>

definition outbox :: "node \<Rightarrow> frame list" where
  "outbox n = (case core n of None \<Rightarrow> [] | Some c \<Rightarrow> core_out c)"

text \<open>Everything that a node has put on its connection to \<open>peer\<close> between two of its states arrives at the
  node behind it, in order.\<close>

fun arrive_frame :: "string \<Rightarrow> nodeid \<Rightarrow> nodeid \<Rightarrow> frame \<Rightarrow> node \<Rightarrow> node" where
  "arrive_frame src peer from_peer (Data_frame p dst j i reply_to corr) b =
     (if p = peer then arrive b from_peer src dst j i reply_to corr else b)"
| "arrive_frame src peer from_peer (Error_frame p detail i corr) b = b"

definition hop :: "node \<Rightarrow> node \<Rightarrow> nodeid \<Rightarrow> nodeid \<Rightarrow> node \<Rightarrow> node" where
  "hop before after peer from_peer b =
     fold (arrive_frame (local_id after) peer from_peer) (drop (length (outbox before)) (outbox after)) b"

text \<open>The next message of an actor, and the node without it.\<close>

definition take_mail :: "string \<Rightarrow> node \<Rightarrow> (message \<times> node) option" where
  "take_mail name n =
     (case map_of (mailboxes n) name of
        None \<Rightarrow> None
      | Some q \<Rightarrow> map_option (\<lambda>(m, x). (m, n\<lparr>queues := dict_set q x (queues n)\<rparr>)) (get_item (queue_at n q)))"

text \<open>One turn of an actor: its next message, if there is one.\<close>

definition turn :: "string \<Rightarrow> (node \<Rightarrow> pyval \<Rightarrow> unit res \<times> node) \<Rightarrow> node \<Rightarrow> unit res \<times> node" where
  "turn name receive n =
     (case take_mail name n of None \<Rightarrow> (Inr (), n) | Some ((msg, mt), n') \<Rightarrow> receive n' msg)"

subsection \<open>States that differ in mail only\<close>

definition same_core :: "core \<Rightarrow> core \<Rightarrow> bool" where
  "same_core c c' \<longleftrightarrow> core_running c' = core_running c \<and> core_peers c' = core_peers c
     \<and> core_closed c' = core_closed c \<and> json_len c' = json_len c \<and> core_local c' = core_local c
     \<and> core_routing c' = core_routing c"

definition same_node :: "node \<Rightarrow> node \<Rightarrow> bool" where
  "same_node n n' \<longleftrightarrow> (\<exists>c c'. core n = Some c \<and> core n' = Some c' \<and> same_core c c')
     \<and> n' = n\<lparr>core := core n', queues := queues n'\<rparr>"

lemma same_node_refl: "core n = Some c \<Longrightarrow> same_node n n"
  by (simp add: same_node_def same_core_def)

lemma same_node_fields:
  assumes "same_node n n'"
  shows "mailboxes n' = mailboxes n" "codec_of n' = codec_of n" "tasks n' = tasks n" "started n' = started n"
    "live_children n' = live_children n" "children n' = children n" "names n' = names n" "groups n' = groups n"
    "links n' = links n" "monitors n' = monitors n" "next_id n' = next_id n" "trap_exit_flags n' = trap_exit_flags n"
  by (subst assms [unfolded same_node_def, THEN conjunct2], simp)+

lemma same_node_trans:
  assumes "same_node n n'" "same_node n' n''"
  shows "same_node n n''"
proof -
  have eq: "n' = n\<lparr>core := core n', queues := queues n'\<rparr>" "n'' = n'\<lparr>core := core n'', queues := queues n''\<rparr>"
    using assms by (simp_all add: same_node_def)
  have "n'\<lparr>core := k, queues := q\<rparr> = n\<lparr>core := k, queues := q\<rparr>" for k q by (subst eq(1), simp)
  with eq(2) have "n'' = n\<lparr>core := core n'', queues := queues n''\<rparr>" by simp
  moreover have "\<exists>c c'. core n = Some c \<and> core n'' = Some c' \<and> same_core c c'"
    using assms by (auto simp: same_node_def same_core_def)
  ultimately show ?thesis unfolding same_node_def by blast
qed

lemma same_node_local_id: "same_node n n' \<Longrightarrow> local_id n' = local_id n"
  by (auto simp: same_node_def same_core_def local_id_def)

lemma same_node_can_send: "same_node n n' \<Longrightarrow> can_send n' p m k = can_send n p m k"
proof -
  assume s: "same_node n n'"
  then obtain c c' where c: "core n = Some c" "core n' = Some c'" "same_core c c'" by (auto simp: same_node_def)
  then show "can_send n' p m k = can_send n p m k"
    by (intro can_send_cong [OF c(1,2) same_node_fields(2) [OF s]]) (simp_all add: same_core_def)
qed

lemma same_node_queues: "core n = Some c \<Longrightarrow> same_node n (n\<lparr>queues := x\<rparr>)"
  by (simp add: same_node_def same_core_def)

subsection \<open>Mail\<close>

text \<open>The pending mail of an actor by its name. A healthy node runs, its mailboxes have no bound, as without
  \<^verbatim>\<open>mailbox_capacity\<close>, and no two names share one.\<close>

definition mail :: "node \<Rightarrow> string \<Rightarrow> message list" where
  "mail n name = (case map_of (mailboxes n) name of None \<Rightarrow> [] | Some q \<Rightarrow> items (queue_at n q))"

definition healthy :: "node \<Rightarrow> bool" where
  "healthy n \<longleftrightarrow> node_wf n \<and> core n \<noteq> None \<and> inj_on (map_of (mailboxes n)) (dom (map_of (mailboxes n)))
     \<and> (\<forall>q \<in> ran (map_of (mailboxes n)). maxsize (queue_at n q) \<le> 0)"

lemma healthy_core: "healthy n \<Longrightarrow> \<exists>c. core n = Some c"
  by (auto simp: healthy_def)

text \<open>The one way in which mail moves on a node: the items of one mailbox are replaced.\<close>

lemma put_box:
  assumes "healthy n" "map_of (mailboxes n) name = Some q"
    and "n' = n\<lparr>queues := dict_set q ((queue_at n q)\<lparr>items := xs\<rparr>) (queues n)\<rparr>"
  shows "same_node n n'" "healthy n'" "outbox n' = outbox n" "mail n' = (mail n)(name := xs)"
proof -
  obtain c where c: "core n = Some c" using healthy_core [OF assms(1)] by blast
  have m: "mailboxes n' = mailboxes n" "queue_at n' q' = (if q' = q then (queue_at n q)\<lparr>items := xs\<rparr> else queue_at n q')"
    for q' by (simp_all add: assms(3))
  have size: "maxsize (queue_at n q) \<le> 0" using assms(1,2) by (auto simp: healthy_def ran_def)
  show "same_node n n'" using c by (simp add: assms(3) same_node_queues)
  show "outbox n' = outbox n" by (simp add: assms(3) outbox_def)
  have "node_wf n'" unfolding assms(3)
    using assms(1,2) size by (intro node_wf_put_queue node_wf_mailbox_key) (auto simp: healthy_def queue_wf_def)
  with assms(1) c size show "healthy n'" by (auto simp: healthy_def m) (simp add: assms(3))
  have inj: "map_of (mailboxes n) a = Some q \<Longrightarrow> a = name" for a
    using assms(1,2) by (auto simp: healthy_def inj_on_def dom_def)
  show "mail n' = (mail n)(name := xs)"
  proof (rule ext)
    fix a
    show "mail n' a = ((mail n)(name := xs)) a"
      using assms(2) inj [of a] by (cases "map_of (mailboxes n) a") (auto simp: mail_def m)
  qed
qed

lemma local_send:
  assumes "healthy n" "name \<in> dom (map_of (mailboxes n))"
  obtains n' where "send_local n name msg r k = (Inr (), n')" "same_node n n'" "healthy n'" "outbox n' = outbox n"
    "mail n' = (mail n)(name := mail n name @ [(msg, local_meta n r k)])"
proof -
  obtain q where q: "map_of (mailboxes n) name = Some q" using assms(2) by auto
  then have "\<not> queue_full (queue_at n q)" using assms(1) by (auto simp: healthy_def queue_full_def ran_def)
  note s = send_local_accepted [OF q this, of msg r k]
  have "mail n name = items (queue_at n q)" by (simp add: mail_def q)
  with put_box [OF assms(1) q refl, of "items (queue_at n q) @ [(msg, local_meta n r k)]"] show thesis
    by (intro that [OF s]) simp_all
qed

lemma remote_send:
  assumes "healthy n" "can_send n peer_id msg corr" "parse peer_id = Inr p"
  obtains n' j i where "send_remote n peer_id dst msg r corr = (Inr (), n')" "same_node n n'" "healthy n'"
    "mail n' = mail n" "outbox n' = outbox n @ [Data_frame p dst j i r corr]"
    "decode_payload (codec_of n) (json_to_py j) = Inr (untuple msg)"
proof -
  from assms(2) obtain c p' e j where c: "core n = Some c" "core_running c" "portable (codec_of n) msg"
    "u64_arg corr = Inr ()" "parse peer_id = Inr p'" "p' \<in> set (core_peers c)" "p' \<notin> set (core_closed c)"
    "encode_payload (codec_of n) msg = Inr e" "py_to_json e = Inr j" "json_len c j \<le> MAX_FRAME_SIZE"
    "decode_payload (codec_of n) (json_to_py j) = Inr (untuple msg)" by (rule can_sendD)
  note s = send_remote_accepted [OF c(1,2,8,9,5,6,7,10,4), of dst r]
  define n' where "n' = snd (send_remote n peer_id dst msg r corr)"
  have n': "mailboxes n' = mailboxes n" "queue_at n' = queue_at n" unfolding n'_def s by (auto simp: queue_at_def)
  have "node_wf n'" unfolding n'_def using assms(1) by (simp add: healthy_def node_wf_send_remote)
  moreover have "core n' \<noteq> None" unfolding n'_def s by simp
  ultimately have h: "healthy n'" using assms(1) by (simp add: healthy_def n')
  have m: "mail n' = mail n" by (rule ext) (simp only: mail_def n')
  have "send_remote n peer_id dst msg r corr = (Inr (), n')" "same_node n n'"
    "outbox n' = outbox n @ [Data_frame p dst j (core_msg_id c) r corr]"
    using c assms(3) by (simp_all add: n'_def s same_node_def same_core_def outbox_def)
  with h m c(11) show thesis by (intro that)
qed

lemma take_mail_head:
  assumes "healthy n" "mail n name = m # ms"
  obtains n' where "take_mail name n = Some (m, n')" "same_node n n'" "healthy n'" "outbox n' = outbox n"
    "mail n' = (mail n)(name := ms)"
proof -
  from assms(2) obtain q where q: "map_of (mailboxes n) name = Some q" and i: "items (queue_at n q) = m # ms"
    by (auto simp: mail_def split: option.splits)
  from i have "take_mail name n = Some (m, n\<lparr>queues := dict_set q ((queue_at n q)\<lparr>items := ms\<rparr>) (queues n)\<rparr>)"
    by (simp add: take_mail_def q get_item_def)
  with put_box [OF assms(1) q refl, of ms] show thesis by (intro that)
qed

lemma hop_frames:
  "outbox after = outbox before @ fs \<Longrightarrow>
   hop before after peer from_peer b = fold (arrive_frame (local_id after) peer from_peer) fs b"
  by (simp add: hop_def)

lemma frame_arrives:
  assumes "healthy b" "dst \<in> dom (map_of (mailboxes b))" "decode_payload (codec_of b) (json_to_py j) = Inr m"
  obtains b' where "arrive_frame src p f (Data_frame p dst j i r k) b = b'" "same_node b b'" "healthy b'"
    "outbox b' = outbox b" "mail b' = (mail b)(dst := mail b dst
       @ [(m, \<lparr>m_src = Some src, m_reply_to = r, m_correlation_id = k, m_msg_id = Some i\<rparr>)])"
proof -
  obtain q where q: "map_of (mailboxes b) dst = Some q" using assms(2) by auto
  then have "\<not> queue_full (queue_at b q)" using assms(1) by (auto simp: healthy_def queue_full_def ran_def)
  note a = arrive_delivers [OF _ q this assms(3), of f src i r k]
  have "mail b dst = items (queue_at b q)" by (simp add: mail_def q)
  with put_box [OF assms(1) q refl, of "items (queue_at b q)
      @ [(m, \<lparr>m_src = Some src, m_reply_to = r, m_correlation_id = k, m_msg_id = Some i\<rparr>)]"] a assms(1)
  show thesis by (intro that) (simp_all add: healthy_def)
qed

lemma frame_passes: "p \<noteq> peer \<Longrightarrow> arrive_frame src peer f (Data_frame p dst j i r k) b = b"
  by simp

text \<open>The frames for one mailbox of a peer, and the value that the peer decodes from a frame.\<close>

definition frames_for :: "nodeid \<Rightarrow> string \<Rightarrow> frame list \<Rightarrow> frame list" where
  "frames_for p dst fs = filter (\<lambda>f. case f of Data_frame p' dst' _ _ _ _ \<Rightarrow> p' = p \<and> dst' = dst | _ \<Rightarrow> False) fs"

fun carries :: "codec_env \<Rightarrow> frame \<Rightarrow> pyval \<Rightarrow> bool" where
  "carries env (Data_frame p dst j i r k) v \<longleftrightarrow> decode_payload env (json_to_py j) = Inr v"
| "carries env (Error_frame p detail i k) v \<longleftrightarrow> False"

text \<open>They arrive with what they carry, in order.\<close>

lemma frames_arrive:
  assumes "healthy b" "name \<in> dom (map_of (mailboxes b))" "list_all2 (carries env) fs vs" "frames_for p name fs = fs"
    "codec_of b = env"
  shows "map fst (mail (fold (arrive_frame src p f) fs b) name) = map fst (mail b name) @ vs"
  using assms(3,1,2,4,5)
proof (induction fs vs arbitrary: b rule: list_all2_induct)
  case (Cons x fs v vs)
  have "x \<in> set (frames_for p name (x # fs))" using Cons.prems(3) by simp
  then obtain j i r k where x: "x = Data_frame p name j i r k"
    unfolding frames_for_def set_filter by (cases x) simp_all
  then have fs: "frames_for p name fs = fs" using Cons.prems(3) by (simp add: frames_for_def)
  have "decode_payload (codec_of b) (json_to_py j) = Inr v" using Cons.hyps(1) Cons.prems(4) x by simp
  then obtain b' where b': "arrive_frame src p f x b = b'" "same_node b b'" "healthy b'"
    "mail b' = (mail b)(name := mail b name @ [(v, \<lparr>m_src = Some src, m_reply_to = r, m_correlation_id = k, m_msg_id = Some i\<rparr>)])"
    unfolding x by (rule frame_arrives [OF Cons.prems(1,2)])
  have "map fst (mail (fold (arrive_frame src p f) fs b') name) = map fst (mail b' name) @ vs"
    by (rule Cons.IH) (use Cons.prems Cons.hyps fs same_node_fields(1,2) [OF b'(2)] b'(3) in simp_all)
  then show ?case using b'(1,4) by simp
qed simp

text \<open>A send that was accepted could be sent, and one that was refused has moved nothing.\<close>

lemma accepted_can_send:
  assumes "send_remote n peer_id dst msg r corr = (Inr (), n')" "portable (codec_of n) msg"
  shows "can_send n peer_id msg corr"
proof -
  obtain c where c: "core n = Some c" using assms(1) by (auto simp: send_remote_def split: option.splits)
  obtain e where e: "encode_payload (codec_of n) msg = Inr e"
    using assms(1) c by (auto simp: send_remote_def split: sum.splits)
  obtain p j where a: "send_args c peer_id e corr = Inr (p, j)"
    using assms(1) c e by (auto simp: send_remote_def with_core_def core_send_data_def split: sum.splits prod.splits)
  have "fst (send_data_bytes c p dst j r corr) = Inr ()"
    using assms(1) c e a by (simp add: send_remote_def with_core_def core_send_data_def split: prod.splits)
  then have "p \<in> set (core_peers c)" "p \<notin> set (core_closed c)" "json_len c j \<le> MAX_FRAME_SIZE"
    by (auto simp: send_data_bytes_def Let_def split: if_splits)
  moreover have "u64_arg corr = Inr ()" "parse peer_id = Inr p" "py_to_json e = Inr j" "core_running c"
    using a by (cases "u64_arg corr"; cases "parse peer_id"; cases "py_to_json e"; cases "core_running c";
        simp add: send_args_def parse_peer_def require_def)+
  ultimately show ?thesis using c e assms(2) by (simp add: can_send_def)
qed

lemma refused_send:
  assumes "healthy n" "send_remote n peer_id dst msg r corr = (Inl e, n')"
  shows "same_node n n'" "healthy n'" "mail n' = mail n" "outbox n' = outbox n"
proof -
  obtain c where c: "core n = Some c" using healthy_core [OF assms(1)] by blast
  obtain c' where n': "n' = n\<lparr>core := Some c'\<rparr>" "same_core c c'" "core_out c' = core_out c"
    using assms(2) c by (auto simp: send_remote_def with_core_def core_send_data_def send_data_bytes_def Let_def same_core_def
        split: sum.splits prod.splits if_splits intro: that [of c])
  show "same_node n n'" using c n' by (simp add: same_node_def)
  show "outbox n' = outbox n" using c n' by (simp add: outbox_def)
  have q: "queue_at n' = queue_at n" "mailboxes n' = mailboxes n" using n' by (auto simp: queue_at_def)
  show "mail n' = mail n" by (rule ext) (simp only: mail_def q)
  have "node_wf n'" using node_wf_send_remote [of n peer_id dst msg r corr] assms by (simp add: healthy_def)
  then show "healthy n'" using assms(1) n'(1) by (simp add: healthy_def queue_at_def)
qed

end
