(* ===== verification/Startup.thy ===== *)
theory Startup
  imports Network Cluster Pool
begin

text \<open>
  How the programs of \<^verbatim>\<open>src/examples\<close> come up: a node is started, a supervisor spawns the actors, and the
  node dials its peers in a loop of attempts. What other code and the transport do while a program
  is suspended is an argument: three functions on nodes for each attempt to connect.
\<close>

subsection \<open>Connecting\<close>

record dial_events =
  while_dialing :: "node \<Rightarrow> node"
  while_waiting :: "node \<Rightarrow> node"
  while_asleep :: "node \<Rightarrow> node"

text \<open>\<^verbatim>\<open>connect_peer\<close> from its call to its end. The transport dials on its own threads, so it may have
  connected between the two checks.\<close>

definition connect_peer :: "dial_events \<Rightarrow> node \<Rightarrow> string \<Rightarrow> unit res \<times> node" where
  "connect_peer a n peer_id =
     and_then (connect_check n peer_id) (\<lambda>there n.
       if there then (Inr (), n)
       else case connect_wait n peer_id of (fut, n) \<Rightarrow>
         let n = while_dialing a n
         in case has_peer n peer_id of
              Inl e \<Rightarrow> (Inl e, drop_waiter peer_id fut n)
            | Inr True \<Rightarrow> (Inr (), drop_waiter peer_id fut n)
            | Inr False \<Rightarrow> connect_finish (while_waiting a n) peer_id fut)"

text \<open>The loop around it: a failed connection is tried again after a sleep, until the attempts are used
  up; any other exception ends the program.\<close>

fun connect_retry :: "string \<Rightarrow> dial_events list \<Rightarrow> node \<Rightarrow> string \<Rightarrow> unit res \<times> node" where
  "connect_retry failure [] n peer_id = (Inl (RuntimeError failure), n)"
| "connect_retry failure (a # rest) n peer_id =
     (case connect_peer a n peer_id of
        (Inr _, n') \<Rightarrow> (Inr (), n')
      | (Inl e, n') \<Rightarrow>
          if exn_type e = ''ConnectionError'' then connect_retry failure rest (while_asleep a n') peer_id
          else (Inl e, n'))"

subsection \<open>Starting\<close>

fun spawn_all :: "string list \<Rightarrow> sys \<Rightarrow> unit res \<times> sys" where
  "spawn_all [] sy = (Inr (), sy)"
| "spawn_all (name # rest) sy = and_then (spawn name sy) (\<lambda>_ sy. spawn_all rest sy)"

definition on_node :: "(node \<Rightarrow> 'a res \<times> node) \<Rightarrow> sys \<Rightarrow> 'a res \<times> sys" where
  "on_node f = (\<lambda>(n, s). case f n of (r, n') \<Rightarrow> (r, (n', s)))"

text \<open>\<^verbatim>\<open>Supervisor(node=node)\<close> with its default arguments; and the part the programs have in common: the
  node starts, then the actors are spawned under one supervisor.\<close>

definition default_supervisor :: sup where
  "default_supervisor =
     \<lparr>sup_strategy = One_for_one, sup_budget = \<lparr>max_restarts = 3, restart_window = 5, restart_times = []\<rparr>,
      sup_children = [], give_up_exc = None, given_up = False, phases = [], cancels = []\<rparr>"

lemma default_supervisor_made: "new_supervisor ''one_for_one'' 3 5 = Inr default_supervisor"
  by (simp add: default_supervisor_def new_supervisor_def strategy_of_def)

definition bring_up :: "(json \<Rightarrow> nat) \<Rightarrow> string + 16 word \<Rightarrow> sup \<Rightarrow> string list \<Rightarrow> node \<Rightarrow> unit res \<times> sys" where
  "bring_up len bound s actors n = and_then (on_node (start len bound) (n, s)) (\<lambda>_ sy. spawn_all actors sy)"

text \<open>A connection that failed is never the program's failure: the loop ends with a connection, with the
  RuntimeError that follows the last attempt, or with an exception of another kind.\<close>

lemma connect_retry_failure:
  "connect_retry failure as n peer_id = (Inl e, n') \<Longrightarrow> e = RuntimeError failure \<or> exn_type e \<noteq> ''ConnectionError''"
  by (induction failure as n peer_id rule: connect_retry.induct) (auto split: prod.splits sum.splits if_splits)

text \<open>\<^verbatim>\<open>node.stop()\<close>: the tasks of the actors are cancelled and \<open>unwind\<close> while it waits.\<close>

definition stop_node :: "(sys \<Rightarrow> sys) \<Rightarrow> sys \<Rightarrow> sys" where
  "stop_node unwind sy = stop_over (actor_tasks (fst sy)) (unwind (stop_begin sy))"

text \<open>\<^verbatim>\<open>[s.strip() for s in text.split(",") if s.strip()]\<close>, for Latin-1 texts.\<close>

definition is_space :: "char \<Rightarrow> bool" where
  "is_space c \<longleftrightarrow> of_char c \<in> set [9..<14] \<union> set [28..<33] \<union> {0x85, 0xA0 :: nat}"

definition py_strip :: "string \<Rightarrow> string" where
  "py_strip s = rev (dropWhile is_space (rev (dropWhile is_space s)))"

fun split_commas :: "string \<Rightarrow> string list" where
  "split_commas [] = [[]]"
| "split_commas (c # s) =
     (if c = CHR '','' then [] # split_commas s
      else case split_commas s of [] \<Rightarrow> [[c]] | w # ws \<Rightarrow> (c # w) # ws)"

definition names_in :: "string \<Rightarrow> string list" where
  "names_in text = filter (\<lambda>s. s \<noteq> []) (map py_strip (split_commas text))"

lemma names_in_demo: "names_in ''a@h:1, b@h:2,,'' = [''a@h:1'', ''b@h:2'']" "names_in [] = []"
  by (simp_all add: names_in_def py_strip_def is_space_def)

subsection \<open>A node that came up\<close>

text \<open>A node without a bound on its mailboxes, with the given actors, no pending mail and no peer yet.\<close>

definition fresh :: "codec_env \<Rightarrow> (json \<Rightarrow> nat) \<Rightarrow> nodeid \<Rightarrow> string set \<Rightarrow> node \<Rightarrow> bool" where
  "fresh env len local actors n \<longleftrightarrow> healthy n \<and> mailbox_capacity n = None \<and> dom (map_of (mailboxes n)) = actors
     \<and> (\<forall>a. mail n a = []) \<and> codec_of n = env
     \<and> (\<exists>c. core n = Some c \<and> core_local c = local \<and> core_peers c = [] \<and> core_closed c = [] \<and> core_out c = [] \<and> json_len c = len)"

lemma healthy_queue_ids: "healthy n \<Longrightarrow> map_of (mailboxes n) name = Some q \<Longrightarrow> q < next_id n"
proof -
  assume h: "healthy n" and q: "map_of (mailboxes n) name = Some q"
  then obtain x where "map_of (queues n) q = Some x"
    using node_wf_mailbox_key [of n name q] by (auto simp: healthy_def)
  then show "q < next_id n" using h by (auto simp: healthy_def node_wf_def queues_wf_def)
qed

lemma spawn_fresh:
  assumes "fresh env len local actors n" "name \<notin> actors"
  obtains i n' s' where "spawn name (n, s) = (Inr i, (n', s'))" "fresh env len local (insert name actors) n'"
proof -
  from assms(1) obtain c where h: "healthy n" "mailbox_capacity n = None" "dom (map_of (mailboxes n)) = actors"
    "\<forall>a. mail n a = []" "codec_of n = env" and c: "core n = Some c" "core_local c = local" "core_peers c = []"
    "core_closed c = []" "core_out c = []" "json_len c = len" by (auto simp: fresh_def)
  let ?q = "next_id n"
  have none: "map_of (mailboxes n) name = None" using assms(2) h(3) by auto
  have run: "core_running c" using h(1) c(1) node_wf_running by (auto simp: healthy_def)
  define n1 where "n1 = snd (register_actor (snd (new_mailbox 0 n)) name ?q)"
  have n1: "n1 = n\<lparr>next_id := ?q + 1, queues := dict_set ?q (new_queue 0) (queues n),
      mailboxes := dict_set name ?q (mailboxes n), core := Some (c\<lparr>core_routing := dict_set name ?q (core_routing c)\<rparr>)\<rparr>"
    using none run c(1) by (simp add: n1_def register_actor_def new_mailbox_def core_register_actor_def require_def)
  have reg: "register_actor (snd (new_mailbox 0 n)) name ?q = (Inr (), n1)"
    using none run c(1) by (simp add: n1_def register_actor_def new_mailbox_def core_register_actor_def require_def)
  define n' where "n' = n1\<lparr>next_id := next_id n1 + 1, children := dict_set (next_id n1) \<lparr>child_name = name, child_mailbox = ?q,
      child_driver = Driver_none, child_pending_exit = None\<rparr> (children n1), actor_tasks := set_add (next_id n1) (actor_tasks n1)\<rparr>"
  have sp: "spawn name (n, s) = (Inr (next_id n1), (n', set_phase (next_id n1) New (s\<lparr>sup_children := sup_children s @ [next_id n1]\<rparr>)))"
    using reg h(2) by (simp add: spawn_def new_mailbox_def n'_def Let_def)
  have "node_wf n1" unfolding n1_def
    using node_wf_register [OF node_wf_new_mailbox [of n 0]] h(1) by (simp add: healthy_def new_mailbox_def)
  then have wf: "node_wf n'" by (auto simp: n'_def node_wf_def queues_wf_def names_wf_def intro: less_SucI)
  have m: "mailboxes n' = dict_set name ?q (mailboxes n)" by (simp add: n'_def n1)
  have q: "queue_at n' q = (if q = ?q then new_queue 0 else queue_at n q)" for q
    by (simp add: n'_def n1 queue_at_def)
  have ids: "map_of (mailboxes n) a = Some b \<Longrightarrow> b \<noteq> ?q" for a b using healthy_queue_ids [OF h(1)] by fastforce
  have "inj_on (map_of (mailboxes n')) (dom (map_of (mailboxes n')))"
    using h(1) by (auto simp: healthy_def inj_on_def m dom_def dest: ids split: if_splits)
  moreover have "\<forall>q \<in> ran (map_of (mailboxes n')). maxsize (queue_at n' q) \<le> 0"
    using h(1) by (auto simp: healthy_def ran_def m q new_queue_def split: if_splits)
  ultimately have "healthy n'" using wf by (simp add: healthy_def) (simp add: n'_def n1)
  moreover have "mail n' a = []" for a
    using h(4) [rule_format, of a] ids [of a] by (auto simp: mail_def m q new_queue_def split: option.splits)
  ultimately have "fresh env len local (insert name actors) n'"
    using h c by (auto simp: fresh_def m) (simp_all add: n'_def n1)
  with sp show thesis by (rule that)
qed

lemma spawn_all_fresh:
  "fresh env len local A n \<Longrightarrow> distinct ws \<Longrightarrow> A \<inter> set ws = {} \<Longrightarrow>
   \<exists>n' s'. spawn_all ws (n, s) = (Inr (), (n', s')) \<and> fresh env len local (A \<union> set ws) n'"
proof (induction ws arbitrary: A n s)
  case (Cons name ws)
  then have "name \<notin> A" by auto
  then obtain i n1 s1 where sp: "spawn name (n, s) = (Inr i, (n1, s1))" and f: "fresh env len local (insert name A) n1"
    by (rule spawn_fresh [OF Cons.prems(1)])
  obtain n' s' where "spawn_all ws (n1, s1) = (Inr (), (n', s'))" "fresh env len local (insert name A \<union> set ws) n'"
    using Cons.IH [OF f, of s1] Cons.prems(2,3) by auto
  with sp show ?case by simp
qed simp

text \<open>The programs come up: when the port can be bound and no two actors have the same name, the node runs
  with exactly these actors and their empty mailboxes.\<close>

lemma bring_up_fresh:
  assumes "parse nid = Inr local" "distinct actors"
  shows "\<exists>n' s'. bring_up len (Inr port) s actors (new_node env nid None) = (Inr (), (n', s'))
    \<and> fresh env len (with_port local port) (set actors) n'"
proof -
  define n0 where "n0 = snd (start len (Inr port) (new_node env nid None))"
  have st: "start len (Inr port) (new_node env nid None) = (Inr (), n0)"
    using assms(1) by (simp add: n0_def start_def new_core_def core_start_def new_node_def)
  have "node_wf n0" by (rule node_wf_start [OF node_wf_new st])
  then have f: "fresh env len (with_port local port) {} n0"
    using assms(1) by (auto simp: fresh_def healthy_def mail_def n0_def start_def new_core_def core_start_def new_node_def)
  obtain n' s' where "spawn_all actors (n0, s) = (Inr (), (n', s'))" "fresh env len (with_port local port) (set actors) n'"
    using spawn_all_fresh [OF f assms(2), of s] by auto
  with st show ?thesis by (simp add: bring_up_def on_node_def)
qed

text \<open>The same node once it is connected.\<close>

definition joined :: "nodeid list \<Rightarrow> node \<Rightarrow> node" where
  "joined ps n = n\<lparr>core := map_option (\<lambda>c. c\<lparr>core_peers := ps\<rparr>) (core n)\<rparr>"

lemma joined_fresh:
  assumes "fresh env len local A n"
  shows "healthy (joined ps n)" "dom (map_of (mailboxes (joined ps n))) = A" "mail (joined ps n) a = []"
    "codec_of (joined ps n) = env" "local_id (joined ps n) = to_full local" "outbox (joined ps n) = []"
proof -
  from assms obtain c where f: "healthy n" "dom (map_of (mailboxes n)) = A" "\<forall>a. mail n a = []" "codec_of n = env"
    and c: "core n = Some c" "core_local c = local" by (auto simp: fresh_def)
  have j: "joined ps n = n\<lparr>core := Some (c\<lparr>core_peers := ps\<rparr>)\<rparr>" by (simp add: joined_def c)
  have "node_wf (joined ps n)" unfolding j by (rule node_wf_core [OF _ c(1)]) (use f in \<open>simp_all add: healthy_def\<close>)
  moreover have q: "queue_at (joined ps n) = queue_at n" by (rule ext) (simp add: j queue_at_def)
  ultimately show "healthy (joined ps n)" using f(1) by (simp add: healthy_def) (simp add: j)
  show "mail (joined ps n) a = []" using f(3) by (simp only: mail_def q) (simp add: j)
qed (use assms in \<open>auto simp: fresh_def joined_def local_id_def outbox_def\<close>)

lemma joined_can_send:
  assumes "fresh env len local A n" "parse peer = Inr p" "p \<in> set ps" "portable env msg" "\<forall>j. len j \<le> MAX_FRAME_SIZE"
    "u64_arg corr = Inr ()"
  shows "can_send (joined ps n) peer msg corr"
proof -
  from assms(1) obtain c where c: "healthy n" "codec_of n = env" "core n = Some c" "core_closed c = []" "json_len c = len"
    by (auto simp: fresh_def)
  then have "core_running c" using node_wf_running by (auto simp: healthy_def)
  moreover obtain j where "res_bind (encode_payload env msg) py_to_json = Inr j"
    using codec.send_accepted [OF assms(4)] by (auto simp: over_wire_def)
  ultimately show ?thesis using assms(2-6) c by (auto simp: can_send_def joined_def)
qed

lemma u64_none: "u64_arg None = Inr ()"
  by (simp add: u64_arg_def)

subsection \<open>Concrete nodes\<close>

definition demo_id :: "string \<Rightarrow> 16 word \<Rightarrow> nodeid" where
  "demo_id name port = \<lparr>nid_name = name, nid_host = ''h'', nid_port = port\<rparr>"

lemma demo_ids:
  "parse ''api@h:1'' = Inr (demo_id ''api'' 1)" "parse ''ful@h:2'' = Inr (demo_id ''ful'' 2)"
  "parse ''arc@h:3'' = Inr (demo_id ''arc'' 3)" "to_full (demo_id ''api'' 1) = ''api@h:1''"
proof -
  have "show_nat (unat (1 :: 16 word)) = ''1''" by code_simp
  then show "to_full (demo_id ''api'' 1) = ''api@h:1''" by (simp add: to_full_def address_def demo_id_def)
qed (simp_all add: parse_def split_once_def rsplit_once_def rpartition_def parse_u16_def digit_val_def demo_id_def)

lemma demo_up:
  assumes "parse nid = Inr (demo_id name port)" "distinct actors" "set actors = A"
  obtains n where "fresh sample_env (\<lambda>_. 10) (demo_id name port) A n"
proof -
  have "with_port (demo_id name port) port = demo_id name port" by (simp add: with_port_def demo_id_def)
  with bring_up_fresh [OF assms(1,2), of "\<lambda>_. 10" port default_supervisor sample_env] assms(3) show thesis by (auto intro: that)
qed

end
