(* ===== verification/Warehouse.thy ===== *)
theory Warehouse
  imports Startup
begin

text \<open>
  The sales warehouse (\<^verbatim>\<open>src/examples/sales_warehouse\<close>): an order enters at the api node, passes through
  four actors of the fulfillment node and is written to disk by the archive node, while each stage
  reports to the tracker on the api node. The code of each actor is a function of the message and
  the node; the products that the random generator picks, the identifier of an order and the
  answers of the file system are arguments. The texts are those of the source, in Latin-1.
\<close>

subsection \<open>Fields of messages\<close>

fun as_int :: "pyval \<Rightarrow> int res" where
  "as_int (PInt i) = Inr i"
| "as_int (PBool b) = Inr (if b then 1 else 0)"
| "as_int _ = Inl (TypeError ''unsupported operand type'')"

fun get_all :: "string \<Rightarrow> pyval list \<Rightarrow> pyval list res" where
  "get_all k [] = Inr []"
| "get_all k (v # vs) = res_bind (getitem v k) (\<lambda>x. res_bind (get_all k vs) (\<lambda>xs. Inr (x # xs)))"

text \<open>\<^verbatim>\<open>sum(...)\<close> over integers; the valued products carry no other numbers.\<close>

fun py_sum :: "pyval list \<Rightarrow> int res" where
  "py_sum [] = Inr 0"
| "py_sum (v # vs) = res_bind (as_int v) (\<lambda>i. res_bind (py_sum vs) (\<lambda>s. Inr (i + s)))"

text \<open>\<^verbatim>\<open>{**msg, k: v}\<close>\<close>

fun with_key :: "string \<Rightarrow> pyval \<Rightarrow> pyval \<Rightarrow> pyval res" where
  "with_key k v (PDict d) = Inr (PDict (dict_set k v d))"
| "with_key k v _ = Inl (TypeError ''not a mapping'')"

subsection \<open>The fulfillment node\<close>

definition product :: "string \<Rightarrow> int \<Rightarrow> pyval" where
  "product nombre valor = PDict [(''nombre'', PStr nombre), (''valor'', PInt valor)]"

definition PRODUCT_POOL :: "(string \<times> int) list" where
  "PRODUCT_POOL =
     [(''monitor 27 pulgadas'', 25), (''teclado mec'' @ [CHR 0xE1] @ ''nico'', 20), (''silla de oficina'', 30),
      (''port'' @ [CHR 0xE1] @ ''til 15 pulgadas'', 35), (''auriculares inal'' @ [CHR 0xE1] @ ''mbricos'', 15),
      (''webcam HD'', 10)]"

definition tracker_msg :: "pyval \<Rightarrow> string \<Rightarrow> pyval \<Rightarrow> pyval" where
  "tracker_msg order_id status detail =
     PDict [(''order_id'', order_id), (''status'', PStr status), (''detail'', detail)]"

definition notify :: "node \<Rightarrow> pyval \<Rightarrow> string \<Rightarrow> pyval \<Rightarrow> unit res \<times> node" where
  "notify n msg status detail =
     and_then (getitem msg ''origin_node'', n) (\<lambda>origin n.
     and_then (getitem msg ''order_id'', n) (\<lambda>order_id n.
     and_then (as_str origin, n) (\<lambda>peer n.
       send n (RemoteRef peer ''order_tracker'') (tracker_msg order_id status detail) None None)))"

definition intake_receive :: "node \<Rightarrow> pyval \<Rightarrow> unit res \<times> node" where
  "intake_receive n msg =
     and_then (getitem msg ''order_id'', n) (\<lambda>_ n.
     and_then (notify n msg ''en_preparacion''
                (PDict [(''detalle'', PStr (''pedido admitido para preparaci'' @ [CHR 0xF3] @ ''n''))])) (\<lambda>_ n.
       send n (ActorRef ''stock_check'') msg None None))"

text \<open>\<open>picked\<close> is \<^verbatim>\<open>random.sample(PRODUCT_POOL, random.randint(2, len(PRODUCT_POOL)))\<close>.\<close>

definition stock_check_receive :: "(string \<times> int) list \<Rightarrow> node \<Rightarrow> pyval \<Rightarrow> unit res \<times> node" where
  "stock_check_receive picked n msg =
     and_then (getitem msg ''order_id'', n) (\<lambda>_ n.
     and_then (notify n msg ''stock_reservado'' (PDict [(''productos'', PList (map (\<lambda>p. PStr (fst p)) picked))])) (\<lambda>_ n.
     and_then (with_key ''productos'' (PList (map (\<lambda>p. product (fst p) (snd p)) picked)) msg, n) (\<lambda>m n.
       send n (ActorRef ''valuation'') m None None)))"

definition valuation_receive :: "node \<Rightarrow> pyval \<Rightarrow> unit res \<times> node" where
  "valuation_receive n msg =
     and_then (res_bind (res_bind (getitem msg ''productos'') as_elems) (\<lambda>ps. res_bind (get_all ''valor'' ps) py_sum), n)
       (\<lambda>importe n.
     and_then (getitem msg ''order_id'', n) (\<lambda>_ n.
     and_then (notify n msg ''importe_calculado'' (PDict [(''importe_total'', PInt importe)])) (\<lambda>_ n.
     and_then (with_key ''importe_total'' (PInt importe) msg, n) (\<lambda>m n.
       send n (ActorRef ''dispatch'') m None None))))"

definition decide :: "int \<Rightarrow> string" where
  "decide importe =
     (if 70 \<le> importe then ''env'' @ [CHR 0xED] @ ''o urgente en 24h''
      else if 40 \<le> importe then ''env'' @ [CHR 0xED] @ ''o est'' @ [CHR 0xE1] @ ''ndar en 3-5 d'' @ [CHR 0xED] @ ''as''
      else ''pedido en espera de consolidaci'' @ [CHR 0xF3] @ ''n con otros env'' @ [CHR 0xED] @ ''os'')"

definition dispatch_receive :: "string \<Rightarrow> node \<Rightarrow> pyval \<Rightarrow> unit res \<times> node" where
  "dispatch_receive archive_node n msg =
     and_then (res_bind (getitem msg ''importe_total'') as_int, n) (\<lambda>importe n.
     and_then (getitem msg ''order_id'', n) (\<lambda>_ n.
     and_then (notify n msg ''listo_para_envio'' (PDict [(''decision_envio'', PStr (decide importe))])) (\<lambda>_ n.
     and_then (res_bind (res_bind (getitem msg ''productos'') as_elems) (get_all ''nombre''), n) (\<lambda>nombres n.
     and_then (res_bind (with_key ''productos'' (PList nombres) msg)
                 (with_key ''decision_envio'' (PStr (decide importe))), n) (\<lambda>m n.
       send n (RemoteRef archive_node ''archivist'') m None None)))))"

definition fulfillment_main ::
  "codec_env \<Rightarrow> (json \<Rightarrow> nat) \<Rightarrow> string + 16 word \<Rightarrow> string \<Rightarrow> string \<Rightarrow> (nat \<Rightarrow> dial_events) \<Rightarrow> unit res \<times> sys" where
  "fulfillment_main env len bound node_name archive_node attempts =
     and_then (bring_up len bound default_supervisor [''intake'', ''stock_check'', ''valuation'', ''dispatch''] (new_node env node_name None))
       (\<lambda>_ sy. on_node (\<lambda>n. connect_retry (''could not connect to archive at '' @ py_repr archive_node)
                      (map attempts [0..<30]) n archive_node) sy)"

subsection \<open>The archive node\<close>

text \<open>The files of the archive by their path. \<open>disk\<close> says what the file system answers to the creation of
  the directory and of the file; a record is kept as the value that is written as JSON.\<close>

type_synonym files = "(string, pyval) dict"

definition archive_path :: "string \<Rightarrow> string \<Rightarrow> string" where
  "archive_path data_dir order_id =
     (if take 1 order_id = ''/'' then order_id else data_dir @ ''/'' @ order_id) @ ''.json''"

fun fields_of :: "pyval \<Rightarrow> (string \<times> string) list \<Rightarrow> (string \<times> pyval) list res" where
  "fields_of msg [] = Inr []"
| "fields_of msg ((k, field) # ks) =
     res_bind (getitem msg field) (\<lambda>v. res_bind (fields_of msg ks) (\<lambda>d. Inr ((k, v) # d)))"

definition archivist_receive ::
  "string \<Rightarrow> unit res \<times> unit res \<Rightarrow> pyval \<Rightarrow> node \<times> files \<Rightarrow> unit res \<times> node \<times> files" where
  "archivist_receive data_dir disk msg st =
     and_then (fst disk, st) (\<lambda>_ st.
     and_then (str_item msg ''order_id'', st) (\<lambda>order_id st.
     and_then (fields_of msg [(''order_id'', ''order_id''), (''formulario'', ''form''), (''productos'', ''productos''),
                 (''importe_total'', ''importe_total''), (''decision_envio'', ''decision_envio'')], st) (\<lambda>record st.
     and_then (snd disk, st) (\<lambda>_ (n, fs).
       let path = archive_path data_dir order_id; fs' = dict_set path (PDict record) fs
       in and_then (str_item msg ''origin_node'', (n, fs')) (\<lambda>origin (n, fs).
            case send n (RemoteRef origin ''order_tracker'')
                   (tracker_msg (PStr order_id) ''archivado'' (PDict [(''archivo'', PStr path)])) None None of
              (r, n') \<Rightarrow> (r, (n', fs)))))))"

definition archive_main ::
  "codec_env \<Rightarrow> (json \<Rightarrow> nat) \<Rightarrow> string + 16 word \<Rightarrow> string \<Rightarrow> string \<Rightarrow> (nat \<Rightarrow> dial_events) \<Rightarrow> unit res \<times> sys" where
  "archive_main env len bound node_name api_node attempts =
     and_then (bring_up len bound default_supervisor [''archivist''] (new_node env node_name None))
       (\<lambda>_ sy. on_node (\<lambda>n. connect_retry (''could not connect to api at '' @ py_repr api_node)
                      (map attempts [0..<30]) n api_node) sy)"

subsection \<open>The api node\<close>

type_synonym order = "(string, pyval) dict"

type_synonym orders = "(string, order) dict"

text \<open>\<^verbatim>\<open>OrderTrackerActor.receive\<close>. An order that this process does not know is ignored; an id that no dict can
  have as a key raises. The fields are stored one after the other, so an exception leaves those
  before it stored.\<close>

fun order_append :: "pyval \<Rightarrow> order \<Rightarrow> order res" where
  "order_append entry order =
     (case map_of order ''history'' of
        None \<Rightarrow> Inl (KeyError (py_repr ''history''))
      | Some (PList h) \<Rightarrow> Inr (dict_set ''history'' (PList (h @ [entry])) order)
      | Some _ \<Rightarrow> Inl (AttributeError ''no attribute append''))"

definition get_detail :: "pyval \<Rightarrow> pyval" where
  "get_detail msg = (case msg of PDict d \<Rightarrow> get_or (PDict []) d ''detail'' | _ \<Rightarrow> PDict [])"

definition update_order :: "pyval \<Rightarrow> order \<Rightarrow> unit res \<times> order" where
  "update_order msg order =
     and_then (getitem msg ''status'', order) (\<lambda>status order.
       let order = dict_set ''status'' status order
       in case order_append (PDict [(''status'', status), (''detail'', get_detail msg)]) order of
            Inl e \<Rightarrow> (Inl e, order)
          | Inr order \<Rightarrow>
             (case get_detail msg of
                PDict d \<Rightarrow> (Inr (), fold (\<lambda>(k, v). dict_set k v) d order)
              | _ \<Rightarrow> (Inl (TypeError ''not iterable''), order)))"

definition tracker_receive :: "pyval \<Rightarrow> orders \<Rightarrow> unit res \<times> orders" where
  "tracker_receive msg os =
     and_then (getitem msg ''order_id'', os) (\<lambda>order_id os.
       case order_id of
         PStr k \<Rightarrow>
           (case map_of os k of
              None \<Rightarrow> (Inr (), os)
            | Some order \<Rightarrow> (case update_order msg order of (r, order') \<Rightarrow> (r, dict_set k order' os)))
       | PList _ \<Rightarrow> (Inl (TypeError ''unhashable type''), os)
       | PDict _ \<Rightarrow> (Inl (TypeError ''unhashable type''), os)
       | _ \<Rightarrow> (Inr (), os))"

record pedido =
  cliente :: string
  producto :: string
  direccion_envio :: string

definition form_dump :: "pedido \<Rightarrow> pyval" where
  "form_dump f = PDict [(''cliente'', PStr (cliente f)), (''producto'', PStr (producto f)),
     (''direccion_envio'', PStr (direccion_envio f))]"

text \<open>The endpoints. The order is stored before it is sent, and stays stored when the send raises.\<close>

definition new_order :: "string \<Rightarrow> pedido \<Rightarrow> order" where
  "new_order order_id form =
     [(''order_id'', PStr order_id), (''status'', PStr ''recibido''), (''form'', form_dump form), (''history'', PList [])]"

definition order_msg :: "string \<Rightarrow> string \<Rightarrow> pedido \<Rightarrow> pyval" where
  "order_msg order_id origin form =
     PDict [(''order_id'', PStr order_id), (''origin_node'', PStr origin), (''form'', form_dump form)]"

definition crear_pedido :: "string \<Rightarrow> string \<Rightarrow> pedido \<Rightarrow> node \<times> orders \<Rightarrow> pyval res \<times> node \<times> orders" where
  "crear_pedido fulfillment_node order_id form = (\<lambda>(n, os).
     let os' = dict_set order_id (new_order order_id form) os
     in case send n (RemoteRef fulfillment_node ''intake'') (order_msg order_id (local_id n) form) None None of
          (Inl e, n') \<Rightarrow> (Inl e, (n', os'))
        | (Inr _, n') \<Rightarrow> (Inr (PDict [(''order_id'', PStr order_id), (''status_url'', PStr (''/orders/'' @ order_id))]), (n', os')))"

definition obtener_pedido :: "orders \<Rightarrow> string \<Rightarrow> order res" where
  "obtener_pedido os order_id =
     (case map_of os order_id of
        None \<Rightarrow> Inl (Exn ''HTTPException'' ''404: pedido no encontrado'')
      | Some order \<Rightarrow> Inr order)"

definition listar_pedidos :: "orders \<Rightarrow> order list" where
  "listar_pedidos os = map snd os"

definition health :: "node option \<Rightarrow> pyval res" where
  "health n =
     res_bind (case n of None \<Rightarrow> Inr 0 | Some n \<Rightarrow> peer_count n) (\<lambda>k.
       Inr (PDict [(''status'', PStr ''ok''), (''connected_peers'', PInt (int k))]))"

definition api_lifespan ::
  "codec_env \<Rightarrow> (json \<Rightarrow> nat) \<Rightarrow> string + 16 word \<Rightarrow> string \<Rightarrow> string \<Rightarrow> (nat \<Rightarrow> dial_events) \<Rightarrow> unit res \<times> sys" where
  "api_lifespan env len bound node_name fulfillment_node attempts =
     and_then (bring_up len bound default_supervisor [''order_tracker''] (new_node env node_name None))
       (\<lambda>_ sy. on_node (\<lambda>n. connect_retry (''could not connect to fulfillment at '' @ py_repr fulfillment_node)
                      (map attempts [0..<30]) n fulfillment_node) sy)"

subsection \<open>An order on its way\<close>

text \<open>
  A schedule in which every message is handled when it has arrived. \<open>turn\<close> is one message of an actor,
  \<open>stage\<close> one actor of the fulfillment node together with what it sends to the other two nodes.
\<close>

definition tracker_turn :: "node \<times> orders \<Rightarrow> unit res \<times> node \<times> orders" where
  "tracker_turn = (\<lambda>(n, os).
     case take_mail ''order_tracker'' n of
       None \<Rightarrow> (Inr (), n, os)
     | Some ((msg, mt), n') \<Rightarrow> (case tracker_receive msg os of (r, os') \<Rightarrow> (r, n', os')))"

definition archivist_turn :: "string \<Rightarrow> unit res \<times> unit res \<Rightarrow> node \<times> files \<Rightarrow> unit res \<times> node \<times> files" where
  "archivist_turn data_dir disk = (\<lambda>(n, fs).
     case take_mail ''archivist'' n of
       None \<Rightarrow> (Inr (), n, fs)
     | Some ((msg, mt), n') \<Rightarrow> archivist_receive data_dir disk msg (n', fs))"

record warehouse =
  api :: node
  api_orders :: orders
  fulfillment :: node
  archive :: node
  archive_files :: files

text \<open>The ids under which the three nodes know each other: api, fulfillment and archive.\<close>

type_synonym route = "nodeid \<times> nodeid \<times> nodeid"

definition stage :: "route \<Rightarrow> string \<Rightarrow> (node \<Rightarrow> pyval \<Rightarrow> unit res \<times> node) \<Rightarrow> warehouse \<Rightarrow> unit res \<times> warehouse" where
  "stage ids name receive w = (case ids of (pa, pf, pr) \<Rightarrow>
     (case turn name receive (fulfillment w) of (r, f') \<Rightarrow>
        (case tracker_turn (hop (fulfillment w) f' pa pf (api w), api_orders w) of (t, a', os') \<Rightarrow>
           (res_bind r (\<lambda>_. t), w\<lparr>api := a', api_orders := os', fulfillment := f',
              archive := hop (fulfillment w) f' pr pf (archive w)\<rparr>))))"

definition submit :: "route \<Rightarrow> string \<Rightarrow> string \<Rightarrow> pedido \<Rightarrow> warehouse \<Rightarrow> unit res \<times> warehouse" where
  "submit ids f_id order_id form w = (case ids of (pa, pf, pr) \<Rightarrow>
     (case crear_pedido f_id order_id form (api w, api_orders w) of (r, a', os') \<Rightarrow>
        (res_bind r (\<lambda>_. Inr ()), w\<lparr>api := a', api_orders := os', fulfillment := hop (api w) a' pf pa (fulfillment w)\<rparr>)))"

definition file_order :: "route \<Rightarrow> string \<Rightarrow> unit res \<times> unit res \<Rightarrow> warehouse \<Rightarrow> unit res \<times> warehouse" where
  "file_order ids data_dir disk w = (case ids of (pa, pf, pr) \<Rightarrow>
     (case archivist_turn data_dir disk (archive w, archive_files w) of (r, n', fs') \<Rightarrow>
        (case tracker_turn (hop (archive w) n' pa pr (api w), api_orders w) of (t, a', os') \<Rightarrow>
           (res_bind r (\<lambda>_. t), w\<lparr>api := a', api_orders := os', archive := n', archive_files := fs'\<rparr>))))"

definition process_pedido ::
  "route \<Rightarrow> string \<Rightarrow> string \<Rightarrow> string \<Rightarrow> string \<Rightarrow> pedido \<Rightarrow> (string \<times> int) list \<Rightarrow> unit res \<times> unit res
   \<Rightarrow> warehouse \<Rightarrow> unit res \<times> warehouse" where
  "process_pedido ids f_id r_id data_dir order_id form picked disk w =
     and_then (submit ids f_id order_id form w) (\<lambda>_ w.
     and_then (stage ids ''intake'' intake_receive w) (\<lambda>_ w.
     and_then (stage ids ''stock_check'' (stock_check_receive picked) w) (\<lambda>_ w.
     and_then (stage ids ''valuation'' valuation_receive w) (\<lambda>_ w.
     and_then (stage ids ''dispatch'' (dispatch_receive r_id) w) (\<lambda>_ w.
       file_order ids data_dir disk w)))))"

end
