(* ===== verification/Warehouse_Laws.thy ===== *)
theory Warehouse_Laws
  imports Warehouse
begin

text \<open>
  What the sales warehouse does with an order: each stage passes it on and reports once, the tracker
  collects the reports, and an order that is submitted to three connected nodes is archived with
  its sum and its decision. Two theorems say where the tracker is less than that: an order whose
  submission fails stays listed, and a report that is overtaken turns the status back.
\<close>

subsection \<open>The tracker\<close>

definition progress :: "string \<Rightarrow> (string \<times> pyval) list \<Rightarrow> order \<Rightarrow> order" where
  "progress status d order =
     (let h = (case map_of order ''history'' of Some (PList h) \<Rightarrow> h | _ \<Rightarrow> [])
      in fold (\<lambda>(k, v). dict_set k v) d
           (dict_set ''history'' (PList (h @ [PDict [(''status'', PStr status), (''detail'', PDict d)]]))
              (dict_set ''status'' (PStr status) order)))"

text \<open>The shape of an order: the fields that \<^verbatim>\<open>crear_pedido\<close> puts there, with a list as history. A report whose
  detail does not use these names keeps it.\<close>

definition order_wf :: "order \<Rightarrow> bool" where
  "order_wf order \<longleftrightarrow> (\<exists>h. map_of order ''history'' = Some (PList h)) \<and> (\<exists>s. map_of order ''status'' = Some (PStr s))
     \<and> distinct (keys order)"

definition own_fields :: "string list" where
  "own_fields = [''order_id'', ''status'', ''form'', ''history'']"

lemma map_of_updates:
  "map_of (fold (\<lambda>(k, v). dict_set k v) d order) k = (case map_of (rev d) k of None \<Rightarrow> map_of order k | Some v \<Rightarrow> Some v)"
proof (induction d arbitrary: order)
  case (Cons x d)
  obtain a v where x: "x = (a, v)" by (cases x)
  show ?case unfolding x using Cons.IH [of "dict_set a v order"]
    by (auto simp: map_add_def split: option.splits)
qed simp

lemma distinct_updates: "distinct (keys order) \<Longrightarrow> distinct (keys (fold (\<lambda>(k, v). dict_set k v) d order))"
  by (induction d arbitrary: order) (auto simp: case_prod_beta distinct_keys_set)

lemma map_of_foreign: "set (keys d) \<inter> A = {} \<Longrightarrow> k \<in> A \<Longrightarrow> map_of (rev d) k = None"
  by (auto simp: map_of_eq_None_iff)

lemma tracker_known:
  assumes "map_of os oid = Some order" "map_of order ''history'' = Some (PList h)"
  shows "tracker_receive (tracker_msg (PStr oid) status (PDict d)) os = (Inr (), dict_set oid (progress status d order) os)"
  using assms by (simp add: tracker_receive_def tracker_msg_def update_order_def get_detail_def get_or_def progress_def)

lemma order_wf_new: "order_wf (new_order oid form)"
  by (simp add: order_wf_def new_order_def)

lemma order_wf_progress:
  assumes "order_wf order" "set (keys d) \<inter> set own_fields = {}"
  shows "order_wf (progress status d order)"
proof -
  have none: "map_of (rev d) ''history'' = None" "map_of (rev d) ''status'' = None"
    using map_of_foreign [OF assms(2)] by (simp_all add: own_fields_def)
  from assms(1) have "distinct (keys order)" by (simp add: order_wf_def)
  then have "distinct (keys (progress status d order))"
    unfolding progress_def Let_def by (intro distinct_updates distinct_keys_set)
  moreover have "\<exists>h. map_of (progress status d order) ''history'' = Some (PList h)"
    "map_of (progress status d order) ''status'' = Some (PStr status)"
    by (simp_all add: progress_def Let_def map_of_updates none)
  ultimately show ?thesis unfolding order_wf_def by blast
qed

subsection \<open>Reports\<close>

lemma notify_reports:
  assumes "healthy n" "getitem msg ''origin_node'' = Inr (PStr peer)" "getitem msg ''order_id'' = Inr oid"
    "can_send n peer (tracker_msg oid status detail) None" "parse peer = Inr pa"
  obtains n' j i where "notify n msg status detail = (Inr (), n')" "same_node n n'" "healthy n'" "mail n' = mail n"
    "outbox n' = outbox n @ [Data_frame pa ''order_tracker'' j i None None]"
    "decode_payload (codec_of n) (json_to_py j) = Inr (untuple (tracker_msg oid status detail))"
proof -
  obtain n' j i where "send_remote n peer ''order_tracker'' (tracker_msg oid status detail) None None = (Inr (), n')"
    "same_node n n'" "healthy n'" "mail n' = mail n" "outbox n' = outbox n @ [Data_frame pa ''order_tracker'' j i None None]"
    "decode_payload (codec_of n) (json_to_py j) = Inr (untuple (tracker_msg oid status detail))"
    by (rule remote_send [OF assms(1,4,5)])
  with assms(2,3) show thesis by (intro that) (simp_all add: notify_def)
qed

text \<open>A report that is on its way is the next message of the tracker.\<close>

lemma report_arrives:
  assumes "healthy a" "''order_tracker'' \<in> dom (map_of (mailboxes a))" "mail a ''order_tracker'' = []"
    "outbox f' = outbox f @ Data_frame pa ''order_tracker'' j i None None # fs"
    "\<forall>fr \<in> set fs. \<exists>p dst j i r k. fr = Data_frame p dst j i r k \<and> p \<noteq> pa"
    "decode_payload (codec_of a) (json_to_py j) = Inr m"
  obtains a' where "tracker_turn (hop f f' pa pf a, os) = (case tracker_receive m os of (r, os') \<Rightarrow> (r, a', os'))"
    "same_node a a'" "healthy a'" "mail a' = mail a" "outbox a' = outbox a"
proof -
  obtain b where b: "arrive_frame (local_id f') pa pf (Data_frame pa ''order_tracker'' j i None None) a = b"
    "same_node a b" "healthy b" "outbox b = outbox a" "mail b = (mail a)(''order_tracker'' := mail a ''order_tracker''
       @ [(m, \<lparr>m_src = Some (local_id f'), m_reply_to = None, m_correlation_id = None, m_msg_id = Some i\<rparr>)])"
    by (rule frame_arrives [OF assms(1,2,6)])
  have rest: "fold (arrive_frame (local_id f') pa pf) fs b = b" using assms(5)
    by (induction fs) (auto simp: frame_passes)
  have hop: "hop f f' pa pf a = b" unfolding hop_frames [OF assms(4)] using b(1) rest by simp
  have "mail b ''order_tracker'' = [(m, \<lparr>m_src = Some (local_id f'), m_reply_to = None, m_correlation_id = None,
      m_msg_id = Some i\<rparr>)]" using b(5) assms(3) by simp
  then obtain a' where a': "take_mail ''order_tracker'' b = Some ((m, \<lparr>m_src = Some (local_id f'), m_reply_to = None,
      m_correlation_id = None, m_msg_id = Some i\<rparr>), a')" "same_node b a'" "healthy a'" "outbox a' = outbox b"
    "mail a' = (mail b)(''order_tracker'' := [])"
    by (rule take_mail_head [OF b(3)])
  have "mail a' = mail a" using a'(5) b(5) assms(3) by auto
  then show thesis
    by (intro that [OF _ same_node_trans [OF b(2) a'(2)] a'(3)]) (simp_all add: tracker_turn_def hop a' b)
qed

subsection \<open>The stages\<close>

text \<open>What a stage of the fulfillment node does with its message: one report and one local message.\<close>

definition passes_on :: "node \<Rightarrow> nodeid \<Rightarrow> (node \<Rightarrow> pyval \<Rightarrow> unit res \<times> node) \<Rightarrow> pyval \<Rightarrow> pyval \<Rightarrow> string \<Rightarrow> pyval \<Rightarrow> bool" where
  "passes_on f0 pa receive msg report next_actor msg' \<longleftrightarrow>
     (\<forall>n. healthy n \<longrightarrow> same_node f0 n \<longrightarrow> (\<exists>n' j i mt. receive n msg = (Inr (), n') \<and> same_node n n' \<and> healthy n'
        \<and> mail n' = (mail n)(next_actor := mail n next_actor @ [(msg', mt)])
        \<and> outbox n' = outbox n @ [Data_frame pa ''order_tracker'' j i None None]
        \<and> decode_payload (codec_of n) (json_to_py j) = Inr (untuple report)))"

lemma passes_onI:
  assumes rec: "\<And>n. receive n msg = and_then (notify n msg status detail) (\<lambda>_ n. send n (ActorRef next_actor) msg' None None)"
    and "getitem msg ''origin_node'' = Inr (PStr peer)" "getitem msg ''order_id'' = Inr oid" "parse peer = Inr pa"
    and "can_send f0 peer (tracker_msg oid status detail) None" "next_actor \<in> dom (map_of (mailboxes f0))"
  shows "passes_on f0 pa receive msg (tracker_msg oid status detail) next_actor msg'"
  unfolding passes_on_def
proof (intro allI impI)
  fix n
  assume n: "healthy n" "same_node f0 n"
  then have c: "can_send n peer (tracker_msg oid status detail) None"
    using assms(5) by (simp add: same_node_can_send)
  obtain n1 j i where n1: "notify n msg status detail = (Inr (), n1)" "same_node n n1" "healthy n1" "mail n1 = mail n"
    "outbox n1 = outbox n @ [Data_frame pa ''order_tracker'' j i None None]"
    "decode_payload (codec_of n) (json_to_py j) = Inr (untuple (tracker_msg oid status detail))"
    by (rule notify_reports [OF n(1) assms(2,3) c assms(4)])
  have "next_actor \<in> dom (map_of (mailboxes n1))"
    using assms(6) same_node_fields(1) [OF n(2)] same_node_fields(1) [OF n1(2)] by simp
  then obtain n2 where "send_local n1 next_actor msg' None None = (Inr (), n2)" "same_node n1 n2" "healthy n2"
    "outbox n2 = outbox n1" "mail n2 = (mail n1)(next_actor := mail n1 next_actor @ [(msg', local_meta n1 None None)])"
    by (rule local_send [OF n1(3)])
  with n1 show "\<exists>n' j i mt. receive n msg = (Inr (), n') \<and> same_node n n' \<and> healthy n'
      \<and> mail n' = (mail n)(next_actor := mail n next_actor @ [(msg', mt)])
      \<and> outbox n' = outbox n @ [Data_frame pa ''order_tracker'' j i None None]
      \<and> decode_payload (codec_of n) (json_to_py j) = Inr (untuple (tracker_msg oid status detail))"
    by (intro exI [of _ n2] exI [of _ j] exI [of _ i] exI [of _ "local_meta n1 None None"])
      (simp add: rec same_node_trans [OF n1(2)])
qed

text \<open>Between two stages the order is the only message of the next actor, and no report is pending.\<close>

definition underway :: "warehouse \<Rightarrow> string \<Rightarrow> pyval \<Rightarrow> warehouse \<Rightarrow> bool" where
  "underway w0 name msg w \<longleftrightarrow>
     healthy (api w) \<and> same_node (api w0) (api w) \<and> mail (api w) ''order_tracker'' = []
     \<and> healthy (fulfillment w) \<and> same_node (fulfillment w0) (fulfillment w)
     \<and> (\<exists>mt. mail (fulfillment w) = (mail (fulfillment w0))(name := [(msg, mt)]))
     \<and> archive w = archive w0 \<and> archive_files w = archive_files w0"

lemma stage_passes_on:
  assumes u: "underway w0 name msg w" and p: "passes_on (fulfillment w0) pa receive msg report next_actor msg'"
    and report: "untuple report = tracker_msg (PStr oid) status (PDict d)"
    and ids: "pa \<noteq> pr" and idle: "mail (fulfillment w0) name = []" "mail (fulfillment w0) next_actor = []" "name \<noteq> next_actor"
    and tracker: "''order_tracker'' \<in> dom (map_of (mailboxes (api w0)))" and codec: "codec_of (api w0) = codec_of (fulfillment w0)"
    and known: "map_of (api_orders w) oid = Some order" "order_wf order"
  obtains w' where "stage (pa, pf, pr) name receive w = (Inr (), w')" "underway w0 next_actor msg' w'"
    "api_orders w' = dict_set oid (progress status d order) (api_orders w)"
proof -
  obtain mt where a: "healthy (api w)" "same_node (api w0) (api w)" "mail (api w) ''order_tracker'' = []"
    and f: "healthy (fulfillment w)" "same_node (fulfillment w0) (fulfillment w)"
      "mail (fulfillment w) = (mail (fulfillment w0))(name := [(msg, mt)])"
    and r: "archive w = archive w0" "archive_files w = archive_files w0" using u by (auto simp: underway_def)
  have "mail (fulfillment w) name = [(msg, mt)]" by (simp add: f(3))
  then obtain f1 where f1: "take_mail name (fulfillment w) = Some ((msg, mt), f1)" "same_node (fulfillment w) f1" "healthy f1"
    "outbox f1 = outbox (fulfillment w)" "mail f1 = (mail (fulfillment w))(name := [])"
    by (rule take_mail_head [OF f(1)])
  have s1: "same_node (fulfillment w0) f1" by (rule same_node_trans [OF f(2) f1(2)])
  from p f1(3) s1 obtain f2 j i mt' where f2: "receive f1 msg = (Inr (), f2)" "same_node f1 f2" "healthy f2"
    "mail f2 = (mail f1)(next_actor := mail f1 next_actor @ [(msg', mt')])"
    "outbox f2 = outbox f1 @ [Data_frame pa ''order_tracker'' j i None None]"
    "decode_payload (codec_of f1) (json_to_py j) = Inr (untuple report)" unfolding passes_on_def by blast
  have out: "outbox f2 = outbox (fulfillment w) @ [Data_frame pa ''order_tracker'' j i None None]"
    using f2(5) f1(4) by simp
  have codec': "decode_payload (codec_of (api w)) (json_to_py j) = Inr (tracker_msg (PStr oid) status (PDict d))"
    using f2(6) report codec same_node_fields(2) [OF a(2)] same_node_fields(2) [OF s1] by simp
  have tracker': "''order_tracker'' \<in> dom (map_of (mailboxes (api w)))" using tracker same_node_fields(1) [OF a(2)] by simp
  obtain a' where a': "tracker_turn (hop (fulfillment w) f2 pa pf (api w), api_orders w)
       = (case tracker_receive (tracker_msg (PStr oid) status (PDict d)) (api_orders w) of (r, os') \<Rightarrow> (r, a', os'))"
    "same_node (api w) a'" "healthy a'" "mail a' = mail (api w)"
    by (rule report_arrives [OF a(1) tracker' a(3) _ _ codec', where fs = "[]" and pa = pa and pf = pf and f = "fulfillment w"
          and f' = f2 and os = "api_orders w" and i = i]) (use out in simp_all)
  obtain h where h: "map_of order ''history'' = Some (PList h)" using known(2) by (auto simp: order_wf_def)
  have hop: "hop (fulfillment w) f2 pr pf (archive w) = archive w" unfolding hop_frames [OF out] using ids by simp
  let ?w = "w\<lparr>api := a', api_orders := dict_set oid (progress status d order) (api_orders w), fulfillment := f2, archive := archive w\<rparr>"
  have st: "stage (pa, pf, pr) name receive w = (Inr (), ?w)"
    by (simp add: stage_def turn_def f1(1) f2(1) a'(1) tracker_known [OF known(1) h] hop)
  have "mail f2 = (mail (fulfillment w0))(next_actor := [(msg', mt')])"
    using f2(4) f1(5) f(3) idle by (auto simp: fun_eq_iff)
  then have un: "underway w0 next_actor msg' ?w"
    using same_node_trans [OF a(2) a'(2)] a' a(3) same_node_trans [OF s1 f2(2)] f2(3) r by (auto simp: underway_def)
  show thesis by (rule that [OF st un]) simp
qed

subsection \<open>The messages of an order\<close>

definition importe :: "(string \<times> int) list \<Rightarrow> int" where
  "importe picked = sum_list (map snd picked)"

definition nombres :: "(string \<times> int) list \<Rightarrow> pyval" where
  "nombres picked = PList (map (\<lambda>p. PStr (fst p)) picked)"

definition stocked_msg :: "string \<Rightarrow> string \<Rightarrow> pedido \<Rightarrow> (string \<times> int) list \<Rightarrow> pyval" where
  "stocked_msg oid origin form picked =
     PDict [(''order_id'', PStr oid), (''origin_node'', PStr origin), (''form'', form_dump form),
            (''productos'', PList (map (\<lambda>p. product (fst p) (snd p)) picked))]"

definition valued_msg :: "string \<Rightarrow> string \<Rightarrow> pedido \<Rightarrow> (string \<times> int) list \<Rightarrow> pyval" where
  "valued_msg oid origin form picked =
     PDict [(''order_id'', PStr oid), (''origin_node'', PStr origin), (''form'', form_dump form),
            (''productos'', PList (map (\<lambda>p. product (fst p) (snd p)) picked)), (''importe_total'', PInt (importe picked))]"

definition archive_msg :: "string \<Rightarrow> string \<Rightarrow> pedido \<Rightarrow> (string \<times> int) list \<Rightarrow> pyval" where
  "archive_msg oid origin form picked =
     PDict [(''order_id'', PStr oid), (''origin_node'', PStr origin), (''form'', form_dump form),
            (''productos'', nombres picked), (''importe_total'', PInt (importe picked)),
            (''decision_envio'', PStr (decide (importe picked)))]"

text \<open>The five reports: the status and the detail of each.\<close>

definition admitido :: "(string \<times> pyval) list" where
  "admitido = [(''detalle'', PStr (''pedido admitido para preparaci'' @ [CHR 0xF3] @ ''n''))]"

definition reports :: "(string \<times> int) list \<Rightarrow> (string \<times> (string \<times> pyval) list) list" where
  "reports picked =
     [(''en_preparacion'', admitido), (''stock_reservado'', [(''productos'', nombres picked)]),
      (''importe_calculado'', [(''importe_total'', PInt (importe picked))]),
      (''listo_para_envio'', [(''decision_envio'', PStr (decide (importe picked)))])]"

lemma get_all_products [simp]:
  "get_all ''valor'' (map (\<lambda>p. product (fst p) (snd p)) picked) = Inr (map (\<lambda>p. PInt (snd p)) picked)"
  "get_all ''nombre'' (map (\<lambda>p. product (fst p) (snd p)) picked) = Inr (map (\<lambda>p. PStr (fst p)) picked)"
  by (induction picked) (simp_all add: product_def)

lemma py_sum_ints [simp]: "py_sum (map (\<lambda>p. PInt (snd p)) picked) = Inr (importe picked)"
  by (induction picked) (simp_all add: importe_def)

lemma untuple_parts [simp]:
  "untuple (form_dump form) = form_dump form" "untuple (nombres picked) = nombres picked"
  "untuple_list (map (\<lambda>p. product (fst p) (snd p)) picked) = map (\<lambda>p. product (fst p) (snd p)) picked"
  "untuple_list (map (\<lambda>p. PStr (fst p)) picked) = map (\<lambda>p. PStr (fst p)) picked"
  by (simp_all add: form_dump_def nombres_def untuple_list_map product_def)

lemma untuple_messages [simp]:
  "untuple (order_msg oid origin form) = order_msg oid origin form"
  "untuple (archive_msg oid origin form picked) = archive_msg oid origin form picked"
  "untuple (tracker_msg (PStr oid) status (PDict d)) = tracker_msg (PStr oid) status (PDict (untuple_items d))"
  by (simp_all add: order_msg_def archive_msg_def tracker_msg_def)

lemma msg_items [simp]:
  "getitem (order_msg oid origin form) ''order_id'' = Inr (PStr oid)"
  "getitem (order_msg oid origin form) ''origin_node'' = Inr (PStr origin)"
  "getitem (stocked_msg oid origin form picked) ''order_id'' = Inr (PStr oid)"
  "getitem (stocked_msg oid origin form picked) ''origin_node'' = Inr (PStr origin)"
  "getitem (valued_msg oid origin form picked) ''order_id'' = Inr (PStr oid)"
  "getitem (valued_msg oid origin form picked) ''origin_node'' = Inr (PStr origin)"
  by (simp_all add: order_msg_def stocked_msg_def valued_msg_def)

text \<open>The code of each stage, on the message that the stage before it sends.\<close>

lemma stage_code:
  "intake_receive n (order_msg oid origin form) =
     and_then (notify n (order_msg oid origin form) ''en_preparacion'' (PDict admitido))
       (\<lambda>_ n. send n (ActorRef ''stock_check'') (order_msg oid origin form) None None)"
  "stock_check_receive picked n (order_msg oid origin form) =
     and_then (notify n (order_msg oid origin form) ''stock_reservado'' (PDict [(''productos'', nombres picked)]))
       (\<lambda>_ n. send n (ActorRef ''valuation'') (stocked_msg oid origin form picked) None None)"
  "valuation_receive n (stocked_msg oid origin form picked) =
     and_then (notify n (stocked_msg oid origin form picked) ''importe_calculado'' (PDict [(''importe_total'', PInt (importe picked))]))
       (\<lambda>_ n. send n (ActorRef ''dispatch'') (valued_msg oid origin form picked) None None)"
  "dispatch_receive r_id n (valued_msg oid origin form picked) =
     and_then (notify n (valued_msg oid origin form picked) ''listo_para_envio''
                 (PDict [(''decision_envio'', PStr (decide (importe picked)))]))
       (\<lambda>_ n. send n (RemoteRef r_id ''archivist'') (archive_msg oid origin form picked) None None)"
  by (simp_all add: intake_receive_def stock_check_receive_def valuation_receive_def dispatch_receive_def admitido_def
      nombres_def) (simp_all add: order_msg_def stocked_msg_def valued_msg_def archive_msg_def nombres_def)

subsection \<open>From the api to the archive\<close>

text \<open>Three running nodes with idle actors that know each other and accept the messages of one order.\<close>

definition ready :: "route \<Rightarrow> string \<Rightarrow> string \<Rightarrow> string \<Rightarrow> string \<Rightarrow> pedido \<Rightarrow> (string \<times> int) list \<Rightarrow> warehouse \<Rightarrow> bool" where
  "ready ids f_id r_id data_dir oid form picked w = (case ids of (pa, pf, pr) \<Rightarrow>
     healthy (api w) \<and> healthy (fulfillment w) \<and> healthy (archive w)
     \<and> codec_of (fulfillment w) = codec_of (api w) \<and> codec_of (archive w) = codec_of (api w)
     \<and> ''order_tracker'' \<in> dom (map_of (mailboxes (api w))) \<and> mail (api w) ''order_tracker'' = []
     \<and> (\<forall>name \<in> {''intake'', ''stock_check'', ''valuation'', ''dispatch''}.
          name \<in> dom (map_of (mailboxes (fulfillment w))) \<and> mail (fulfillment w) name = [])
     \<and> ''archivist'' \<in> dom (map_of (mailboxes (archive w))) \<and> mail (archive w) ''archivist'' = []
     \<and> parse (local_id (api w)) = Inr pa \<and> parse f_id = Inr pf \<and> parse r_id = Inr pr \<and> pa \<noteq> pr
     \<and> can_send (api w) f_id (order_msg oid (local_id (api w)) form) None
     \<and> (\<forall>x \<in> set (reports picked). can_send (fulfillment w) (local_id (api w)) (tracker_msg (PStr oid) (fst x) (PDict (snd x))) None)
     \<and> can_send (fulfillment w) r_id (archive_msg oid (local_id (api w)) form picked) None
     \<and> can_send (archive w) (local_id (api w))
          (tracker_msg (PStr oid) ''archivado'' (PDict [(''archivo'', PStr (archive_path data_dir oid))])) None)"

lemma submitted:
  assumes "ready (pa, pf, pr) f_id r_id data_dir oid form picked w"
  obtains w' where "submit (pa, pf, pr) f_id oid form w = (Inr (), w')"
    "underway w ''intake'' (order_msg oid (local_id (api w)) form) w'"
    "api_orders w' = dict_set oid (new_order oid form) (api_orders w)"
proof -
  let ?m = "order_msg oid (local_id (api w)) form"
  have h: "healthy (api w)" "healthy (fulfillment w)" "codec_of (fulfillment w) = codec_of (api w)" "parse f_id = Inr pf"
    "can_send (api w) f_id ?m None" "''intake'' \<in> dom (map_of (mailboxes (fulfillment w)))"
    "mail (fulfillment w) ''intake'' = []" "mail (api w) ''order_tracker'' = []"
    using assms by (simp_all add: ready_def)
  obtain a' j i where a': "send_remote (api w) f_id ''intake'' ?m None None = (Inr (), a')" "same_node (api w) a'"
    "healthy a'" "mail a' = mail (api w)" "outbox a' = outbox (api w) @ [Data_frame pf ''intake'' j i None None]"
    "decode_payload (codec_of (api w)) (json_to_py j) = Inr (untuple ?m)"
    by (rule remote_send [OF h(1,5,4)])
  have "decode_payload (codec_of (fulfillment w)) (json_to_py j) = Inr ?m" using a'(6) h(3) by simp
  then obtain f' where f': "arrive_frame (local_id a') pf pa (Data_frame pf ''intake'' j i None None) (fulfillment w) = f'"
    "same_node (fulfillment w) f'" "healthy f'" "mail f' = (mail (fulfillment w))(''intake'' := mail (fulfillment w) ''intake''
       @ [(?m, \<lparr>m_src = Some (local_id a'), m_reply_to = None, m_correlation_id = None, m_msg_id = Some i\<rparr>)])"
    by (rule frame_arrives [OF h(2,6)])
  let ?w = "w\<lparr>api := a', api_orders := dict_set oid (new_order oid form) (api_orders w), fulfillment := f'\<rparr>"
  have "hop (api w) a' pf pa (fulfillment w) = f'" unfolding hop_frames [OF a'(5)] using f'(1) by simp
  with a'(1) have st: "submit (pa, pf, pr) f_id oid form w = (Inr (), ?w)" by (simp add: submit_def crear_pedido_def)
  have un: "underway w ''intake'' ?m ?w" using a' f' h by (auto simp: underway_def)
  show thesis by (rule that [OF st un]) simp
qed

text \<open>The last stage: a report to the api node and the finished order to the archive node.\<close>

lemma dispatch_sends:
  assumes "healthy n" "parse origin = Inr pa" "parse r_id = Inr pr"
    "can_send n origin (tracker_msg (PStr oid) ''listo_para_envio'' (PDict [(''decision_envio'', PStr (decide (importe picked)))])) None"
    "can_send n r_id (archive_msg oid origin form picked) None"
  obtains n' j i j' i' where "dispatch_receive r_id n (valued_msg oid origin form picked) = (Inr (), n')" "same_node n n'"
    "healthy n'" "outbox n' = outbox n @ Data_frame pa ''order_tracker'' j i None None
       # [Data_frame pr ''archivist'' j' i' None None]"
    "decode_payload (codec_of n) (json_to_py j) =
       Inr (tracker_msg (PStr oid) ''listo_para_envio'' (PDict [(''decision_envio'', PStr (decide (importe picked)))]))"
    "decode_payload (codec_of n) (json_to_py j') = Inr (archive_msg oid origin form picked)"
proof -
  let ?v = "valued_msg oid origin form picked" and ?m = "archive_msg oid origin form picked"
  let ?d = "[(''decision_envio'', PStr (decide (importe picked)))]"
  obtain n1 j i where n1: "notify n ?v ''listo_para_envio'' (PDict ?d) = (Inr (), n1)" "same_node n n1" "healthy n1"
    "outbox n1 = outbox n @ [Data_frame pa ''order_tracker'' j i None None]"
    "decode_payload (codec_of n) (json_to_py j) = Inr (untuple (tracker_msg (PStr oid) ''listo_para_envio'' (PDict ?d)))"
    by (rule notify_reports [OF assms(1) msg_items(6,5) assms(4,2)])
  have c: "can_send n1 r_id ?m None" using assms(5) by (simp add: same_node_can_send [OF n1(2)])
  obtain n2 j' i' where n2: "send_remote n1 r_id ''archivist'' ?m None None = (Inr (), n2)" "same_node n1 n2" "healthy n2"
    "outbox n2 = outbox n1 @ [Data_frame pr ''archivist'' j' i' None None]"
    "decode_payload (codec_of n1) (json_to_py j') = Inr (untuple ?m)"
    by (rule remote_send [OF n1(3) c assms(3)])
  show thesis
    by (rule that [OF _ same_node_trans [OF n1(2) n2(2)] n2(3)])
      (use n1 n2 same_node_fields(2) [OF n1(2)] in \<open>simp_all add: stage_code(4)\<close>)
qed

lemma dispatched:
  assumes "ready (pa, pf, pr) f_id r_id data_dir oid form picked w0"
    and "underway w0 ''dispatch'' (valued_msg oid (local_id (api w0)) form picked) w"
    and known: "map_of (api_orders w) oid = Some order" "order_wf order"
  obtains w' mt where "stage (pa, pf, pr) ''dispatch'' (dispatch_receive r_id) w = (Inr (), w')"
    "healthy (api w')" "same_node (api w0) (api w')" "mail (api w') ''order_tracker'' = []"
    "healthy (archive w')" "same_node (archive w0) (archive w')" "archive_files w' = archive_files w0"
    "mail (archive w') ''archivist'' = [(archive_msg oid (local_id (api w0)) form picked, mt)]"
    "api_orders w' = dict_set oid (progress ''listo_para_envio'' [(''decision_envio'', PStr (decide (importe picked)))] order)
       (api_orders w)"
proof -
  let ?v = "valued_msg oid (local_id (api w0)) form picked" and ?m = "archive_msg oid (local_id (api w0)) form picked"
  let ?d = "[(''decision_envio'', PStr (decide (importe picked)))]"
  let ?t = "tracker_msg (PStr oid) ''listo_para_envio'' (PDict ?d)"
  from assms(1) have h: "codec_of (fulfillment w0) = codec_of (api w0)" "codec_of (archive w0) = codec_of (api w0)"
    "parse (local_id (api w0)) = Inr pa" "parse r_id = Inr pr" "pa \<noteq> pr"
    "can_send (fulfillment w0) (local_id (api w0)) ?t None" "can_send (fulfillment w0) r_id ?m None"
    "healthy (archive w0)" "''archivist'' \<in> dom (map_of (mailboxes (archive w0)))" "mail (archive w0) ''archivist'' = []"
    "''order_tracker'' \<in> dom (map_of (mailboxes (api w0)))"
    by (simp_all add: ready_def reports_def)
  obtain mt where a: "healthy (api w)" "same_node (api w0) (api w)" "mail (api w) ''order_tracker'' = []"
    and f: "healthy (fulfillment w)" "same_node (fulfillment w0) (fulfillment w)" "mail (fulfillment w) ''dispatch'' = [(?v, mt)]"
    and r: "archive w = archive w0" "archive_files w = archive_files w0" using assms(2) by (auto simp: underway_def)
  obtain f1 where f1: "take_mail ''dispatch'' (fulfillment w) = Some ((?v, mt), f1)" "same_node (fulfillment w) f1"
    "healthy f1" "outbox f1 = outbox (fulfillment w)" by (rule take_mail_head [OF f(1,3)])
  have s1: "same_node (fulfillment w0) f1" by (rule same_node_trans [OF f(2) f1(2)])
  have c: "can_send f1 (local_id (api w0)) ?t None" "can_send f1 r_id ?m None"
    using h(6,7) by (simp_all add: same_node_can_send [OF s1])
  obtain f2 j i j' i' where f2: "dispatch_receive r_id f1 ?v = (Inr (), f2)" "same_node f1 f2" "healthy f2"
    "outbox f2 = outbox f1 @ Data_frame pa ''order_tracker'' j i None None # [Data_frame pr ''archivist'' j' i' None None]"
    "decode_payload (codec_of f1) (json_to_py j) = Inr ?t" "decode_payload (codec_of f1) (json_to_py j') = Inr ?m"
    by (rule dispatch_sends [OF f1(3) h(3,4) c])
  have codec: "codec_of (api w) = codec_of f1" "codec_of (archive w0) = codec_of f1"
    using h(1,2) same_node_fields(2) [OF s1] same_node_fields(2) [OF a(2)] by simp_all
  have out: "outbox f2 = outbox (fulfillment w) @ Data_frame pa ''order_tracker'' j i None None
      # [Data_frame pr ''archivist'' j' i' None None]" using f2(4) f1(4) by simp
  obtain a' where a': "tracker_turn (hop (fulfillment w) f2 pa pf (api w), api_orders w)
       = (case tracker_receive ?t (api_orders w) of (r, os') \<Rightarrow> (r, a', os'))"
    "same_node (api w) a'" "healthy a'" "mail a' = mail (api w)"
    by (rule report_arrives [OF a(1) _ a(3) out, where m = ?t and os = "api_orders w" and pf = pf])
      (use h(5,11) f2(5) codec(1) same_node_fields(1) [OF a(2)] in simp_all)
  obtain r' where r': "arrive_frame (local_id f2) pr pf (Data_frame pr ''archivist'' j' i' None None) (archive w0) = r'"
    "same_node (archive w0) r'" "healthy r'" "mail r' = (mail (archive w0))(''archivist'' := mail (archive w0) ''archivist''
      @ [(?m, \<lparr>m_src = Some (local_id f2), m_reply_to = None, m_correlation_id = None, m_msg_id = Some i'\<rparr>)])"
    using frame_arrives [OF h(8,9), of j' ?m] f2(6) codec(2) by metis
  have hop: "hop (fulfillment w) f2 pr pf (archive w) = r'" unfolding hop_frames [OF out] using r'(1) h(5) r(1) by simp
  obtain hs where hs: "map_of order ''history'' = Some (PList hs)" using known(2) by (auto simp: order_wf_def)
  have st: "stage (pa, pf, pr) ''dispatch'' (dispatch_receive r_id) w = (Inr (), w\<lparr>api := a',
      api_orders := dict_set oid (progress ''listo_para_envio'' ?d order) (api_orders w), fulfillment := f2, archive := r'\<rparr>)"
    by (simp add: stage_def turn_def f1(1) f2(1) a'(1) tracker_known [OF known(1) hs] hop)
  show thesis by (rule that [OF st]) (use a' a same_node_trans [OF a(2) a'(2)] r' r h(10) in simp_all)
qed

definition archived_record :: "string \<Rightarrow> pedido \<Rightarrow> (string \<times> int) list \<Rightarrow> pyval" where
  "archived_record oid form picked =
     PDict [(''order_id'', PStr oid), (''formulario'', form_dump form), (''productos'', nombres picked),
            (''importe_total'', PInt (importe picked)), (''decision_envio'', PStr (decide (importe picked)))]"

lemma archivist_files:
  assumes "healthy n" "parse origin = Inr pa"
    "can_send n origin (tracker_msg (PStr oid) ''archivado'' (PDict [(''archivo'', PStr (archive_path data_dir oid))])) None"
  obtains n' j i where "archivist_receive data_dir (Inr (), Inr ()) (archive_msg oid origin form picked) (n, fs)
       = (Inr (), n', dict_set (archive_path data_dir oid) (archived_record oid form picked) fs)"
    "outbox n' = outbox n @ [Data_frame pa ''order_tracker'' j i None None]"
    "decode_payload (codec_of n) (json_to_py j) =
       Inr (tracker_msg (PStr oid) ''archivado'' (PDict [(''archivo'', PStr (archive_path data_dir oid))]))"
proof -
  obtain n' j i where "send_remote n origin ''order_tracker''
       (tracker_msg (PStr oid) ''archivado'' (PDict [(''archivo'', PStr (archive_path data_dir oid))])) None None = (Inr (), n')"
    "same_node n n'" "healthy n'" "mail n' = mail n" "outbox n' = outbox n @ [Data_frame pa ''order_tracker'' j i None None]"
    "decode_payload (codec_of n) (json_to_py j) = Inr (untuple
       (tracker_msg (PStr oid) ''archivado'' (PDict [(''archivo'', PStr (archive_path data_dir oid))])))"
    by (rule remote_send [OF assms(1,3,2)])
  then show thesis
    by (intro that) (simp_all add: archivist_receive_def archive_msg_def str_item_def archived_record_def Let_def)
qed

lemma filed:
  assumes "ready (pa, pf, pr) f_id r_id data_dir oid form picked w0"
    and a: "healthy (api w)" "same_node (api w0) (api w)" "mail (api w) ''order_tracker'' = []"
    and r: "healthy (archive w)" "same_node (archive w0) (archive w)"
      "mail (archive w) ''archivist'' = [(archive_msg oid (local_id (api w0)) form picked, mt)]"
    and known: "map_of (api_orders w) oid = Some order" "order_wf order"
  obtains w' where "file_order (pa, pf, pr) data_dir (Inr (), Inr ()) w = (Inr (), w')"
    "archive_files w' = dict_set (archive_path data_dir oid) (archived_record oid form picked) (archive_files w)"
    "api_orders w' = dict_set oid (progress ''archivado'' [(''archivo'', PStr (archive_path data_dir oid))] order) (api_orders w)"
proof -
  let ?d = "[(''archivo'', PStr (archive_path data_dir oid))]"
  let ?t = "tracker_msg (PStr oid) ''archivado'' (PDict ?d)"
  from assms(1) have h: "codec_of (archive w0) = codec_of (api w0)" "parse (local_id (api w0)) = Inr pa"
    "can_send (archive w0) (local_id (api w0)) ?t None" "''order_tracker'' \<in> dom (map_of (mailboxes (api w0)))"
    by (simp_all add: ready_def)
  obtain r1 where r1: "take_mail ''archivist'' (archive w) = Some ((archive_msg oid (local_id (api w0)) form picked, mt), r1)"
    "same_node (archive w) r1" "healthy r1" "outbox r1 = outbox (archive w)" by (rule take_mail_head [OF r(1,3)])
  have s1: "same_node (archive w0) r1" by (rule same_node_trans [OF r(2) r1(2)])
  have c: "can_send r1 (local_id (api w0)) ?t None" using h(3) by (simp add: same_node_can_send [OF s1])
  obtain r2 j i where r2: "archivist_receive data_dir (Inr (), Inr ()) (archive_msg oid (local_id (api w0)) form picked)
      (r1, archive_files w) = (Inr (), r2, dict_set (archive_path data_dir oid) (archived_record oid form picked) (archive_files w))"
    "outbox r2 = outbox r1 @ [Data_frame pa ''order_tracker'' j i None None]"
    "decode_payload (codec_of r1) (json_to_py j) = Inr ?t"
    by (rule archivist_files [OF r1(3) h(2) c])
  obtain a' where a': "tracker_turn (hop (archive w) r2 pa pr (api w), api_orders w)
       = (case tracker_receive ?t (api_orders w) of (r, os') \<Rightarrow> (r, a', os'))"
    by (rule report_arrives [OF a(1) _ a(3), where m = ?t and os = "api_orders w" and pf = pr and pa = pa and j = j and i = i
          and f = "archive w" and f' = r2 and fs = "[]"])
      (use h r1 r2 same_node_fields(1,2) [OF a(2)] same_node_fields(2) [OF s1] in simp_all)
  obtain hs where hs: "map_of order ''history'' = Some (PList hs)" using known(2) by (auto simp: order_wf_def)
  have st: "file_order (pa, pf, pr) data_dir (Inr (), Inr ()) w = (Inr (), w\<lparr>api := a',
      api_orders := dict_set oid (progress ''archivado'' ?d order) (api_orders w), archive := r2,
      archive_files := dict_set (archive_path data_dir oid) (archived_record oid form picked) (archive_files w)\<rparr>)"
    by (simp add: file_order_def archivist_turn_def r1(1) r2(1) a' tracker_known [OF known(1) hs])
  show thesis by (rule that [OF st]) simp_all
qed

text \<open>What the tracker shows in the end: the reports in their order.\<close>

definition all_reports :: "string \<Rightarrow> string \<Rightarrow> (string \<times> int) list \<Rightarrow> (string \<times> (string \<times> pyval) list) list" where
  "all_reports data_dir oid picked = reports picked @ [(''archivado'', [(''archivo'', PStr (archive_path data_dir oid))])]"

definition report_entry :: "string \<times> (string \<times> pyval) list \<Rightarrow> pyval" where
  "report_entry x = PDict [(''status'', PStr (fst x)), (''detail'', PDict (snd x))]"

definition tracked :: "(string \<times> (string \<times> pyval) list) list \<Rightarrow> order \<Rightarrow> order" where
  "tracked rs order = fold (\<lambda>(s, d). progress s d) rs order"

lemma tracked_fields:
  assumes "order = tracked (all_reports data_dir oid picked) (new_order oid form)"
  shows "map_of order ''status'' = Some (PStr ''archivado'')"
    "map_of order ''history'' = Some (PList (map report_entry (all_reports data_dir oid picked)))"
    "map_of order ''productos'' = Some (nombres picked)" "map_of order ''importe_total'' = Some (PInt (importe picked))"
    "map_of order ''decision_envio'' = Some (PStr (decide (importe picked)))"
    "map_of order ''archivo'' = Some (PStr (archive_path data_dir oid))"
  by (simp_all add: assms tracked_def all_reports_def reports_def progress_def new_order_def report_entry_def admitido_def)

lemma order_wf_tracked:
  "order_wf order \<Longrightarrow> \<forall>x \<in> set rs. set (keys (snd x)) \<inter> set own_fields = {} \<Longrightarrow> order_wf (tracked rs order)"
  by (induction rs arbitrary: order) (auto simp: tracked_def order_wf_progress case_prod_beta)

lemma stages_pass_on:
  assumes "ready (pa, pf, pr) f_id r_id data_dir oid form picked w"
  shows "passes_on (fulfillment w) pa intake_receive (order_msg oid (local_id (api w)) form)
      (tracker_msg (PStr oid) ''en_preparacion'' (PDict admitido)) ''stock_check'' (order_msg oid (local_id (api w)) form)"
    "passes_on (fulfillment w) pa (stock_check_receive picked) (order_msg oid (local_id (api w)) form)
      (tracker_msg (PStr oid) ''stock_reservado'' (PDict [(''productos'', nombres picked)])) ''valuation''
      (stocked_msg oid (local_id (api w)) form picked)"
    "passes_on (fulfillment w) pa valuation_receive (stocked_msg oid (local_id (api w)) form picked)
      (tracker_msg (PStr oid) ''importe_calculado'' (PDict [(''importe_total'', PInt (importe picked))])) ''dispatch''
      (valued_msg oid (local_id (api w)) form picked)"
  by (rule passes_onI, rule stage_code, rule msg_items, rule msg_items,
      use assms in \<open>simp_all add: ready_def reports_def\<close>)+

text \<open>The first three stages.\<close>

lemma through_stages:
  assumes "ready (pa, pf, pr) f_id r_id data_dir oid form picked w"
    and w1: "underway w ''intake'' (order_msg oid (local_id (api w)) form) w1"
    and known: "map_of (api_orders w1) oid = Some order" "order_wf order"
  obtains w4 where "and_then (stage (pa, pf, pr) ''intake'' intake_receive w1) (\<lambda>_ w.
      and_then (stage (pa, pf, pr) ''stock_check'' (stock_check_receive picked) w) (\<lambda>_ w.
        stage (pa, pf, pr) ''valuation'' valuation_receive w)) = (Inr (), w4)"
    "underway w ''dispatch'' (valued_msg oid (local_id (api w)) form picked) w4"
    "map_of (api_orders w4) = (map_of (api_orders w1))(oid \<mapsto> tracked (take 3 (reports picked)) order)"
proof -
  have h: "pa \<noteq> pr" "''order_tracker'' \<in> dom (map_of (mailboxes (api w)))" "codec_of (api w) = codec_of (fulfillment w)"
    and idle: "name \<in> {''intake'', ''stock_check'', ''valuation'', ''dispatch''} \<Longrightarrow> mail (fulfillment w) name = []"
    for name using assms(1) unfolding ready_def by auto
  note p = stages_pass_on [OF assms(1)]
  have wf: "order_wf (tracked (take n (reports picked)) order)" for n
    by (rule order_wf_tracked [OF known(2)]) (auto simp: reports_def own_fields_def admitido_def dest!: in_set_takeD)
  obtain w2 where w2: "stage (pa, pf, pr) ''intake'' intake_receive w1 = (Inr (), w2)"
    "underway w ''stock_check'' (order_msg oid (local_id (api w)) form) w2"
    "api_orders w2 = dict_set oid (progress ''en_preparacion'' admitido order) (api_orders w1)"
    by (rule stage_passes_on [OF w1 p(1) _ h(1) _ _ _ h(2,3) known, where pf = pf and status = "''en_preparacion''"])
      (use idle in \<open>auto simp: admitido_def\<close>)
  have k2: "map_of (api_orders w2) oid = Some (tracked (take 1 (reports picked)) order)"
    using w2(3) by (simp add: reports_def tracked_def)
  obtain w3 where w3: "stage (pa, pf, pr) ''stock_check'' (stock_check_receive picked) w2 = (Inr (), w3)"
    "underway w ''valuation'' (stocked_msg oid (local_id (api w)) form picked) w3"
    "api_orders w3 = dict_set oid (progress ''stock_reservado'' [(''productos'', nombres picked)]
       (tracked (take 1 (reports picked)) order)) (api_orders w2)"
    by (rule stage_passes_on [OF w2(2) p(2) _ h(1) _ _ _ h(2,3) k2 wf, where pf = pf and status = "''stock_reservado''"])
      (use idle in auto)
  have k3: "map_of (api_orders w3) oid = Some (tracked (take 2 (reports picked)) order)"
    using w3(3) by (simp add: reports_def tracked_def)
  obtain w4 where w4: "stage (pa, pf, pr) ''valuation'' valuation_receive w3 = (Inr (), w4)"
    "underway w ''dispatch'' (valued_msg oid (local_id (api w)) form picked) w4"
    "api_orders w4 = dict_set oid (progress ''importe_calculado'' [(''importe_total'', PInt (importe picked))]
       (tracked (take 2 (reports picked)) order)) (api_orders w3)"
    by (rule stage_passes_on [OF w3(2) p(3) _ h(1) _ _ _ h(2,3) k3 wf, where pf = pf and status = "''importe_calculado''"])
      (use idle in auto)
  have "map_of (api_orders w4) = (map_of (api_orders w1))(oid \<mapsto> tracked (take 3 (reports picked)) order)"
    by (rule ext) (simp add: w4(3) w3(3) w2(3) reports_def tracked_def)
  with w2(1) w3(1) w4(1,2) show thesis by (intro that) simp_all
qed


text \<open>Three nodes as the programs bring them up, once they are connected.\<close>

definition demo_form :: pedido where
  "demo_form = \<lparr>cliente = ''Ana'', producto = ''silla'', direccion_envio = ''Calle Mayor 12''\<rparr>"

definition demo_picked :: "(string \<times> int) list" where
  "demo_picked = [(''silla de oficina'', 30), (''webcam HD'', 10)]"

lemma demo_portable:
  "portable sample_env (order_msg ''o1'' ''api@h:1'' demo_form)"
  "portable sample_env (archive_msg ''o1'' ''api@h:1'' demo_form demo_picked)"
  "x \<in> set (all_reports ''/data'' ''o1'' demo_picked) \<Longrightarrow> portable sample_env (tracker_msg (PStr ''o1'') (fst x) (PDict (snd x)))"
  by (auto simp: order_msg_def archive_msg_def tracker_msg_def all_reports_def reports_def admitido_def form_dump_def nombres_def
      importe_def demo_picked_def demo_form_def sample_env_def plain_builtin_def RESERVED_def i64_or_u64_def)

lemma demo_ready:
  "\<exists>w. ready (demo_id ''api'' 1, demo_id ''ful'' 2, demo_id ''arc'' 3) ''ful@h:2'' ''arc@h:3'' ''/data'' ''o1'' demo_form demo_picked w
     \<and> archive_files w = [] \<and> api_orders w = []"
proof -
  obtain a where a: "fresh sample_env (\<lambda>_. 10) (demo_id ''api'' 1) {''order_tracker''} a"
    by (rule demo_up [OF demo_ids(1), of "[''order_tracker'']"]) simp_all
  obtain f where f: "fresh sample_env (\<lambda>_. 10) (demo_id ''ful'' 2) {''intake'', ''stock_check'', ''valuation'', ''dispatch''} f"
    by (rule demo_up [OF demo_ids(2), of "[''intake'', ''stock_check'', ''valuation'', ''dispatch'']"]) simp_all
  obtain r where r: "fresh sample_env (\<lambda>_. 10) (demo_id ''arc'' 3) {''archivist''} r"
    by (rule demo_up [OF demo_ids(3), of "[''archivist'']"]) simp_all
  let ?w = "\<lparr>api = joined [demo_id ''ful'' 2] a, api_orders = [], fulfillment = joined [demo_id ''api'' 1, demo_id ''arc'' 3] f,
     archive = joined [demo_id ''api'' 1] r, archive_files = []\<rparr>"
  note j = joined_fresh [OF a] joined_fresh [OF f] joined_fresh [OF r]
  have len: "\<forall>j :: json. (10 :: nat) \<le> MAX_FRAME_SIZE" by (simp add: MAX_FRAME_SIZE_def)
  have "pa \<noteq> pr" if "pa = demo_id ''api'' 1" "pr = demo_id ''arc'' 3" for pa pr using that by (simp add: demo_id_def)
  then have "ready (demo_id ''api'' 1, demo_id ''ful'' 2, demo_id ''arc'' 3) ''ful@h:2'' ''arc@h:3'' ''/data'' ''o1'' demo_form
      demo_picked ?w"
    using demo_portable(1,2) demo_portable(3) [of "(''archivado'', [(''archivo'', PStr (archive_path ''/data'' ''o1''))])"]
      demo_portable(3) joined_can_send [OF a demo_ids(2) _ _ len u64_none] joined_can_send [OF f demo_ids(1) _ _ len u64_none]
      joined_can_send [OF f demo_ids(3) _ _ len u64_none] joined_can_send [OF r demo_ids(1) _ _ len u64_none]
    by (simp add: ready_def j demo_ids all_reports_def)
  then show ?thesis by (intro exI [of _ ?w]) simp
qed


subsection \<open>Where the tracker falls short\<close>

text \<open>An order whose submission raises stays in the table as received, and nothing will ever move it on.\<close>

lemma failed_submission_listed:
  assumes "crear_pedido f_id oid form (n, os) = (Inl e, n', os')"
  shows "obtener_pedido os' oid = Inr (new_order oid form) \<and> map_of (new_order oid form) ''status'' = Some (PStr ''recibido'')"
  using assms by (auto simp: crear_pedido_def obtener_pedido_def new_order_def Let_def split: prod.splits sum.splits)

lemma progress_lookup:
  assumes "order_wf order" "set (keys d) \<inter> set own_fields = {}"
  shows "map_of (progress status d order) ''status'' = Some (PStr status)"
    "map_of order ''history'' = Some (PList h) \<Longrightarrow>
       map_of (progress status d order) ''history'' = Some (PList (h @ [report_entry (status, d)]))"
    "k \<notin> {''status'', ''history''} \<Longrightarrow> map_of (progress status d order) k
       = (case map_of (rev d) k of None \<Rightarrow> map_of order k | Some v \<Rightarrow> Some v)"
proof -
  have none: "map_of (rev d) ''history'' = None" "map_of (rev d) ''status'' = None"
    using map_of_foreign [OF assms(2)] by (simp_all add: own_fields_def)
  show "map_of (progress status d order) ''status'' = Some (PStr status)"
    by (simp add: progress_def Let_def map_of_updates none)
  show "map_of order ''history'' = Some (PList h) \<Longrightarrow>
       map_of (progress status d order) ''history'' = Some (PList (h @ [report_entry (status, d)]))"
    by (simp add: progress_def Let_def map_of_updates none report_entry_def)
  show "k \<notin> {''status'', ''history''} \<Longrightarrow> map_of (progress status d order) k
       = (case map_of (rev d) k of None \<Rightarrow> map_of order k | Some v \<Rightarrow> Some v)"
    by (simp add: progress_def Let_def map_of_updates split: option.split)
qed

text \<open>C37. Reports of different stages commute in everything but the status. When two reports with different
  details reach the tracker in the other order, every field of the order is the same and the
  history has the same entries, but the status is that of the report that arrived last. The
  reports of the archive come over another connection than those of the stages, so the report of
  the last stage can be overtaken, and the order is then shown as ready for shipping for ever
  although it is archived.\<close>

theorem overtaken_report_reverts_status:
  assumes "map_of os oid = Some order" and "order_wf order" and "map_of order ''history'' = Some (PList h)"
    and "set (keys d1) \<inter> set own_fields = {}" and "set (keys d2) \<inter> set own_fields = {}"
    and "set (keys d1) \<inter> set (keys d2) = {}"
  shows "\<exists>o12 o21.
      obtener_pedido (snd (tracker_receive (tracker_msg (PStr oid) s2 (PDict d2))
        (snd (tracker_receive (tracker_msg (PStr oid) s1 (PDict d1)) os)))) oid = Inr o12
    \<and> obtener_pedido (snd (tracker_receive (tracker_msg (PStr oid) s1 (PDict d1))
        (snd (tracker_receive (tracker_msg (PStr oid) s2 (PDict d2)) os)))) oid = Inr o21
    \<and> map_of o12 ''status'' = Some (PStr s2) \<and> map_of o21 ''status'' = Some (PStr s1)
    \<and> map_of o12 ''history'' = Some (PList (h @ [report_entry (s1, d1), report_entry (s2, d2)]))
    \<and> map_of o21 ''history'' = Some (PList (h @ [report_entry (s2, d2), report_entry (s1, d1)]))
    \<and> (\<forall>k. k \<notin> {''status'', ''history''} \<longrightarrow> map_of o12 k = map_of o21 k)"
proof -
  let ?p1 = "progress s1 d1 order" and ?p2 = "progress s2 d2 order"
  have wf: "order_wf ?p1" "order_wf ?p2" using assms by (simp_all add: order_wf_progress)
  note l1 = progress_lookup [OF assms(2,4), where status = s1] and l2 = progress_lookup [OF assms(2,5), where status = s2]
  note l12 = progress_lookup [OF wf(1) assms(5), where status = s2] and l21 = progress_lookup [OF wf(2) assms(4), where status = s1]
  have t: "snd (tracker_receive (tracker_msg (PStr oid) s1 (PDict d1)) os) = dict_set oid ?p1 os"
    "snd (tracker_receive (tracker_msg (PStr oid) s2 (PDict d2)) os) = dict_set oid ?p2 os"
    using tracker_known [OF assms(1,3)] by simp_all
  have o: "obtener_pedido (snd (tracker_receive (tracker_msg (PStr oid) s2 (PDict d2)) (dict_set oid ?p1 os))) oid
      = Inr (progress s2 d2 ?p1)"
    "obtener_pedido (snd (tracker_receive (tracker_msg (PStr oid) s1 (PDict d1)) (dict_set oid ?p2 os))) oid
      = Inr (progress s1 d1 ?p2)"
    using tracker_known [of "dict_set oid ?p1 os" oid ?p1] tracker_known [of "dict_set oid ?p2 os" oid ?p2]
      l1(2) [OF assms(3)] l2(2) [OF assms(3)] by (simp_all add: obtener_pedido_def)
  have same: "map_of (progress s2 d2 ?p1) k = map_of (progress s1 d1 ?p2) k" if "k \<notin> {''status'', ''history''}" for k
  proof -
    have "map_of (rev d1) k = None \<or> map_of (rev d2) k = None"
      using assms(6) by (auto simp: map_of_eq_None_iff)
    then show ?thesis unfolding l12(3) [OF that] l21(3) [OF that] unfolding l1(3) [OF that] l2(3) [OF that]
      by (elim disjE) (simp_all split: option.split)
  qed
  have hist: "map_of (progress s2 d2 ?p1) ''history'' = Some (PList (h @ [report_entry (s1, d1), report_entry (s2, d2)]))"
    "map_of (progress s1 d1 ?p2) ''history'' = Some (PList (h @ [report_entry (s2, d2), report_entry (s1, d1)]))"
    using l12(2) [OF l1(2) [OF assms(3)]] l21(2) [OF l2(2) [OF assms(3)]] by simp_all
  show ?thesis unfolding t o using l12(1) l21(1) hist same by blast
qed

theorem overtaken_report_reverts_status_witness:
  "\<exists>order. obtener_pedido (snd (tracker_receive (tracker_msg (PStr ''o1'') ''listo_para_envio'' (PDict [(''decision_envio'', PStr ''d'')]))
      (snd (tracker_receive (tracker_msg (PStr ''o1'') ''archivado'' (PDict [(''archivo'', PStr ''f'')]))
        [(''o1'', new_order ''o1'' demo_form)])))) ''o1'' = Inr order
    \<and> map_of order ''status'' = Some (PStr ''listo_para_envio'') \<and> map_of order ''archivo'' = Some (PStr ''f'')"
proof -
  let ?os = "[(''o1'', new_order ''o1'' demo_form)]"
  let ?t1 = "tracker_msg (PStr ''o1'') ''listo_para_envio'' (PDict [(''decision_envio'', PStr ''d'')])"
  let ?t2 = "tracker_msg (PStr ''o1'') ''archivado'' (PDict [(''archivo'', PStr ''f'')])"
  have h: "map_of (new_order ''o1'' demo_form) ''history'' = Some (PList [])" by (simp add: new_order_def)
  have d: "map_of ?os ''o1'' = Some (new_order ''o1'' demo_form)"
    "set (keys [(''decision_envio'', PStr ''d'')]) \<inter> set own_fields = {}" "set (keys [(''archivo'', PStr ''f'')]) \<inter> set own_fields = {}"
    "set (keys [(''decision_envio'', PStr ''d'')]) \<inter> set (keys [(''archivo'', PStr ''f'')]) = {}"
    by (simp_all add: own_fields_def)
  obtain o12 o21 where o: "obtener_pedido (snd (tracker_receive ?t2 (snd (tracker_receive ?t1 ?os)))) ''o1'' = Inr o12"
    "obtener_pedido (snd (tracker_receive ?t1 (snd (tracker_receive ?t2 ?os)))) ''o1'' = Inr o21"
    "map_of o21 ''status'' = Some (PStr ''listo_para_envio'')"
    "\<forall>k. k \<notin> {''status'', ''history''} \<longrightarrow> map_of o12 k = map_of o21 k"
    using overtaken_report_reverts_status [OF d(1) order_wf_new h d(2-4)] by blast
  let ?p = "progress ''listo_para_envio'' [(''decision_envio'', PStr ''d'')] (new_order ''o1'' demo_form)"
  have p: "order_wf ?p" "map_of ?p ''history'' = Some (PList [report_entry (''listo_para_envio'', [(''decision_envio'', PStr ''d'')])])"
    using order_wf_progress [OF order_wf_new d(2)] progress_lookup(2) [OF order_wf_new d(2) h] by simp_all
  have "tracker_receive ?t1 ?os = (Inr (), [(''o1'', ?p)])" using tracker_known [OF d(1) h] by simp
  moreover have "tracker_receive ?t2 [(''o1'', ?p)] = (Inr (), [(''o1'', progress ''archivado'' [(''archivo'', PStr ''f'')] ?p)])"
    using tracker_known [of "[(''o1'', ?p)]" "''o1''" ?p] p(2) by simp
  ultimately have "o12 = progress ''archivado'' [(''archivo'', PStr ''f'')] ?p" using o(1) by (simp add: obtener_pedido_def)
  then have "map_of o12 ''archivo'' = Some (PStr ''f'')"
    using progress_lookup(3) [OF p(1) d(3), of "''archivo''" "''archivado''"] by simp
  moreover have "map_of o12 ''archivo'' = map_of o21 ''archivo''" using o(4) [rule_format, of "''archivo''"] by simp
  ultimately show ?thesis by (intro exI [of _ o21] conjI o(2,3)) simp
qed

end
