(* ===== verification/Order_Stream.thy ===== *)
theory Order_Stream
  imports Startup
begin

text \<open>
  The order stream (\<^verbatim>\<open>src/examples/order_stream\<close>): a worker node processes orders in a pool and streams the
  progress of each to the application node, which publishes it to every viewer of the order. The
  table of orders lives in a database server; its statements are the constructors of
  \<open>statement\<close>, and what the server answers is the argument \<open>exec\<close>. \<open>lawful\<close> says what the code relies
  on: a statement takes effect as SQL says or fails without any effect.
\<close>

subsection \<open>The table of orders\<close>

datatype statement =
    Create_table
  | Insert_order string
  | Append_steps string "pyval list"
  | Set_status string string
  | Select_order string

record row =
  row_status :: string
  row_steps :: "pyval list"
  row_created_at :: string
  row_updated_at :: string

type_synonym 'd exec = "statement \<Rightarrow> 'd \<Rightarrow> row option res \<times> 'd"

definition db_connect :: "'d exec \<Rightarrow> 'd \<Rightarrow> unit res \<times> 'd" where
  "db_connect exec d = and_then (exec Create_table d) (\<lambda>_ d. (Inr (), d))"

definition create_order :: "'d exec \<Rightarrow> string \<Rightarrow> 'd \<Rightarrow> unit res \<times> 'd" where
  "create_order exec order_id d = and_then (exec (Insert_order order_id) d) (\<lambda>_ d. (Inr (), d))"

definition append_step :: "'d exec \<Rightarrow> string \<Rightarrow> pyval \<Rightarrow> 'd \<Rightarrow> unit res \<times> 'd" where
  "append_step exec order_id step d = and_then (exec (Append_steps order_id [step]) d) (\<lambda>_ d. (Inr (), d))"

definition mark_status :: "'d exec \<Rightarrow> string \<Rightarrow> string \<Rightarrow> 'd \<Rightarrow> unit res \<times> 'd" where
  "mark_status exec order_id status d = and_then (exec (Set_status order_id status) d) (\<lambda>_ d. (Inr (), d))"

definition row_dict :: "string \<Rightarrow> row \<Rightarrow> pyval" where
  "row_dict order_id r =
     PDict [(''id'', PStr order_id), (''status'', PStr (row_status r)), (''steps'', PList (row_steps r)),
            (''created_at'', PStr (row_created_at r)), (''updated_at'', PStr (row_updated_at r))]"

definition get_order :: "'d exec \<Rightarrow> string \<Rightarrow> 'd \<Rightarrow> pyval option res \<times> 'd" where
  "get_order exec order_id d =
     and_then (exec (Select_order order_id) d) (\<lambda>r d. (Inr (map_option (row_dict order_id) r), d))"

text \<open>What the statements mean. \<open>rows\<close> reads the table, without the time stamps, from a state of the server.\<close>

type_synonym table = "string \<rightharpoonup> string \<times> pyval list"

fun sql_effect :: "statement \<Rightarrow> table \<Rightarrow> table" where
  "sql_effect Create_table t = t"
| "sql_effect (Insert_order k) t = (case t k of None \<Rightarrow> t(k \<mapsto> (''en_progreso'', [])) | Some r \<Rightarrow> t)"
| "sql_effect (Append_steps k xs) t = (case t k of None \<Rightarrow> t | Some (s, steps) \<Rightarrow> t(k \<mapsto> (s, steps @ xs)))"
| "sql_effect (Set_status k s) t = (case t k of None \<Rightarrow> t | Some (_, steps) \<Rightarrow> t(k \<mapsto> (s, steps)))"
| "sql_effect (Select_order k) t = t"

definition row_view :: "row \<Rightarrow> string \<times> pyval list" where
  "row_view r = (row_status r, row_steps r)"

definition lawful :: "'d exec \<Rightarrow> ('d \<Rightarrow> table) \<Rightarrow> bool" where
  "lawful exec rows \<longleftrightarrow>
     (\<forall>st d. case exec st d of
        (Inl e, d') \<Rightarrow> rows d' = rows d
      | (Inr r, d') \<Rightarrow> rows d' = sql_effect st (rows d)
          \<and> (\<forall>k. st = Insert_order k \<longrightarrow> rows d k = None)
          \<and> (\<forall>k. st = Select_order k \<longrightarrow> map_option row_view r = rows d k))"

subsection \<open>Processing an order\<close>

definition STEPS :: "(string \<times> string) list" where
  "STEPS =
     [(''validacion_pedido'', ''La IA valida los datos del pedido''),
      (''comprobacion_stock'', ''La IA comprueba el stock disponible en el almac'' @ [CHR 0xE9] @ ''n''),
      (''calculo_precio'', ''La IA calcula el importe final del pedido''),
      (''prioridad_envio'', ''La IA determina la prioridad de env'' @ [CHR 0xED] @ ''o'')]"

definition step_dict :: "string \<times> string \<Rightarrow> pyval" where
  "step_dict s = PDict [(''step'', PStr (fst s)), (''detail'', PStr (snd s))]"

definition update :: "string \<Rightarrow> pyval list \<Rightarrow> pyval" where
  "update status steps = PDict [(''status'', PStr status), (''steps'', PList steps)]"

text \<open>
  \<^verbatim>\<open>process_order\<close> with the metadata of its message. \<open>asleep\<close> is what other code does to the node while the
  function sleeps. The first component of the result lists the steps that were taken.
\<close>

fun take_steps :: "(node \<Rightarrow> node) \<Rightarrow> 'd exec \<Rightarrow> meta \<Rightarrow> string \<Rightarrow> (string \<times> string) list \<Rightarrow> pyval list
    \<Rightarrow> node \<times> 'd \<Rightarrow> pyval list \<times> unit res \<times> node \<times> 'd" where
  "take_steps asleep exec mt order_id [] steps st = (steps, Inr (), st)"
| "take_steps asleep exec mt order_id (s # rest) steps (n, d) =
     (let n = asleep n; steps = steps @ [step_dict s]
      in case append_step exec order_id (step_dict s) d of
           (Inl e, d) \<Rightarrow> (steps, Inl e, (n, d))
         | (Inr _, d) \<Rightarrow>
            (case reply_stream n mt (update ''en_progreso'' steps) of
               (Inl e, n) \<Rightarrow> (steps, Inl e, (n, d))
             | (Inr _, n) \<Rightarrow> take_steps asleep exec mt order_id rest steps (n, d)))"

definition complete_order :: "'d exec \<Rightarrow> meta \<Rightarrow> string \<Rightarrow> pyval list \<Rightarrow> node \<times> 'd \<Rightarrow> unit res \<times> node \<times> 'd" where
  "complete_order exec mt order_id steps = (\<lambda>(n, d).
     case mark_status exec order_id ''completado'' d of
       (Inl e, d) \<Rightarrow> (Inl e, (n, d))
     | (Inr _, d) \<Rightarrow> (case reply_final n mt (update ''completado'' steps) of (r, n) \<Rightarrow> (r, (n, d))))"

definition fail_order :: "'d exec \<Rightarrow> meta \<Rightarrow> string \<Rightarrow> pyval list \<Rightarrow> node \<times> 'd \<Rightarrow> unit res \<times> node \<times> 'd" where
  "fail_order exec mt order_id steps = (\<lambda>(n, d).
     case mark_status exec order_id ''error'' d of (_, d) \<Rightarrow>
       (case reply_final n mt (update ''error'' steps) of (r, n) \<Rightarrow> (r, (n, d))))"

definition process_order :: "(node \<Rightarrow> node) \<Rightarrow> 'd exec \<Rightarrow> meta \<Rightarrow> pyval \<Rightarrow> node \<times> 'd \<Rightarrow> unit res \<times> node \<times> 'd" where
  "process_order asleep exec mt msg st =
     (case str_item msg ''order_id'' of
        Inl e \<Rightarrow> (Inl e, st)
      | Inr order_id \<Rightarrow>
         (case take_steps asleep exec mt order_id STEPS [] st of
            (steps, Inl e, st) \<Rightarrow> fail_order exec mt order_id steps st
          | (steps, Inr _, st) \<Rightarrow>
             (case complete_order exec mt order_id steps st of
                (Inl e, st) \<Rightarrow> fail_order exec mt order_id steps st
              | (Inr _, st) \<Rightarrow> (Inr (), st))))"

definition worker_main ::
  "codec_env \<Rightarrow> (json \<Rightarrow> nat) \<Rightarrow> string + 16 word \<Rightarrow> string \<Rightarrow> nat \<Rightarrow> 'd exec \<Rightarrow> 'd \<Rightarrow> pool res \<times> sys \<times> 'd" where
  "worker_main env len bound node_name max_parallel exec d =
     (case db_connect exec d of
        (Inl e, d) \<Rightarrow> (Inl e, (new_node env node_name None, default_supervisor), d)
      | (Inr _, d) \<Rightarrow>
         (case and_then (bring_up len bound default_supervisor [] (new_node env node_name None))
                 (\<lambda>_ sy. spawn_pool Async_function max_parallel ''order_pool'' None None False sy) of
            (r, sy) \<Rightarrow> (r, sy, d)))"

subsection \<open>Publishing\<close>

record pubsub =
  subscribers :: "(string, nat list) dict"
  pub_queues :: "(nat, pyval list) dict"
  next_queue :: nat

definition subscribe :: "string \<Rightarrow> pubsub \<Rightarrow> nat \<times> pubsub" where
  "subscribe order_id p =
     (next_queue p, p\<lparr>next_queue := next_queue p + 1, pub_queues := dict_set (next_queue p) [] (pub_queues p),
        subscribers := bucket_add order_id (next_queue p) (subscribers p)\<rparr>)"

definition unsubscribe :: "string \<Rightarrow> nat \<Rightarrow> pubsub \<Rightarrow> pubsub" where
  "unsubscribe order_id q p =
     (case map_of (subscribers p) order_id of
        None \<Rightarrow> p
      | Some subs \<Rightarrow>
          let subs = set_discard q subs
          in p\<lparr>subscribers := (if subs = [] then dict_del order_id (subscribers p)
                              else dict_set order_id subs (subscribers p))\<rparr>)"

definition publish :: "string \<Rightarrow> pyval \<Rightarrow> pubsub \<Rightarrow> pubsub" where
  "publish order_id event p =
     p\<lparr>pub_queues := fold (\<lambda>q qs. dict_set q (get_or [] qs q @ [event]) qs)
                       (get_or [] (subscribers p) order_id) (pub_queues p)\<rparr>"

subsection \<open>The application node\<close>

text \<open>The relay of one order publishes what the stream yields; it logs an exception and ends. \<^verbatim>\<open>create_order\<close>
  of the application inserts the row first and starts the relay only when that has worked.\<close>

definition relay :: "string \<Rightarrow> pyval list \<times> unit res \<Rightarrow> pubsub \<Rightarrow> pubsub" where
  "relay order_id stream p = fold (publish order_id) (fst stream) p"

definition post_order :: "'d exec \<Rightarrow> string \<Rightarrow> 'd \<Rightarrow> (pyval \<times> string) res \<times> 'd" where
  "post_order exec order_id d =
     and_then (create_order exec order_id d) (\<lambda>_ d. (Inr (PDict [(''id'', PStr order_id)], order_id), d))"

definition fetch_order :: "'d exec \<Rightarrow> string \<Rightarrow> 'd \<Rightarrow> pyval res \<times> 'd" where
  "fetch_order exec order_id d =
     and_then (get_order exec order_id d) (\<lambda>found d.
       case found of
         None \<Rightarrow> (Inl (Exn ''HTTPException'' ''404: order not found''), d)
       | Some o' \<Rightarrow> (Inr o', d))"

text \<open>
  The generator \<^verbatim>\<open>events\<close> of \<^verbatim>\<open>stream_order\<close>, from one suspension to the next, once \<open>stream_order\<close> has found the order: the subscription; the catch-up
  read, which ends the stream unless the order is in progress; and one event of the queue. The
  \<^verbatim>\<open>finally\<close> clause unsubscribes whenever the generator ends.
\<close>

datatype viewer = Connected | Subscribed nat | Watching nat | Closed

definition stream_order :: "'d exec \<Rightarrow> string \<Rightarrow> 'd \<Rightarrow> viewer res \<times> 'd" where
  "stream_order exec order_id d =
     and_then (get_order exec order_id d) (\<lambda>found d.
       case found of
         None \<Rightarrow> (Inl (Exn ''HTTPException'' ''404: order not found''), d)
       | Some _ \<Rightarrow> (Inr Connected, d))"

definition status_of :: "pyval \<Rightarrow> pyval res" where
  "status_of v = getitem v ''status''"

definition view_subscribe :: "string \<Rightarrow> pubsub \<Rightarrow> viewer \<times> pubsub" where
  "view_subscribe order_id p = (case subscribe order_id p of (q, p) \<Rightarrow> (Subscribed q, p))"

definition view_current :: "'d exec \<Rightarrow> string \<Rightarrow> nat \<Rightarrow> pubsub \<times> 'd \<Rightarrow> viewer \<times> pyval list \<times> pubsub \<times> 'd" where
  "view_current exec order_id q = (\<lambda>(p, d).
     case get_order exec order_id d of
       (Inr (Some current), d) \<Rightarrow>
         if status_of current = Inr (PStr ''en_progreso'') then (Watching q, [current], p, d)
         else (Closed, [current], unsubscribe order_id q p, d)
     | (Inr None, d) \<Rightarrow> (Closed, [PNone], unsubscribe order_id q p, d)
     | (Inl e, d) \<Rightarrow> (Closed, [], unsubscribe order_id q p, d))"

definition view_event :: "string \<Rightarrow> nat \<Rightarrow> pubsub \<Rightarrow> viewer \<times> pyval list \<times> pubsub" where
  "view_event order_id q p =
     (case get_or [] (pub_queues p) q of
        [] \<Rightarrow> (Watching q, [], p)
      | event # rest \<Rightarrow>
          let p = p\<lparr>pub_queues := dict_set q rest (pub_queues p)\<rparr>
          in if status_of event \<in> {Inr (PStr ''completado''), Inr (PStr ''error'')} \<or> isl (status_of event)
             then (Closed, [event], unsubscribe order_id q p)
             else (Watching q, [event], p))"

definition app_lifespan ::
  "codec_env \<Rightarrow> (json \<Rightarrow> nat) \<Rightarrow> string + 16 word \<Rightarrow> string \<Rightarrow> string \<Rightarrow> (nat \<Rightarrow> dial_events) \<Rightarrow> 'd exec \<Rightarrow> 'd
   \<Rightarrow> unit res \<times> sys \<times> 'd" where
  "app_lifespan env len bound node_name worker_node attempts exec d =
     (case db_connect exec d of
        (Inl e, d) \<Rightarrow> (Inl e, (new_node env node_name None, default_supervisor), d)
      | (Inr _, d) \<Rightarrow>
         (case and_then (bring_up len bound default_supervisor [] (new_node env node_name None))
                 (\<lambda>_ sy. on_node (\<lambda>n. connect_retry (''no se pudo conectar con worker en '' @ py_repr worker_node)
                            (map attempts [0..<30]) n worker_node) sy) of
            (r, sy) \<Rightarrow> (r, sy, d)))"

end
