(* ===== verification/Order_Stream_Laws.thy ===== *)
theory Order_Stream_Laws
  imports Order_Stream
begin

text \<open>
  What the worker of the order stream guarantees: whatever the database answers, the stream of an
  order ends with one final update, and the table and the stream agree on what was done.
\<close>

subsection \<open>Statements\<close>

lemma append_step_rows:
  assumes "lawful (exec :: 'd exec) rows" "rows d k = Some (s, steps)"
  shows "append_step exec k x d = (Inr (), d') \<Longrightarrow> rows d' = (rows d)(k \<mapsto> (s, steps @ [x]))"
    "append_step exec k x d = (Inl e, d') \<Longrightarrow> rows d' = rows d"
  using assms(1) [unfolded lawful_def, rule_format, of d "Append_steps k [x]"] assms(2)
  by (cases "exec (Append_steps k [x]) d"; cases "fst (exec (Append_steps k [x]) d)"; simp add: append_step_def; fail)+

lemma mark_status_rows:
  assumes "lawful (exec :: 'd exec) rows" "rows d k = Some (s, steps)"
  shows "mark_status exec k s' d = (Inr (), d') \<Longrightarrow> rows d' = (rows d)(k \<mapsto> (s', steps))"
    "mark_status exec k s' d = (Inl e, d') \<Longrightarrow> rows d' = rows d"
  using assms(1) [unfolded lawful_def, rule_format, of d "Set_status k s'"] assms(2)
  by (cases "exec (Set_status k s') d"; cases "fst (exec (Set_status k s') d)"; simp add: mark_status_def; fail)+

lemma get_order_rows:
  assumes "lawful (exec :: 'd exec) rows" "get_order exec k d = (Inr r, d')"
  shows "rows d' = rows d" "rows d k = None \<Longrightarrow> r = None"
    "rows d k = Some (s, steps) \<Longrightarrow> \<exists>c u. r = Some (row_dict k \<lparr>row_status = s, row_steps = steps, row_created_at = c, row_updated_at = u\<rparr>)"
proof -
  obtain x where x: "exec (Select_order k) d = (Inr x, d')" "r = map_option (row_dict k) x"
    using assms(2) by (cases "exec (Select_order k) d"; cases "fst (exec (Select_order k) d)") (auto simp: get_order_def)
  with assms(1) [unfolded lawful_def, rule_format, of d "Select_order k"]
  have v: "rows d' = rows d" "map_option row_view x = rows d k" by simp_all
  then show "rows d' = rows d" "rows d k = None \<Longrightarrow> r = None" using x(2) by auto
  show "rows d k = Some (s, steps) \<Longrightarrow>
      \<exists>c u. r = Some (row_dict k \<lparr>row_status = s, row_steps = steps, row_created_at = c, row_updated_at = u\<rparr>)"
    using v(2) x(2) by (auto simp: row_view_def) (metis row.surjective old.unit.exhaust)
qed

subsection \<open>The stream of an order\<close>

definition shown_steps :: "nat \<Rightarrow> pyval list" where
  "shown_steps i = map step_dict (take i STEPS)"

lemma length_STEPS [simp]: "length STEPS = 4"
  by (simp add: STEPS_def)

lemma shown_steps_Suc: "i < 4 \<Longrightarrow> shown_steps (Suc i) = shown_steps i @ [step_dict (STEPS ! i)]"
  by (simp add: shown_steps_def take_Suc_conv_app_nth)

text \<open>
  The worker's side of a stream: the request came from the mailbox \<open>name\<close> of the node \<open>a\<close>, every update
  can be sent back there, and the frames for that mailbox carry the values \<open>vs\<close>.
\<close>

definition streaming :: "codec_env \<Rightarrow> nodeid \<Rightarrow> string \<Rightarrow> meta \<Rightarrow> pyval list \<Rightarrow> node \<Rightarrow> bool" where
  "streaming env p name mt vs n \<longleftrightarrow> healthy n \<and> codec_of n = env \<and> m_reply_to mt = Some name
     \<and> (\<exists>a. m_src mt = Some a \<and> parse a = Inr p \<and> a \<noteq> local_id n
          \<and> (\<forall>final i. \<forall>st \<in> {''en_progreso'', ''completado'', ''error''}.
                can_send n a (stream_envelope final (update st (shown_steps i))) (m_correlation_id mt)))
     \<and> list_all2 (carries env) (frames_for p name (outbox n)) vs"

text \<open>What other code does while the worker sleeps may move other messages, but not these.\<close>

definition keeps_stream :: "codec_env \<Rightarrow> nodeid \<Rightarrow> string \<Rightarrow> meta \<Rightarrow> (node \<Rightarrow> node) \<Rightarrow> bool" where
  "keeps_stream env p name mt asleep \<longleftrightarrow> (\<forall>vs n. streaming env p name mt vs n \<longrightarrow> streaming env p name mt vs (asleep n))"

lemma untuple_update: "untuple (stream_envelope final (update st (shown_steps i))) = stream_envelope final (update st (shown_steps i))"
proof -
  have "untuple_list (map step_dict xs) = map step_dict xs" for xs by (induction xs) (simp_all add: step_dict_def)
  then show ?thesis by (simp add: stream_envelope_def update_def shown_steps_def)
qed

lemma stream_reply:
  assumes "streaming env p name mt vs n" "st \<in> {''en_progreso'', ''completado'', ''error''}"
  obtains n' where "send_stream n mt (update st (shown_steps i)) final = (Inr (), n')"
    "streaming env p name mt (vs @ [stream_envelope final (update st (shown_steps i))]) n'"
proof -
  let ?v = "stream_envelope final (update st (shown_steps i))"
  from assms obtain a where a: "m_src mt = Some a" "parse a = Inr p" "a \<noteq> local_id n" "m_reply_to mt = Some name" "healthy n"
    "codec_of n = env" and can: "\<forall>final i. \<forall>st \<in> {''en_progreso'', ''completado'', ''error''}.
      can_send n a (stream_envelope final (update st (shown_steps i))) (m_correlation_id mt)"
    and vs: "list_all2 (carries env) (frames_for p name (outbox n)) vs" by (auto simp: streaming_def)
  have "can_send n a ?v (m_correlation_id mt)" using can assms(2) by blast
  then obtain n' j k where n': "send_remote n a name ?v None (m_correlation_id mt) = (Inr (), n')" "same_node n n'" "healthy n'"
    "outbox n' = outbox n @ [Data_frame p name j k None (m_correlation_id mt)]"
    "decode_payload (codec_of n) (json_to_py j) = Inr (untuple ?v)"
    by (rule remote_send [OF a(5) _ a(2)])
  have s: "send_stream n mt (update st (shown_steps i)) final = (Inr (), n')"
    using a n'(1) by (simp add: send_stream_def reply_with_def)
  have f: "list_all2 (carries env) (frames_for p name (outbox n')) (vs @ [?v])"
    using vs n'(4,5) a(6) by (simp add: frames_for_def list_all2_appendI untuple_update)
  have k: "can_send n' a' = can_send n a'" for a' by (intro ext same_node_can_send [OF n'(2)])
  show thesis
    by (rule that [OF s]) (use a can n'(3) f same_node_fields(2) [OF n'(2)] same_node_local_id [OF n'(2)] in
        \<open>simp add: streaming_def k\<close>)
qed

text \<open>Reading a stream depends on the values only, not on the metadata.\<close>

lemma read_stream_values:
  "map fst ms = map (stream_envelope False) vs @ [stream_envelope True v] \<Longrightarrow> read_stream ms = (vs @ [v], Inr (), [])"
proof (induction vs arbitrary: ms)
  case Nil
  then obtain mt where "ms = [(stream_envelope True v, mt)]" by (cases ms) auto
  then show ?case by (simp add: stream_item_envelope)
next
  case (Cons w vs)
  then obtain mt ms' where "ms = (stream_envelope False w, mt) # ms'" "map fst ms' = map (stream_envelope False) vs @ [stream_envelope True v]"
    by (cases ms) auto
  with Cons.IH [of ms'] show ?case by (simp add: stream_item_envelope)
qed

lemma order_finishes:
  assumes "streaming env p name mt vs n" "st \<in> {''completado'', ''error''}"
  obtains n' where "reply_final n mt (update st (shown_steps i)) = (Inr (), n')"
    "streaming env p name mt (vs @ [stream_envelope True (update st (shown_steps i))]) n'"
  by (rule stream_reply [OF assms(1), of st i True]) (use assms(2) in \<open>auto simp: reply_final_def\<close>)

subsection \<open>The worker, await by await\<close>

text \<open>Where \<^verbatim>\<open>process_order\<close> stands: at the call of \<^verbatim>\<open>append_step\<close>, of \<^verbatim>\<open>reply_stream\<close>, of \<^verbatim>\<open>mark_status\<close> or of
  \<^verbatim>\<open>reply_final\<close>; in the handler with the number of steps that \<open>steps\<close> lists.\<close>

datatype worker_phase = Taking nat | Reporting nat | Completing | Finishing | Failing nat | Failed nat | Ended

fun order_step :: "'d exec \<Rightarrow> string \<Rightarrow> worker_phase \<Rightarrow> 'd \<Rightarrow> worker_phase \<times> pyval list \<times> 'd" where
  "order_step exec k (Taking i) d =
     (case append_step exec k (step_dict (STEPS ! i)) d of
        (Inl e, d) \<Rightarrow> (Failing (Suc i), [], d) | (Inr _, d) \<Rightarrow> (Reporting (Suc i), [], d))"
| "order_step exec k (Reporting i) d =
     (if i < length STEPS then Taking i else Completing, [update ''en_progreso'' (shown_steps i)], d)"
| "order_step exec k Completing d =
     (case mark_status exec k ''completado'' d of
        (Inl e, d) \<Rightarrow> (Failing (length STEPS), [], d) | (Inr _, d) \<Rightarrow> (Finishing, [], d))"
| "order_step exec k Finishing d = (Ended, [update ''completado'' (shown_steps (length STEPS))], d)"
| "order_step exec k (Failing i) d = (Failed i, [], snd (mark_status exec k ''error'' d))"
| "order_step exec k (Failed i) d = (Ended, [update ''error'' (shown_steps i)], d)"
| "order_step exec k Ended d = (Ended, [], d)"

fun phase_rank :: "worker_phase \<Rightarrow> nat" where
  "phase_rank (Taking i) = 4 + 2 * (4 - i)"
| "phase_rank (Reporting i) = 4 + 2 * (4 - i) + 1"
| "phase_rank Completing = 4"
| "phase_rank Finishing = 1"
| "phase_rank (Failing i) = 2"
| "phase_rank (Failed i) = 1"
| "phase_rank Ended = 0"

fun worker_phase_ok :: "worker_phase \<Rightarrow> bool" where
  "worker_phase_ok (Taking i) \<longleftrightarrow> i < 4"
| "worker_phase_ok (Reporting i) \<longleftrightarrow> 0 < i \<and> i \<le> 4"
| "worker_phase_ok ph \<longleftrightarrow> True"

lemma order_step_rank:
  assumes "worker_phase_ok ph" "ph \<noteq> Ended" "order_step exec k ph d = (ph', us, d')"
  shows "phase_rank ph' < phase_rank ph" "worker_phase_ok ph'" "length us \<le> 1"
  using assms by (cases ph; auto split: prod.splits sum.splits if_splits)+

text \<open>A whole run of the worker without anything in between.\<close>

function run_worker :: "'d exec \<Rightarrow> string \<Rightarrow> worker_phase \<Rightarrow> 'd \<Rightarrow> pyval list \<times> 'd" where
  "run_worker exec k ph d =
     (if ph = Ended \<or> \<not> worker_phase_ok ph then ([], d)
      else case order_step exec k ph d of (ph', us, d') \<Rightarrow>
        (case run_worker exec k ph' d' of (vs, d'') \<Rightarrow> (us @ vs, d'')))"
  by pat_completeness auto
termination
  by (relation "measure (\<lambda>(_, _, ph, _). phase_rank ph)") (auto intro: order_step_rank(1) [OF _ _ sym])

declare run_worker.simps [simp del]

text \<open>The run is what \<^verbatim>\<open>process_order\<close> does, given that its replies are accepted: the same updates in the same
  order and the same database. The lemma follows the function from the top of the loop at step \<open>i\<close>.\<close>

lemma run_order_step:
  "worker_phase_ok ph \<Longrightarrow> ph \<noteq> Ended \<Longrightarrow> run_worker exec k ph d =
     (case order_step exec k ph d of (ph', us, d') \<Rightarrow> (case run_worker exec k ph' d' of (vs, d'') \<Rightarrow> (us @ vs, d'')))"
  by (subst run_worker.simps) simp

lemma run_ended [simp]: "run_worker exec k Ended d = ([], d)"
  by (simp add: run_worker.simps)

fun enveloped :: "pyval list \<Rightarrow> pyval list" where
  "enveloped [] = []"
| "enveloped [v] = [stream_envelope True v]"
| "enveloped (v # vs) = stream_envelope False v # enveloped vs"

lemma enveloped_Cons: "vs \<noteq> [] \<Longrightarrow> enveloped (v # vs) = stream_envelope False v # enveloped vs"
  by (cases vs) simp_all

lemma enveloped_snoc: "enveloped (vs @ [v]) = map (stream_envelope False) vs @ [stream_envelope True v]"
  by (induction vs) (simp_all add: enveloped_Cons)

lemma run_failing:
  assumes "streaming env p name mt ws n"
  obtains n' where "fail_order exec mt k (shown_steps i) (n, d) = (Inr (), n', snd (run_worker exec k (Failing i) d))"
    "streaming env p name mt (ws @ enveloped (fst (run_worker exec k (Failing i) d))) n'" "fst (run_worker exec k (Failing i) d) \<noteq> []"
proof -
  obtain n' where n': "reply_final n mt (update ''error'' (shown_steps i)) = (Inr (), n')"
    "streaming env p name mt (ws @ [stream_envelope True (update ''error'' (shown_steps i))]) n'"
    by (rule order_finishes [OF assms, of "''error''" i]) simp_all
  have run: "run_worker exec k (Failing i) d = ([update ''error'' (shown_steps i)], snd (mark_status exec k ''error'' d))"
    by (simp add: run_order_step)
  show thesis
    by (rule that [of n']) (use n' in \<open>simp_all add: run fail_order_def split: prod.split\<close>)
qed

lemma run_completing:
  assumes "streaming env p name mt ws n"
  obtains r n1 d1 n' where "complete_order exec mt k (shown_steps 4) (n, d) = (r, n1, d1)"
    "(case r of Inl e \<Rightarrow> fail_order exec mt k (shown_steps 4) (n1, d1) | Inr _ \<Rightarrow> (Inr (), n1, d1))
       = (Inr (), n', snd (run_worker exec k Completing d))"
    "streaming env p name mt (ws @ enveloped (fst (run_worker exec k Completing d))) n'" "fst (run_worker exec k Completing d) \<noteq> []"
proof -
  obtain r d1 where m: "mark_status exec k ''completado'' d = (r, d1)" by fastforce
  show thesis
  proof (cases r)
    case (Inl e)
    have run: "run_worker exec k Completing d = run_worker exec k (Failing 4) d1" by (simp add: run_order_step [of Completing] m Inl)
    show thesis
      by (rule run_failing [OF assms, of exec k 4 d1], rule that [of "Inl e" n d1])
        (simp_all add: run complete_order_def m Inl)
  next
    case (Inr u)
    obtain n' where n': "reply_final n mt (update ''completado'' (shown_steps 4)) = (Inr (), n')"
      "streaming env p name mt (ws @ [stream_envelope True (update ''completado'' (shown_steps 4))]) n'"
      by (rule order_finishes [OF assms, of "''completado''" 4]) simp_all
    have run: "run_worker exec k Completing d = ([update ''completado'' (shown_steps 4)], d1)"
      by (simp add: run_order_step m Inr)
    show thesis by (rule that [of "Inr ()" n' d1 n']) (use n' in \<open>simp_all add: run complete_order_def m Inr\<close>)
  qed
qed

text \<open>What follows the loop, given what the loop has returned.\<close>

definition after_loop :: "'d exec \<Rightarrow> meta \<Rightarrow> string \<Rightarrow> pyval list \<times> unit res \<times> node \<times> 'd \<Rightarrow> unit res \<times> node \<times> 'd" where
  "after_loop exec mt k t = (case t of
      (steps, Inl e, st) \<Rightarrow> fail_order exec mt k steps st
    | (steps, Inr _, st) \<Rightarrow> (case complete_order exec mt k steps st of
          (Inl e, st) \<Rightarrow> fail_order exec mt k steps st
        | (Inr _, st) \<Rightarrow> (Inr (), st)))"

lemma run_taking:
  assumes "keeps_stream env p name mt asleep"
    and "i < 4" "streaming env p name mt ws n"
  shows "\<exists>n'. after_loop exec mt k (take_steps asleep exec mt k (drop i STEPS) (shown_steps i) (n, d))
      = (Inr (), n', snd (run_worker exec k (Taking i) d))
    \<and> streaming env p name mt (ws @ enveloped (fst (run_worker exec k (Taking i) d))) n' \<and> fst (run_worker exec k (Taking i) d) \<noteq> []"
  using assms(2,3)
proof (induction "4 - i" arbitrary: i ws n d)
  case (Suc m)
  have drop: "drop i STEPS = STEPS ! i # drop (Suc i) STEPS" using Suc.prems(1) by (simp add: Cons_nth_drop_Suc)
  have n1: "streaming env p name mt ws (asleep n)" using assms(1) Suc.prems(2) by (simp add: keeps_stream_def)
  obtain r d1 where a: "append_step exec k (step_dict (STEPS ! i)) d = (r, d1)" by fastforce
  show ?case
  proof (cases r)
    case (Inl e)
    have run: "run_worker exec k (Taking i) d = run_worker exec k (Failing (Suc i)) d1"
      using Suc.prems(1) by (simp add: run_order_step [of "Taking i"] a Inl)
    obtain n' where f: "fail_order exec mt k (shown_steps (Suc i)) (asleep n, d1) = (Inr (), n', snd (run_worker exec k (Failing (Suc i)) d1))"
      "streaming env p name mt (ws @ enveloped (fst (run_worker exec k (Failing (Suc i)) d1))) n'"
      "fst (run_worker exec k (Failing (Suc i)) d1) \<noteq> []" by (rule run_failing [OF n1])
    have "take_steps asleep exec mt k (drop i STEPS) (shown_steps i) (n, d) = (shown_steps (Suc i), Inl e, asleep n, d1)"
      by (simp add: drop a Inl Let_def shown_steps_Suc [OF Suc.prems(1)])
    then show ?thesis using f by (intro exI [of _ n']) (simp add: run after_loop_def)
  next
    case (Inr u)
    let ?u = "update ''en_progreso'' (shown_steps (Suc i))"
    obtain n2 where n2: "send_stream (asleep n) mt ?u False = (Inr (), n2)"
      "streaming env p name mt (ws @ [stream_envelope False ?u]) n2"
      by (rule stream_reply [OF n1, of "''en_progreso''" "Suc i" False]) simp_all
    define ph where "ph = (if Suc i < 4 then Taking (Suc i) else Completing)"
    have run: "run_worker exec k (Taking i) d = (case run_worker exec k ph d1 of (vs, d2) \<Rightarrow> (?u # vs, d2))"
      using Suc.prems(1) by (simp add: run_order_step [of "Taking i"] run_order_step [of "Reporting (Suc i)"] a Inr ph_def
          split: prod.split)
    have loop: "take_steps asleep exec mt k (drop i STEPS) (shown_steps i) (n, d)
        = take_steps asleep exec mt k (drop (Suc i) STEPS) (shown_steps (Suc i)) (n2, d1)"
      using n2(1) by (simp add: drop a Inr Let_def reply_stream_def shown_steps_Suc [OF Suc.prems(1)])
    have "\<exists>n'. after_loop exec mt k (take_steps asleep exec mt k (drop (Suc i) STEPS) (shown_steps (Suc i)) (n2, d1))
        = (Inr (), n', snd (run_worker exec k ph d1))
      \<and> streaming env p name mt ((ws @ [stream_envelope False ?u]) @ enveloped (fst (run_worker exec k ph d1))) n'
      \<and> fst (run_worker exec k ph d1) \<noteq> []"
    proof (cases "Suc i < 4")
      case True
      then show ?thesis using Suc.hyps(1) [OF _ True n2(2), of d1] Suc.hyps(2) by (simp add: ph_def)
    next
      case False
      then have four: "Suc i = 4" "drop (Suc i) STEPS = []" using Suc.prems(1) by simp_all
      obtain r n3 d3 n' where c: "complete_order exec mt k (shown_steps 4) (n2, d1) = (r, n3, d3)"
        "(case r of Inl e \<Rightarrow> fail_order exec mt k (shown_steps 4) (n3, d3) | Inr _ \<Rightarrow> (Inr (), n3, d3))
           = (Inr (), n', snd (run_worker exec k Completing d1))"
        "streaming env p name mt ((ws @ [stream_envelope False ?u]) @ enveloped (fst (run_worker exec k Completing d1))) n'"
        "fst (run_worker exec k Completing d1) \<noteq> []" by (rule run_completing [OF n2(2)])
      have "after_loop exec mt k (take_steps asleep exec mt k (drop (Suc i) STEPS) (shown_steps (Suc i)) (n2, d1))
          = (Inr (), n', snd (run_worker exec k Completing d1))"
        using c(1,2) unfolding four(2) by (cases r) (simp_all add: four(1) after_loop_def)
      moreover have "ph = Completing" using False by (simp add: ph_def)
      ultimately show ?thesis using c(3,4) by blast
    qed
    then obtain n' where "after_loop exec mt k (take_steps asleep exec mt k (drop (Suc i) STEPS) (shown_steps (Suc i)) (n2, d1))
        = (Inr (), n', snd (run_worker exec k ph d1))"
      "streaming env p name mt ((ws @ [stream_envelope False ?u]) @ enveloped (fst (run_worker exec k ph d1))) n'"
      "fst (run_worker exec k ph d1) \<noteq> []" by blast
    then show ?thesis unfolding loop run by (intro exI [of _ n']) (simp add: enveloped_Cons case_prod_unfold)
  qed
qed simp

subsection \<open>The worker and the table\<close>

text \<open>In every phase: the updates that have been sent, and the row.\<close>

definition updates :: "nat \<Rightarrow> pyval list" where
  "updates i = map (\<lambda>i. update ''en_progreso'' (shown_steps i)) [1..<Suc i]"

lemma updates_Suc: "updates (Suc i) = updates i @ [update ''en_progreso'' (shown_steps (Suc i))]"
  by (simp add: updates_def)

lemma length_updates [simp]: "length (updates i) = i"
  by (simp add: updates_def)

fun phase_inv :: "worker_phase \<Rightarrow> pyval list \<Rightarrow> (string \<times> pyval list) option \<Rightarrow> bool" where
  "phase_inv (Taking i) us r \<longleftrightarrow> i < 4 \<and> us = updates i \<and> r = Some (''en_progreso'', shown_steps i)"
| "phase_inv (Reporting i) us r \<longleftrightarrow> 0 < i \<and> i \<le> 4 \<and> us = updates (i - 1) \<and> r = Some (''en_progreso'', shown_steps i)"
| "phase_inv Completing us r \<longleftrightarrow> us = updates 4 \<and> r = Some (''en_progreso'', shown_steps 4)"
| "phase_inv Finishing us r \<longleftrightarrow> us = updates 4 \<and> r = Some (''completado'', shown_steps 4)"
| "phase_inv (Failing i) us r \<longleftrightarrow> (\<exists>j \<le> 4. i = min 4 (Suc j) \<and> us = updates j \<and> r = Some (''en_progreso'', shown_steps j))"
| "phase_inv (Failed i) us r \<longleftrightarrow> (\<exists>j \<le> 4. i = min 4 (Suc j) \<and> us = updates j
     \<and> (\<exists>s \<in> {''error'', ''en_progreso''}. r = Some (s, shown_steps j)))"
| "phase_inv Ended us r \<longleftrightarrow> (\<exists>j \<le> 4. \<exists>st s. us = updates j @ [update st (shown_steps (min 4 (Suc j)))] \<and> r = Some (s, shown_steps j)
     \<and> (st = ''completado'' \<and> s = ''completado'' \<and> j = 4 \<or> st = ''error'' \<and> s \<in> {''error'', ''en_progreso''}))"

lemma phase_inv_step:
  assumes "lawful (exec :: 'd exec) rows" "phase_inv ph us (rows d k)" "order_step exec k ph d = (ph', vs, d')"
  shows "ph = Ended \<or> phase_inv ph' (us @ vs) (rows d' k)"
proof (cases ph)
  case (Taking i)
  then have i: "i < 4" "us = updates i" and row: "rows d k = Some (''en_progreso'', shown_steps i)" using assms(2) by simp_all
  obtain r d1 where a: "append_step exec k (step_dict (STEPS ! i)) d = (r, d1)" by fastforce
  show ?thesis
  proof (cases r)
    case (Inl e)
    then show ?thesis using append_step_rows(2) [OF assms(1) row, of _ e d1] a assms(3) Taking i row by (auto intro!: exI [of _ i])
  next
    case (Inr u)
    then show ?thesis using append_step_rows(1) [OF assms(1) row, of _ d1] a assms(3) Taking i shown_steps_Suc [OF i(1)] by auto
  qed
next
  case (Reporting i)
  with assms(2,3) show ?thesis by (cases i) (auto simp: updates_Suc updates_Suc [of 3, simplified] split: if_splits)
next
  case Completing
  then have row: "us = updates 4" "rows d k = Some (''en_progreso'', shown_steps 4)" using assms(2) by simp_all
  obtain r d1 where a: "mark_status exec k ''completado'' d = (r, d1)" by fastforce
  show ?thesis by (cases r; use mark_status_rows [OF assms(1) row(2)] a assms(3) Completing row in
      \<open>auto intro!: exI [of _ 4]\<close>)
next
  case (Failing i)
  then obtain j where j: "j \<le> 4" "i = min 4 (Suc j)" "us = updates j" "rows d k = Some (''en_progreso'', shown_steps j)"
    using assms(2) by auto
  obtain r d1 where a: "mark_status exec k ''error'' d = (r, d1)" by fastforce
  show ?thesis by (cases r; use mark_status_rows [OF assms(1) j(4)] a assms(3) Failing j in auto)
qed (use assms(2,3) in auto)

lemma phase_inv_ok: "phase_inv ph us r \<Longrightarrow> worker_phase_ok ph"
  by (cases ph) auto

lemma run_worker_inv:
  assumes "lawful (exec :: 'd exec) rows" "phase_inv ph us (rows d k)" "run_worker exec k ph d = (vs, d')"
  shows "phase_inv Ended (us @ vs) (rows d' k)"
  using assms
proof (induction exec k ph d arbitrary: us vs rule: run_worker.induct)
  case (1 exec k ph d)
  show ?case
  proof (cases "ph = Ended")
    case False
    have ok: "worker_phase_ok ph" by (rule phase_inv_ok [OF 1(3)])
    obtain ph' vs1 d1 where st: "order_step exec k ph d = (ph', vs1, d1)" by (metis prod_cases3)
    obtain vs2 where run: "run_worker exec k ph' d1 = (vs2, d')" "vs = vs1 @ vs2"
      using 1(4) run_order_step [OF ok False, of exec k d] by (auto simp: st split: prod.splits)
    have "phase_inv ph' (us @ vs1) (rows d1 k)" using phase_inv_step [OF 1(2,3) st] False by simp
    from 1(1) [OF _ st [symmetric] refl 1(2) this run(1)] False ok have "phase_inv Ended ((us @ vs1) @ vs2) (rows d' k)" by blast
    then show ?thesis by (simp only: run(2) append_assoc)
  qed (use 1(3,4) in simp)
qed

subsection \<open>The whole order\<close>

lemma process_order_after_loop:
  "str_item msg ''order_id'' = Inr k \<Longrightarrow>
   process_order asleep exec mt msg st = after_loop exec mt k (take_steps asleep exec mt k STEPS [] st)"
  by (simp add: process_order_def after_loop_def)

text \<open>The await-by-await worker is \<^verbatim>\<open>process_order\<close>: when the replies are accepted, the function returns
  without an exception, leaves the database as a run of the phases does, and has sent exactly the
  updates of that run, all but the last as items of the stream and the last as its end.\<close>

lemma process_order_runs:
  assumes "keeps_stream env p name mt asleep"
    and "streaming env p name mt [] n" and "str_item msg ''order_id'' = Inr k"
  shows "\<exists>n'. process_order asleep exec mt msg (n, d) = (Inr (), n', snd (run_worker exec k (Taking 0) d))
    \<and> streaming env p name mt (enveloped (fst (run_worker exec k (Taking 0) d))) n'"
  using run_taking [OF assms(1) _ assms(2), where i = 0 and exec = exec and k = k and d = d]
  by (auto simp: process_order_after_loop [OF assms(3)] shown_steps_def)

text \<open>C9. Whatever the database answers, the stream of an order ends. The function returns, the
  application reads the updates of the steps in order and then exactly one final update, and
  nothing is left over. The final update says completed exactly when the row does, which then has
  all four steps; otherwise it says error, the row has the first \<open>i\<close> steps and is marked as an error
  or, when that could not be written either, still in progress, and the final update names one step
  more than the row has when a step could not be stored.\<close>

theorem order_stream_ends:
  assumes "lawful (exec :: 'd exec) rows" and "keeps_stream env p name mt asleep"
    and "streaming env p name mt [] n" and "rows d k = Some (''en_progreso'', [])" and "str_item msg ''order_id'' = Inr k"
    and "healthy app" and "codec_of app = env" and "name \<in> dom (map_of (mailboxes app))" and "mail app name = []"
  shows "\<exists>n' d' i st s. process_order asleep exec mt msg (n, d) = (Inr (), n', d')
    \<and> read_stream (mail (fold (arrive_frame (local_id n') p from_peer) (frames_for p name (outbox n')) app) name)
        = (updates i @ [update st (shown_steps (min 4 (Suc i)))], Inr (), [])
    \<and> i \<le> 4 \<and> rows d' k = Some (s, shown_steps i)
    \<and> (st = ''completado'' \<and> s = ''completado'' \<and> i = 4 \<or> st = ''error'' \<and> s \<in> {''error'', ''en_progreso''})"
proof -
  obtain vs d' where run: "run_worker exec k (Taking 0) d = (vs, d')" by fastforce
  obtain n' where n': "process_order asleep exec mt msg (n, d) = (Inr (), n', d')" "streaming env p name mt (enveloped vs) n'"
    using process_order_runs [OF assms(2,3,5), where exec = exec and d = d] run by auto
  have "phase_inv (Taking 0) [] (rows d k)" using assms(4) by (simp add: updates_def shown_steps_def)
  from run_worker_inv [OF assms(1) this run] obtain i st s where o: "i \<le> 4"
    "vs = updates i @ [update st (shown_steps (min 4 (Suc i)))]" "rows d' k = Some (s, shown_steps i)"
    "st = ''completado'' \<and> s = ''completado'' \<and> i = 4 \<or> st = ''error'' \<and> s \<in> {''error'', ''en_progreso''}" by auto
  let ?app = "fold (arrive_frame (local_id n') p from_peer) (frames_for p name (outbox n')) app"
  have "map fst (mail ?app name) = map fst (mail app name) @ enveloped vs"
    using n'(2) by (intro frames_arrive [OF assms(6,8) _ _ assms(7)]) (simp_all add: streaming_def frames_for_def)
  then have "read_stream (mail ?app name) = (vs, Inr (), [])"
    unfolding o(2) by (intro read_stream_values) (simp add: assms(9) enveloped_snoc)
  with n'(1) o show ?thesis by blast
qed

text \<open>A database that answers every statement, and the two nodes.\<close>

definition demo_db :: "table exec" where
  "demo_db st t =
     (case st of
        Select_order k \<Rightarrow> (Inr (map_option (\<lambda>(s, xs). \<lparr>row_status = s, row_steps = xs, row_created_at = [], row_updated_at = []\<rparr>) (t k)), t)
      | Insert_order k \<Rightarrow> if t k = None then (Inr None, sql_effect st t) else (Inl (Exn ''UniqueViolationError'' []), t)
      | _ \<Rightarrow> (Inr None, sql_effect st t))"

lemma lawful_demo: "lawful demo_db (\<lambda>t. t)"
  by (auto simp: lawful_def demo_db_def row_view_def option.map_comp comp_def case_prod_unfold option.map_ident
      split: statement.splits)

definition demo_meta :: meta where
  "demo_meta = \<lparr>m_src = Some ''api@h:1'', m_reply_to = Some ''r'', m_correlation_id = Some 7, m_msg_id = Some 0\<rparr>"

lemma demo_streaming: "\<exists>n. streaming sample_env (demo_id ''api'' 1) ''r'' demo_meta [] n"
proof -
  obtain n where n: "fresh sample_env (\<lambda>_. 10) (demo_id ''ful'' 2) {} n" by (rule demo_up [OF demo_ids(2), of "[]"]) simp_all
  note j = joined_fresh [OF n, of "[demo_id ''api'' 1]"]
  have len: "\<forall>j :: json. (10 :: nat) \<le> MAX_FRAME_SIZE" by (simp add: MAX_FRAME_SIZE_def)
  have steps: "portable_list sample_env (map step_dict xs)" for xs
    by (induction xs) (simp_all add: step_dict_def sample_env_def plain_builtin_def RESERVED_def)
  have "portable sample_env (stream_envelope final (update st (shown_steps i)))" for final st i
    using steps [of "take i STEPS"] by (simp add: stream_envelope_def update_def shown_steps_def STREAM_KEY_def)
      (simp add: sample_env_def plain_builtin_def RESERVED_def)
  moreover have "u64_arg (Some 7) = Inr ()" by (simp add: u64_arg_def)
  ultimately have can: "can_send (joined [demo_id ''api'' 1] n) ''api@h:1'' (stream_envelope final (update st (shown_steps i))) (Some 7)"
    for final st i by (intro joined_can_send [OF n demo_ids(1) _ _ len]) simp_all
  have "to_full (demo_id ''ful'' 2) \<noteq> ''api@h:1''" by (simp add: to_full_def address_def demo_id_def)
  with j can have "streaming sample_env (demo_id ''api'' 1) ''r'' demo_meta [] (joined [demo_id ''api'' 1] n)"
    by (simp add: streaming_def demo_meta_def demo_ids frames_for_def)
  then show ?thesis by blast
qed

theorem order_stream_ends_witness:
  "\<exists>n' (d' :: table) app' vs v. read_stream (mail app' ''r'') = (vs @ [v], Inr (), []) \<and> d' ''o1'' \<noteq> None
     \<and> status_of v \<in> {Inr (PStr ''completado''), Inr (PStr ''error'')}
     \<and> (\<exists>n d. process_order (\<lambda>n. n) demo_db demo_meta (PDict [(''order_id'', PStr ''o1'')]) (n, d) = (Inr (), n', d'))"
proof -
  obtain n where n: "streaming sample_env (demo_id ''api'' 1) ''r'' demo_meta [] n" using demo_streaming by blast
  obtain app where app: "fresh sample_env (\<lambda>_. 10) (demo_id ''api'' 1) {''r''} app"
    by (rule demo_up [OF demo_ids(1), of "[''r'']"]) simp_all
  note j = joined_fresh [OF app, of "[]"]
  have msg: "str_item (PDict [(''order_id'', PStr ''o1'')]) ''order_id'' = Inr ''o1''" by (simp add: str_item_def)
  have row: "[''o1'' \<mapsto> (''en_progreso'', [])] ''o1'' = Some (''en_progreso'', [])" by simp
  have idle: "keeps_stream sample_env (demo_id ''api'' 1) ''r'' demo_meta (\<lambda>n. n)" by (simp add: keeps_stream_def)
  have dom: "''r'' \<in> dom (map_of (mailboxes (joined [] app)))" using j(2) by simp
  obtain n' d' i st s where o: "process_order (\<lambda>n. n) demo_db demo_meta (PDict [(''order_id'', PStr ''o1'')])
        (n, [''o1'' \<mapsto> (''en_progreso'', [])]) = (Inr (), n', d')"
      "read_stream (mail (fold (arrive_frame (local_id n') (demo_id ''api'' 1) (demo_id ''ful'' 2))
          (frames_for (demo_id ''api'' 1) ''r'' (outbox n')) (joined [] app)) ''r'')
        = (updates i @ [update st (shown_steps (min 4 (Suc i)))], Inr (), [])"
      "i \<le> 4" "d' ''o1'' = Some (s, shown_steps i)"
      "st = ''completado'' \<and> s = ''completado'' \<and> i = 4 \<or> st = ''error'' \<and> s \<in> {''error'', ''en_progreso''}"
    by atomize_elim (rule order_stream_ends [where exec = demo_db and rows = "\<lambda>t. t" and d = "[''o1'' \<mapsto> (''en_progreso'', [])]",
        OF lawful_demo idle n row msg j(1,4) dom j(3)])
  have "status_of (update st (shown_steps (min 4 (Suc i)))) \<in> {Inr (PStr ''completado''), Inr (PStr ''error'')}"
    using o(5) by (elim disjE conjE) (simp_all add: status_of_def update_def)
  moreover have "d' ''o1'' \<noteq> None" using o(4) by simp
  ultimately show ?thesis using o(1) by (intro exI conjI) (rule o(2))
qed

end
