(* ===== verification/Order_Viewers.thy ===== *)
theory Order_Viewers
  imports Order_Stream_Laws
begin

text \<open>
  The life of one order with a viewer that connects at any time: the worker between two of its
  awaits, the updates on their way to the application, the relay, the publisher with its other
  users, and the generator of the viewer. The steps may interleave in any order.
\<close>

subsection \<open>The publisher\<close>

abbreviation subs :: "pubsub \<Rightarrow> string \<Rightarrow> nat list" where
  "subs p \<equiv> get_or [] (subscribers p)"

abbreviation pqueue :: "pubsub \<Rightarrow> nat \<Rightarrow> pyval list" where
  "pqueue p \<equiv> get_or [] (pub_queues p)"

definition pub_wf :: "pubsub \<Rightarrow> bool" where
  "pub_wf p \<longleftrightarrow> (\<forall>k. distinct (subs p k)) \<and> (\<forall>k. \<forall>q \<in> set (subs p k). q < next_queue p)
     \<and> (\<forall>k k' q. q \<in> set (subs p k) \<and> q \<in> set (subs p k') \<longrightarrow> k = k')"

lemma subscribe_effect:
  assumes "subscribe k p = (q, p')"
  shows "q = next_queue p" "next_queue p' = Suc q" "subs p' k' = (if k' = k then set_add q (subs p k) else subs p k')"
    "pqueue p' q' = (if q' = q then [] else pqueue p q')"
  using assms by (auto simp: subscribe_def bucket_add_def)

lemma unsubscribe_effect [simp]:
  "next_queue (unsubscribe k q p) = next_queue p" "pub_queues (unsubscribe k q p) = pub_queues p"
  "subs (unsubscribe k q p) k' = (if k' = k then set_discard q (subs p k) else subs p k')"
  by (auto simp: unsubscribe_def Let_def get_or_def split: option.splits)

text \<open>When the last subscriber leaves, nothing of the order is kept.\<close>

lemma unsubscribe_last: "set_discard q (subs p k) = [] \<Longrightarrow> map_of (subscribers p) k \<noteq> None \<Longrightarrow>
    map_of (subscribers (unsubscribe k q p)) k = None"
  by (auto simp: unsubscribe_def Let_def get_or_def)

lemma publish_queues:
  "distinct qs \<Longrightarrow> get_or [] (fold (\<lambda>q d. dict_set q (get_or [] d q @ [e]) d) qs d) q
     = (if q \<in> set qs then get_or [] d q @ [e] else get_or [] d q)"
  by (induction qs arbitrary: d) auto

lemma publish_effect:
  assumes "pub_wf p"
  shows "subs (publish k e p) = subs p" "next_queue (publish k e p) = next_queue p"
    "pqueue (publish k e p) q = (if q \<in> set (subs p k) then pqueue p q @ [e] else pqueue p q)"
  using assms by (simp_all add: publish_def publish_queues pub_wf_def)

lemma pub_wfD:
  assumes "pub_wf p"
  shows "distinct (subs p k)" "q \<in> set (subs p k) \<Longrightarrow> q < next_queue p" "q \<in> set (subs p k) \<Longrightarrow> q \<in> set (subs p k') \<Longrightarrow> k = k'"
  using assms unfolding pub_wf_def by blast+

lemma pub_wfI:
  assumes "\<And>k. distinct (subs p k)" "\<And>k q. q \<in> set (subs p k) \<Longrightarrow> q < next_queue p"
    "\<And>k k' q. q \<in> set (subs p k) \<Longrightarrow> q \<in> set (subs p k') \<Longrightarrow> k = k'"
  shows "pub_wf p"
  unfolding pub_wf_def using assms by blast

lemma pub_wf_subscribe:
  assumes "pub_wf p" "subscribe k p = (q, p')"
  shows "pub_wf p'"
proof (rule pub_wfI)
  note e = subscribe_effect [OF assms(2)] and w = pub_wfD [OF assms(1)]
  show "distinct (subs p' k1)" for k1 using w(1) by (simp add: e(3))
  show "q1 < next_queue p'" if "q1 \<in> set (subs p' k1)" for k1 q1
    using that w(2) [of q1] e(1,2) by (auto simp: e(3) split: if_splits intro: less_SucI)
  show "k1 = k2" if "q1 \<in> set (subs p' k1)" "q1 \<in> set (subs p' k2)" for k1 k2 q1
    using that w(2) [of q1 k1] w(2) [of q1 k2] w(3) [of q1 k1 k2] e(1) by (simp add: e(3) split: if_splits)
qed

lemma pub_wf_unsubscribe: "pub_wf p \<Longrightarrow> pub_wf (unsubscribe k q p)"
proof (rule pub_wfI)
  assume wf: "pub_wf p"
  note w = pub_wfD [OF wf]
  show "distinct (subs (unsubscribe k q p) k1)" for k1 using w(1) by simp
  have sub: "q1 \<in> set (subs (unsubscribe k q p) k1) \<Longrightarrow> q1 \<in> set (subs p k1)" for q1 k1 by (simp split: if_splits)
  show "q1 < next_queue (unsubscribe k q p)" if "q1 \<in> set (subs (unsubscribe k q p) k1)" for k1 q1
    using w(2) [OF sub [OF that]] by simp
  show "k1 = k2" if "q1 \<in> set (subs (unsubscribe k q p) k1)" "q1 \<in> set (subs (unsubscribe k q p) k2)" for k1 k2 q1
    by (rule w(3) [OF sub [OF that(1)] sub [OF that(2)]])
qed

lemma pub_wf_publish: "pub_wf p \<Longrightarrow> pub_wf (publish k e p)"
  by (simp add: pub_wf_def publish_def)

lemma pub_wf_take: "pub_wf (p\<lparr>pub_queues := qs\<rparr>) \<longleftrightarrow> pub_wf p"
  by (simp add: pub_wf_def)

subsection \<open>The steps\<close>

record 'd live =
  phase :: worker_phase
  db :: 'd
  sent :: "pyval list"
  in_flight :: "pyval list"
  hub :: pubsub
  viewer :: viewer
  shown :: "pyval list"

fun viewer_queue :: "viewer \<Rightarrow> nat option" where
  "viewer_queue (Subscribed q) = Some q"
| "viewer_queue (Watching q) = Some q"
| "viewer_queue v = None"

text \<open>A step of the worker, of the relay or of the viewer. The viewer blocks on an empty queue.\<close>

inductive own_step :: "'d exec \<Rightarrow> string \<Rightarrow> 'd live \<Rightarrow> 'd live \<Rightarrow> bool" for exec k where
  work: "phase s \<noteq> Ended \<Longrightarrow> order_step exec k (phase s) (db s) = (ph, us, d) \<Longrightarrow>
    own_step exec k s (s\<lparr>phase := ph, db := d, sent := sent s @ us, in_flight := in_flight s @ us\<rparr>)"
| pass_on: "in_flight s = u # us \<Longrightarrow> own_step exec k s (s\<lparr>in_flight := us, hub := relay k ([u], Inr ()) (hub s)\<rparr>)"
| connect: "viewer s = Connected \<Longrightarrow> view_subscribe k (hub s) = (v, p) \<Longrightarrow> own_step exec k s (s\<lparr>viewer := v, hub := p\<rparr>)"
| catch_up: "viewer s = Subscribed q \<Longrightarrow> view_current exec k q (hub s, db s) = (v, out, p, d) \<Longrightarrow>
    own_step exec k s (s\<lparr>viewer := v, shown := shown s @ out, hub := p, db := d\<rparr>)"
| see: "viewer s = Watching q \<Longrightarrow> pqueue (hub s) q \<noteq> [] \<Longrightarrow> view_event k q (hub s) = (v, out, p) \<Longrightarrow>
    own_step exec k s (s\<lparr>viewer := v, shown := shown s @ out, hub := p\<rparr>)"

text \<open>What everything else does: other viewers of any order, other relays, and the database at other rows.\<close>

inductive other_step :: "('d \<Rightarrow> table) \<Rightarrow> string \<Rightarrow> 'd live \<Rightarrow> 'd live \<Rightarrow> bool" for rows k where
  other_connects: "subscribe k' (hub s) = (q, p) \<Longrightarrow> other_step rows k s (s\<lparr>hub := p\<rparr>)"
| other_leaves: "viewer_queue (viewer s) \<noteq> Some q \<Longrightarrow> other_step rows k s (s\<lparr>hub := unsubscribe k' q (hub s)\<rparr>)"
| other_sees: "viewer_queue (viewer s) \<noteq> Some q \<Longrightarrow>
    other_step rows k s (s\<lparr>hub := (hub s)\<lparr>pub_queues := dict_set q us (pub_queues (hub s))\<rparr>\<rparr>)"
| other_order: "k' \<noteq> k \<Longrightarrow> other_step rows k s (s\<lparr>hub := publish k' e (hub s)\<rparr>)"
| other_row: "rows d k = rows (db s) k \<Longrightarrow> other_step rows k s (s\<lparr>db := d\<rparr>)"

definition live_step :: "'d exec \<Rightarrow> ('d \<Rightarrow> table) \<Rightarrow> string \<Rightarrow> 'd live \<Rightarrow> 'd live \<Rightarrow> bool" where
  "live_step exec rows k s s' \<longleftrightarrow> own_step exec k s s' \<or> other_step rows k s s'"

definition posted :: "('d \<Rightarrow> table) \<Rightarrow> string \<Rightarrow> 'd live \<Rightarrow> bool" where
  "posted rows k s \<longleftrightarrow> phase s = Taking 0 \<and> rows (db s) k = Some (''en_progreso'', []) \<and> sent s = [] \<and> in_flight s = []
     \<and> pub_wf (hub s) \<and> viewer s = Connected \<and> shown s = []"

inductive reachable :: "'d exec \<Rightarrow> ('d \<Rightarrow> table) \<Rightarrow> string \<Rightarrow> 'd live \<Rightarrow> bool" for exec rows k where
  start: "posted rows k s \<Longrightarrow> reachable exec rows k s"
| step: "reachable exec rows k s \<Longrightarrow> live_step exec rows k s s' \<Longrightarrow> reachable exec rows k s'"

subsection \<open>The invariant\<close>

text \<open>A row of the order that was shown, with \<open>c\<close> steps; and an order that was given up in a way which the table does not show.\<close>

definition shows_row :: "string \<Rightarrow> string \<Rightarrow> nat \<Rightarrow> pyval \<Rightarrow> bool" where
  "shows_row k st c v \<longleftrightarrow> (\<exists>cr up. v = row_dict k \<lparr>row_status = st, row_steps = shown_steps c, row_created_at = cr, row_updated_at = up\<rparr>)"

definition stranded :: "('d \<Rightarrow> table) \<Rightarrow> string \<Rightarrow> 'd live \<Rightarrow> bool" where
  "stranded rows k s \<longleftrightarrow> phase s = Ended \<and> (\<exists>steps. rows (db s) k = Some (''en_progreso'', steps))"

text \<open>The viewer \<open>v\<close>, for whom the updates \<open>es\<close> are yet to come, has missed no update that is newer than the row it was
  shown, and when the worker has ended there is still something to come.\<close>

fun viewer_inv :: "string \<Rightarrow> bool \<Rightarrow> bool \<Rightarrow> viewer \<Rightarrow> pyval list \<Rightarrow> pyval list \<Rightarrow> pyval list \<Rightarrow> bool" where
  "viewer_inv k stop lost Connected out es us \<longleftrightarrow> out = []"
| "viewer_inv k stop lost (Subscribed q) out es us \<longleftrightarrow> out = [] \<and> (\<exists>m. es = drop m us \<and> m \<le> length us)"
| "viewer_inv k stop lost (Watching q) out es us \<longleftrightarrow> (\<exists>c m row vs. out = row # vs \<and> shows_row k ''en_progreso'' c row
     \<and> vs @ es = drop m us \<and> m \<le> length us \<and> (m \<le> c \<or> lost)) \<and> (stop \<longrightarrow> lost \<or> es \<noteq> [])"
| "viewer_inv k stop lost Closed out es us \<longleftrightarrow> length out \<le> 1 \<or> (\<exists>c m row vs. out = row # vs \<and> shows_row k ''en_progreso'' c row
     \<and> vs = drop m us \<and> (m \<le> c \<or> lost) \<and> stop)"

definition unread :: "viewer \<Rightarrow> pubsub \<Rightarrow> pyval list" where
  "unread v p = (case viewer_queue v of None \<Rightarrow> [] | Some q \<Rightarrow> pqueue p q)"

lemma unread_simps [simp]:
  "unread Connected p = []" "unread Closed p = []" "unread (Subscribed q) p = pqueue p q" "unread (Watching q) p = pqueue p q"
  by (simp_all add: unread_def)

definition live_inv :: "('d \<Rightarrow> table) \<Rightarrow> string \<Rightarrow> 'd live \<Rightarrow> bool" where
  "live_inv rows k s \<longleftrightarrow> pub_wf (hub s) \<and> phase_inv (phase s) (sent s) (rows (db s) k)
     \<and> (\<exists>m. in_flight s = drop m (sent s) \<and> m \<le> length (sent s))
     \<and> (\<forall>q. viewer_queue (viewer s) = Some q \<longrightarrow> q \<in> set (subs (hub s) k))
     \<and> viewer_inv k (phase s = Ended) (stranded rows k s) (viewer s) (shown s)
          (unread (viewer s) (hub s) @ in_flight s) (sent s)"

text \<open>Facts about the phases: what a row in progress says, and where a final update can be.\<close>

lemma phase_inv_row: "phase_inv ph us r \<Longrightarrow> \<exists>st c. r = Some (st, shown_steps c)"
  by (cases ph) auto

lemma phase_inv_progress:
  "phase_inv ph us (Some (''en_progreso'', steps)) \<Longrightarrow> \<exists>c. steps = shown_steps c \<and> (length us \<le> c \<or> ph = Ended)"
  by (cases ph) auto

definition final_status :: "pyval \<Rightarrow> bool" where
  "final_status u \<longleftrightarrow> status_of u \<in> {Inr (PStr ''completado''), Inr (PStr ''error'')}"

lemma status_update [simp]: "status_of (update st steps) = Inr (PStr st)"
  by (simp add: status_of_def update_def)

lemma updates_status: "u \<in> set (updates i) \<Longrightarrow> status_of u = Inr (PStr ''en_progreso'')"
  by (auto simp: updates_def)

lemma phase_inv_sent:
  assumes "phase_inv ph us r" "us = xs @ u # ys"
  shows "status_of u = Inr (PStr ''en_progreso'') \<or> ph = Ended \<and> ys = [] \<and> final_status u"
proof (cases "ph = Ended")
  case True
  then obtain j st where us: "us = updates j @ [update st (shown_steps (min 4 (Suc j)))]" "st \<in> {''completado'', ''error''}"
    using assms(1) by auto
  show ?thesis
  proof (cases ys rule: rev_cases)
    case Nil
    with us assms(2) True show ?thesis by (auto simp: final_status_def)
  next
    case (snoc zs z)
    then have "updates j @ [update st (shown_steps (min 4 (Suc j)))] = (xs @ u # zs) @ [z]" using us(1) assms(2) by simp
    then have "updates j = xs @ u # zs" by (simp only: append1_eq_conv)
    then show ?thesis using updates_status [of u j] by simp
  qed
next
  case False
  then obtain i where "us = updates i" using assms(1) by (cases ph) auto
  with assms(2) show ?thesis using updates_status [of u i] by simp
qed

lemma phase_inv_last: "phase_inv Ended (xs @ [u]) r \<Longrightarrow> final_status u"
  by (auto simp: final_status_def)

lemma order_step_ends: "ph \<noteq> Ended \<Longrightarrow> order_step exec k ph d = (ph', us, d') \<Longrightarrow> ph' = Ended \<longrightarrow> us \<noteq> []"
  by (cases ph) (auto split: prod.splits sum.splits if_splits)

lemma viewer_inv_work:
  "viewer_inv k False False v out es us \<Longrightarrow> e \<longrightarrow> new \<noteq> [] \<Longrightarrow> viewer_inv k e l v out (es @ new) (us @ new)"
proof (cases v)
  case (Watching q)
  assume "viewer_inv k False False v out es us" and new: "e \<longrightarrow> new \<noteq> []"
  then obtain c m row vs where "out = row # vs" "shows_row k ''en_progreso'' c row" "vs @ es = drop m us" "m \<le> length us" "m \<le> c"
    using Watching by auto
  then show ?thesis using Watching new by (simp add: exI [of _ m] exI [of _ c])
next
  case (Subscribed q)
  assume "viewer_inv k False False v out es us"
  then obtain m where "out = []" "es = drop m us" "m \<le> length us" using Subscribed by auto
  then show ?thesis using Subscribed by (simp add: exI [of _ m])
qed auto

subsection \<open>Every step keeps it\<close>

lemma live_inv_posted: "posted rows k s \<Longrightarrow> live_inv rows k s"
  by (simp add: posted_def live_inv_def updates_def shown_steps_def)

lemma inv_work:
  assumes "lawful (exec :: 'd exec) rows" "live_inv rows k s" "phase s \<noteq> Ended" "order_step exec k (phase s) (db s) = (ph, us, d)"
  shows "live_inv rows k (s\<lparr>phase := ph, db := d, sent := sent s @ us, in_flight := in_flight s @ us\<rparr>)"
proof -
  let ?s = "s\<lparr>phase := ph, db := d, sent := sent s @ us, in_flight := in_flight s @ us\<rparr>"
  have "phase_inv ph (sent s @ us) (rows d k)"
    using phase_inv_step [OF assms(1) _ assms(4)] assms(2,3) by (auto simp: live_inv_def)
  moreover have "viewer_inv k (ph = Ended) (stranded rows k ?s) (viewer s) (shown s)
      (unread (viewer s) (hub s) @ in_flight s @ us) (sent s @ us)"
    using assms(2,3) order_step_ends [OF assms(3,4)]
    by (subst append_assoc [symmetric], intro viewer_inv_work) (simp_all add: live_inv_def stranded_def)
  moreover obtain m where "in_flight s = drop m (sent s)" "m \<le> length (sent s)" using assms(2) by (auto simp: live_inv_def)
  then have "\<exists>m. in_flight s @ us = drop m (sent s @ us) \<and> m \<le> length (sent s @ us)" by (intro exI [of _ m]) simp
  ultimately show ?thesis using assms(2) by (simp add: live_inv_def del: drop_append)
qed

lemma viewer_inv_unsubscribed: "viewer_queue v = None \<Longrightarrow> viewer_inv k e l v out es us \<longleftrightarrow> viewer_inv k e l v out es' us"
  by (cases v) simp_all

lemma inv_pass_on:
  assumes "live_inv rows k s" "in_flight s = u # us"
  shows "live_inv rows k (s\<lparr>in_flight := us, hub := relay k ([u], Inr ()) (hub s)\<rparr>)"
proof -
  have wf: "pub_wf (hub s)" using assms(1) by (simp add: live_inv_def)
  obtain m where m: "u # us = drop m (sent s)" "m \<le> length (sent s)" using assms by (auto simp: live_inv_def)
  then have "us = drop (Suc m) (sent s)" "Suc m \<le> length (sent s)" by (metis drop_Suc list.sel(3) tl_drop) (cases "m = length (sent s)"; use m in auto)
  moreover have "viewer_inv k (phase s = Ended) (stranded rows k s) (viewer s) (shown s)
      (unread (viewer s) (publish k u (hub s)) @ us) (sent s)"
  proof (cases "viewer_queue (viewer s)")
    case None
    have "viewer_inv k (phase s = Ended) (stranded rows k s) (viewer s) (shown s) (unread (viewer s) (hub s) @ in_flight s) (sent s)"
      using assms(1) by (simp add: live_inv_def)
    then show ?thesis by (rule iffD1 [OF viewer_inv_unsubscribed [OF None]])
  next
    case (Some q)
    then show ?thesis using assms by (simp add: live_inv_def publish_effect(3) [OF wf] unread_def)
  qed
  ultimately show ?thesis using assms wf
    by (auto simp: live_inv_def relay_def pub_wf_publish publish_effect(1) stranded_def)
qed

lemma inv_connect:
  assumes "live_inv rows k s" "viewer s = Connected" "view_subscribe k (hub s) = (v, p)"
  shows "live_inv rows k (s\<lparr>viewer := v, hub := p\<rparr>)"
proof -
  obtain q where q: "subscribe k (hub s) = (q, p)" "v = Subscribed q"
    using assms(3) by (auto simp: view_subscribe_def split: prod.splits)
  have "pub_wf p" using pub_wf_subscribe [OF _ q(1)] assms(1) by (simp add: live_inv_def)
  with assms q(2) subscribe_effect [OF q(1)] show ?thesis by (auto simp: live_inv_def)
qed

lemma inv_catch_up:
  assumes "lawful (exec :: 'd exec) rows" "live_inv rows k s" "viewer s = Subscribed q"
    "view_current exec k q (hub s, db s) = (v, out, p, d)"
  shows "live_inv rows k (s\<lparr>viewer := v, shown := shown s @ out, hub := p, db := d\<rparr>)"
proof -
  obtain r d1 where g: "get_order exec k (db s) = (r, d1)" by fastforce
  have i: "pub_wf (hub s)" "phase_inv (phase s) (sent s) (rows (db s) k)" "shown s = []" "q \<in> set (subs (hub s) k)"
    "\<exists>m. in_flight s = drop m (sent s) \<and> m \<le> length (sent s)" using assms(2,3) by (auto simp: live_inv_def)
  obtain m where m: "pqueue (hub s) q @ in_flight s = drop m (sent s)" "m \<le> length (sent s)" using assms(2,3) by (auto simp: live_inv_def)
  obtain st c where row: "rows (db s) k = Some (st, shown_steps c)" using phase_inv_row [OF i(2)] by blast
  have d: "d = d1" using g assms(4) by (auto simp: view_current_def split: sum.splits option.splits if_splits)
  have rows: "rows d = rows (db s)"
    using assms(1) [unfolded lawful_def, rule_format, of "db s" "Select_order k"] g d
    by (auto simp: get_order_def split: prod.splits sum.splits)
  consider (watch) current where "v = Watching q" "out = [current]" "p = hub s" "r = Inr (Some current)"
      "status_of current = Inr (PStr ''en_progreso'')"
    | (close) "v = Closed" "length out \<le> 1" "p = unsubscribe k q (hub s)"
    using g assms(4) by (auto simp: view_current_def split: sum.splits option.splits if_splits)
  then show ?thesis
  proof cases
    case watch
    obtain cr up where cur: "current = row_dict k \<lparr>row_status = st, row_steps = shown_steps c, row_created_at = cr, row_updated_at = up\<rparr>"
      using get_order_rows(3) [OF assms(1) _ row] g watch(4) by auto
    then have st: "st = ''en_progreso''" using watch(5) by (simp add: status_of_def row_dict_def)
    then obtain c' where c': "shown_steps c = shown_steps c'" "length (sent s) \<le> c' \<or> phase s = Ended"
      using phase_inv_progress i(2) row by metis
    have "shows_row k ''en_progreso'' c' current" unfolding shows_row_def using cur st c'(1) by auto
    moreover have "m \<le> c' \<or> stranded rows k s" using c'(2) m(2) row st by (auto simp: stranded_def)
    ultimately have "viewer_inv k (phase s = Ended) (stranded rows k s) v out (pqueue (hub s) q @ in_flight s) (sent s)"
      using m watch(1,2) row st by (auto simp: stranded_def)
    then show ?thesis using i rows watch by (simp add: live_inv_def stranded_def)
  next
    case close
    then show ?thesis using i rows by (simp add: live_inv_def pub_wf_unsubscribe)
  qed
qed

lemma inv_see:
  assumes "live_inv rows k s" "viewer s = Watching q" "pqueue (hub s) q \<noteq> []" "view_event k q (hub s) = (v, out, p)"
  shows "live_inv rows k (s\<lparr>viewer := v, shown := shown s @ out, hub := p\<rparr>)"
proof -
  obtain e es where es: "pqueue (hub s) q = e # es" using assms(3) by (cases "pqueue (hub s) q") auto
  have i: "pub_wf (hub s)" "phase_inv (phase s) (sent s) (rows (db s) k)" "q \<in> set (subs (hub s) k)"
    "\<exists>m. in_flight s = drop m (sent s) \<and> m \<le> length (sent s)" using assms(1,2) by (auto simp: live_inv_def)
  obtain c m row vs where w: "shown s = row # vs" "shows_row k ''en_progreso'' c row" "vs @ e # es @ in_flight s = drop m (sent s)"
    "m \<le> length (sent s)" "m \<le> c \<or> stranded rows k s" using assms(1,2) es by (auto simp: live_inv_def)
  have split_sent: "sent s = (take m (sent s) @ vs) @ e # (es @ in_flight s)" using w(3) append_take_drop_id [of m "sent s"] by simp
  note sent = phase_inv_sent [OF i(2) split_sent]
  let ?p = "(hub s)\<lparr>pub_queues := dict_set q es (pub_queues (hub s))\<rparr>"
  have wf: "pub_wf ?p" using i(1) by (simp add: pub_wf_take)
  show ?thesis
  proof (cases "final_status e")
    case True
    then have "phase s = Ended" "es = []" "in_flight s = []" using sent by (auto simp: final_status_def)
    moreover have "v = Closed" "out = [e]" "p = unsubscribe k q ?p" using True assms(4) es
      by (auto simp: view_event_def final_status_def Let_def)
    ultimately show ?thesis using i w wf by (auto simp: live_inv_def pub_wf_unsubscribe stranded_def)
  next
    case False
    then have "status_of e = Inr (PStr ''en_progreso'')" using sent by blast
    then have "v = Watching q" "out = [e]" "p = ?p" using assms(4) es by (auto simp: view_event_def Let_def)
    moreover have "viewer_inv k (phase s = Ended) (stranded rows k s) (Watching q) (shown s @ [e]) (es @ in_flight s) (sent s)"
    proof -
      have "phase s = Ended \<longrightarrow> es @ in_flight s \<noteq> []"
        using phase_inv_last [of "take m (sent s) @ vs" e] i(2) split_sent False by (metis append.assoc append_Nil2)
      moreover have "(vs @ [e]) @ es @ in_flight s = drop m (sent s)" "shown s @ [e] = row # vs @ [e]" using w by simp_all
      ultimately show ?thesis unfolding viewer_inv.simps using w(2,4,5) by blast
    qed
    ultimately show ?thesis using i wf by (simp add: live_inv_def stranded_def)
  qed
qed

lemma inv_own: "lawful (exec :: 'd exec) rows \<Longrightarrow> live_inv rows k s \<Longrightarrow> own_step exec k s s' \<Longrightarrow> live_inv rows k s'"
  by (erule own_step.cases) (auto intro: inv_work inv_pass_on inv_connect inv_catch_up inv_see)

text \<open>Other code leaves the queue of the viewer alone.\<close>

lemma inv_other_hub:
  assumes "live_inv rows k s" "pub_wf p" "\<And>q. viewer_queue (viewer s) = Some q \<Longrightarrow> q \<in> set (subs p k) \<and> pqueue p q = pqueue (hub s) q"
  shows "live_inv rows k (s\<lparr>hub := p\<rparr>)"
proof -
  have "unread (viewer s) p = unread (viewer s) (hub s)" using assms(3) by (auto simp: unread_def split: option.split)
  with assms show ?thesis by (simp add: live_inv_def stranded_def)
qed

lemma inv_other:
  assumes "live_inv rows k s" "other_step rows k s s'"
  shows "live_inv rows k s'"
  using assms(2)
proof cases
  case (other_connects k' q p)
  have wf: "pub_wf (hub s)" using assms(1) by (simp add: live_inv_def)
  have "q' \<in> set (subs p k) \<and> pqueue p q' = pqueue (hub s) q'" if "viewer_queue (viewer s) = Some q'" for q'
    using that assms(1) pub_wfD(2) [OF wf, of q' k] subscribe_effect [OF other_connects(2)] by (auto simp: live_inv_def)
  with pub_wf_subscribe [OF wf other_connects(2)] show ?thesis unfolding other_connects(1) by (intro inv_other_hub [OF assms(1)])
next
  case (other_leaves q k')
  then show ?thesis unfolding other_leaves(1) using assms(1)
    by (intro inv_other_hub [OF assms(1)]) (auto simp: live_inv_def pub_wf_unsubscribe)
next
  case (other_sees q us)
  then show ?thesis unfolding other_sees(1) using assms(1)
    by (intro inv_other_hub [OF assms(1)]) (auto simp: live_inv_def pub_wf_take)
next
  case (other_order k' e)
  have wf: "pub_wf (hub s)" using assms(1) by (simp add: live_inv_def)
  then show ?thesis unfolding other_order(1) using assms(1) other_order(2) pub_wfD(3) [OF wf, of _ k k']
    by (intro inv_other_hub [OF assms(1)]) (auto simp: live_inv_def publish_effect pub_wf_publish)
next
  case (other_row d)
  then show ?thesis using assms(1) by (simp add: live_inv_def stranded_def)
qed

lemma live_inv_reachable:
  assumes "lawful (exec :: 'd exec) rows" "reachable exec rows k s"
  shows "live_inv rows k s"
  using assms(2)
  by (induction rule: reachable.induct) (auto simp: live_step_def intro: live_inv_posted inv_own [OF assms(1)] inv_other)

subsection \<open>What viewers see\<close>


text \<open>The work that is left: every step of the worker, of the relay and of the viewer uses up some of it.\<close>

fun viewer_rank :: "viewer \<Rightarrow> nat" where
  "viewer_rank Connected = 2"
| "viewer_rank (Subscribed q) = 1"
| "viewer_rank v = 0"

definition live_work :: "'d live \<Rightarrow> nat" where
  "live_work s = 3 * phase_rank (phase s) + 2 * length (in_flight s) + length (unread (viewer s) (hub s)) + viewer_rank (viewer s)"

lemma own_step_work:
  assumes "live_inv rows k s" "own_step exec k s s'"
  shows "live_work s' < live_work s"
  using assms(2)
proof cases
  case (work ph us d)
  have "worker_phase_ok (phase s)" using assms(1) phase_inv_ok by (auto simp: live_inv_def)
  from order_step_rank [OF this work(2,3)] show ?thesis by (simp add: live_work_def work(1))
next
  case (pass_on u us)
  have "length (unread (viewer s) (publish k u (hub s))) \<le> Suc (length (unread (viewer s) (hub s)))"
    using assms(1) by (auto simp: unread_def live_inv_def publish_effect split: option.split)
  then show ?thesis by (simp add: live_work_def pass_on relay_def)
next
  case (connect v p)
  obtain q where q: "subscribe k (hub s) = (q, p)" "v = Subscribed q"
    using connect(3) by (auto simp: view_subscribe_def split: prod.splits)
  show ?thesis using subscribe_effect(4) [OF q(1)] by (simp add: live_work_def connect q(2))
next
  case (catch_up q v out p d)
  then show ?thesis by (auto simp: live_work_def view_current_def split: prod.splits sum.splits option.splits if_splits)
next
  case (see q v out p)
  then obtain e es where es: "pqueue (hub s) q = e # es" by (cases "pqueue (hub s) q") auto
  then consider "v = Closed" | "v = Watching q" "p = (hub s)\<lparr>pub_queues := dict_set q es (pub_queues (hub s))\<rparr>"
    using see(4) by (auto simp: view_event_def Let_def split: if_splits)
  then show ?thesis by cases (simp_all add: live_work_def see(1,2) es)
qed

lemma other_step_work:
  assumes "live_inv rows k s" "other_step rows k s s'"
  shows "live_work s' = live_work s"
proof -
  have wf: "pub_wf (hub s)" "viewer_queue (viewer s) = Some q \<Longrightarrow> q \<in> set (subs (hub s) k)" for q
    using assms(1) by (auto simp: live_inv_def)
  have "unread (viewer s) (hub s') = unread (viewer s) (hub s) \<and> viewer s' = viewer s \<and> phase s' = phase s \<and> in_flight s' = in_flight s"
    using assms(2)
  proof cases
    case (other_connects k' q p)
    then show ?thesis using subscribe_effect [OF other_connects(2)] pub_wfD(2) [OF wf(1) wf(2)]
      by (auto simp: unread_def split: option.split)
  next
    case (other_order k' e)
    then show ?thesis using pub_wfD(3) [OF wf(1) wf(2), of _ k'] by (auto simp: unread_def publish_effect [OF wf(1)] split: option.split)
  qed (auto simp: unread_def split: option.split)
  then show ?thesis by (simp add: live_work_def)
qed

lemma own_step_enabled:
  assumes "phase s \<noteq> Ended \<or> in_flight s \<noteq> [] \<or> viewer s = Connected \<or> (\<exists>q. viewer s = Subscribed q) \<or> unread (viewer s) (hub s) \<noteq> []"
  shows "\<exists>s'. own_step exec k s s'"
proof -
  consider "phase s \<noteq> Ended" | u us where "in_flight s = u # us" | "viewer s = Connected" | q where "viewer s = Subscribed q"
    | q where "viewer s = Watching q" "pqueue (hub s) q \<noteq> []"
    using assms by (cases "in_flight s"; cases "viewer s") auto
  then show ?thesis
  proof cases
    case 1
    then show ?thesis using own_step.work [OF 1] by (metis prod_cases3)
  next
    case 2
    then show ?thesis using own_step.pass_on by blast
  next
    case 3
    then show ?thesis using own_step.connect [OF 3] by (metis surj_pair)
  next
    case 4
    then show ?thesis using own_step.catch_up [OF 4] by (metis prod_cases4)
  next
    case 5
    then show ?thesis using own_step.see [OF 5] by (metis prod_cases3)
  qed
qed

text \<open>Nothing left to do: the stream has ended, unless the order is stranded.\<close>

lemma settled_viewer:
  assumes "live_inv rows k s" "phase s = Ended" "in_flight s = []" "viewer s = Watching q" "pqueue (hub s) q = []"
  shows "stranded rows k s"
  using assms by (auto simp: live_inv_def)


text \<open>C38. The exception is real: a viewer that connects once the worker has given up an order without being
  able to mark it, and the final update has been published, is shown an order in progress and then
  waits for ever: no step of the worker, of the relay or of the viewer is possible any more.\<close>

theorem late_viewer_waits_forever:
  assumes "lawful (exec :: 'd exec) rows" and "reachable exec rows k s" and "stranded rows k s" and "in_flight s = []"
    and "viewer s = Connected" and "get_order exec k (db s) = (Inr r, d)"
  shows "\<exists>s1 s2 q c row. own_step exec k s s1 \<and> own_step exec k s1 s2 \<and> viewer s2 = Watching q \<and> shown s2 = [row]
    \<and> shows_row k ''en_progreso'' c row \<and> (\<forall>s3. \<not> own_step exec k s2 s3)"
proof -
  note inv = live_inv_reachable [OF assms(1,2)]
  obtain q p where q: "subscribe k (hub s) = (q, p)" by fastforce
  let ?s1 = "s\<lparr>viewer := Subscribed q, hub := p\<rparr>"
  obtain c where row: "rows (db s) k = Some (''en_progreso'', shown_steps c)" and ended: "phase s = Ended"
    using assms(3) phase_inv_row [of "phase s" "sent s" "rows (db s) k"] inv by (auto simp: stranded_def live_inv_def)
  obtain cr up where r: "r = Some (row_dict k \<lparr>row_status = ''en_progreso'', row_steps = shown_steps c, row_created_at = cr, row_updated_at = up\<rparr>)"
    using get_order_rows(3) [OF assms(1,6) row] by blast
  let ?row = "row_dict k \<lparr>row_status = ''en_progreso'', row_steps = shown_steps c, row_created_at = cr, row_updated_at = up\<rparr>"
  let ?s2 = "?s1\<lparr>viewer := Watching q, shown := [?row], hub := p, db := d\<rparr>"
  have shown: "shown s = []" using inv assms(5) by (simp add: live_inv_def)
  have s1: "own_step exec k s ?s1" by (rule own_step.connect [OF assms(5)]) (simp add: view_subscribe_def q)
  have "own_step exec k ?s1 (?s1\<lparr>viewer := Watching q, shown := shown ?s1 @ [?row], hub := p, db := d\<rparr>)"
    by (rule own_step.catch_up) (use assms(6) r in \<open>simp_all add: view_current_def status_of_def row_dict_def\<close>)
  then have s2: "own_step exec k ?s1 ?s2" by (simp add: shown)
  have "pqueue p q = []" using subscribe_effect(4) [OF q] by simp
  then have "\<not> own_step exec k ?s2 s3" for s3 using ended assms(4) by (auto elim!: own_step.cases)
  moreover have "shows_row k ''en_progreso'' c ?row" by (auto simp: shows_row_def)
  ultimately show ?thesis using s1 s2 by (intro exI [of _ ?s1] exI [of _ ?s2] exI [of _ q] exI [of _ c] exI [of _ ?row]) simp
qed

subsection \<open>Concrete runs\<close>

lemma reachable_own: "reachable exec rows k s \<Longrightarrow> own_step exec k s s' \<Longrightarrow> reachable exec rows k s'"
  by (erule reachable.step) (simp add: live_step_def)

definition demo_live :: "table live" where
  "demo_live = \<lparr>phase = Taking 0, db = [''o1'' \<mapsto> (''en_progreso'', [])], sent = [], in_flight = [],
     hub = \<lparr>subscribers = [], pub_queues = [], next_queue = 0\<rparr>, viewer = Connected, shown = []\<rparr>"

lemma demo_posted: "posted (\<lambda>t. t) ''o1'' demo_live"
  by (simp add: posted_def demo_live_def pub_wf_def)

text \<open>The viewer connects first and has read the row when the first step is reported.\<close>

lemma demo_watching: "\<exists>s. reachable demo_db (\<lambda>t. t) ''o1'' s \<and> viewer s = Watching 0 \<and> phase s = Taking 1 \<and> sent s = updates 1"
proof -
  let ?s1 = "demo_live\<lparr>viewer := Subscribed 0, hub := \<lparr>subscribers = [(''o1'', [0])], pub_queues = [(0, [])], next_queue = 1\<rparr>\<rparr>"
  let ?row = "row_dict ''o1'' \<lparr>row_status = ''en_progreso'', row_steps = [], row_created_at = [], row_updated_at = []\<rparr>"
  let ?s2 = "?s1\<lparr>viewer := Watching 0, shown := shown ?s1 @ [?row], hub := hub ?s1, db := db ?s1\<rparr>"
  let ?d = "[''o1'' \<mapsto> (''en_progreso'', [step_dict (STEPS ! 0)])]"
  let ?s3 = "?s2\<lparr>phase := Reporting 1, db := ?d, sent := sent ?s2 @ [], in_flight := in_flight ?s2 @ []\<rparr>"
  let ?s4 = "?s3\<lparr>phase := Taking 1, db := db ?s3, sent := sent ?s3 @ [update ''en_progreso'' (shown_steps 1)],
     in_flight := in_flight ?s3 @ [update ''en_progreso'' (shown_steps 1)]\<rparr>"
  have s1: "own_step demo_db ''o1'' demo_live ?s1"
    by (rule own_step.connect) (simp_all add: demo_live_def view_subscribe_def subscribe_def bucket_add_def)
  have s2: "own_step demo_db ''o1'' ?s1 ?s2"
    by (rule own_step.catch_up) (simp_all add: view_current_def get_order_def demo_db_def demo_live_def status_of_def row_dict_def)
  have s3: "own_step demo_db ''o1'' ?s2 ?s3"
    by (rule own_step.work) (simp_all add: append_step_def demo_db_def demo_live_def)
  have s4: "own_step demo_db ''o1'' ?s3 ?s4" by (rule own_step.work) simp_all
  have "reachable demo_db (\<lambda>t. t) ''o1'' ?s4"
    by (rule reachable_own [OF reachable_own [OF reachable_own [OF reachable_own [OF reachable.start [OF demo_posted] s1] s2] s3] s4])
  moreover have "sent ?s4 = updates 1" by (simp add: demo_live_def updates_def)
  ultimately show ?thesis by (intro exI [of _ ?s4]) simp
qed



text \<open>A database that can be read but not written.\<close>

definition read_only_db :: "table exec" where
  "read_only_db st t = (case st of Select_order k \<Rightarrow> demo_db st t | _ \<Rightarrow> (Inl (Exn ''ReadOnlySQLTransactionError'' []), t))"

lemma lawful_read_only: "lawful read_only_db (\<lambda>t. t)"
  using lawful_demo by (auto simp: lawful_def read_only_db_def split: statement.split)

lemma demo_stranded:
  "\<exists>s. reachable read_only_db (\<lambda>t. t) ''o1'' s \<and> stranded (\<lambda>t. t) ''o1'' s \<and> in_flight s = [] \<and> viewer s = Connected
     \<and> db s = [''o1'' \<mapsto> (''en_progreso'', [])]"
proof -
  let ?w = "\<lambda>s ph us. s\<lparr>phase := ph, db := db demo_live, sent := sent s @ us, in_flight := in_flight s @ us\<rparr>"
  let ?u = "update ''error'' (shown_steps 1)"
  let ?s1 = "?w demo_live (Failing 1) []" and ?s2 = "?w (?w demo_live (Failing 1) []) (Failed 1) []"
  let ?s3 = "?w ?s2 Ended [?u]"
  let ?s4 = "?s3\<lparr>in_flight := [], hub := relay ''o1'' ([?u], Inr ()) (hub ?s3)\<rparr>"
  have s1: "own_step read_only_db ''o1'' demo_live ?s1"
    by (rule own_step.work) (simp_all add: demo_live_def append_step_def read_only_db_def)
  have s2: "own_step read_only_db ''o1'' ?s1 ?s2"
    by (rule own_step.work) (simp_all add: mark_status_def read_only_db_def)
  have s3: "own_step read_only_db ''o1'' ?s2 ?s3" by (rule own_step.work) simp_all
  have s4: "own_step read_only_db ''o1'' ?s3 ?s4" by (rule own_step.pass_on) (simp add: demo_live_def)
  have "reachable read_only_db (\<lambda>t. t) ''o1'' ?s4"
    by (rule reachable_own [OF reachable_own [OF reachable_own [OF reachable_own [OF reachable.start [OF demo_posted] s1] s2] s3] s4])
  then show ?thesis by (intro exI [of _ ?s4]) (simp add: stranded_def demo_live_def)
qed

theorem late_viewer_waits_forever_witness:
  "\<exists>s q row. viewer s = Watching q \<and> shown s = [row] \<and> (\<forall>s'. \<not> own_step read_only_db ''o1'' s s')"
proof -
  obtain s where s: "reachable read_only_db (\<lambda>t. t) ''o1'' s" "stranded (\<lambda>t. t) ''o1'' s" "in_flight s = []" "viewer s = Connected"
    "db s = [''o1'' \<mapsto> (''en_progreso'', [])]" using demo_stranded by blast
  have "get_order read_only_db ''o1'' (db s) = (Inr (Some (row_dict ''o1'' \<lparr>row_status = ''en_progreso'', row_steps = [],
      row_created_at = [], row_updated_at = []\<rparr>)), db s)" by (simp add: s(5) get_order_def read_only_db_def demo_db_def)
  from late_viewer_waits_forever [OF lawful_read_only s(1-4) this] show ?thesis by blast
qed

end
