(* ===== verification/Ping.thy ===== *)
theory Ping
  imports Startup "HOL-Library.Sublist"
begin

text \<open>
  The two-node examples \<^verbatim>\<open>app_node_a.py\<close>/\<^verbatim>\<open>app_node_b.py\<close> and \<^verbatim>\<open>e2e_restart_node_a.py\<close>/\<^verbatim>\<open>e2e_restart_node_b.py\<close>: one node
  sends numbered tasks, the other answers each with an acknowledgement. The pipeline between them
  is a step relation over the real sends, frames and mailboxes, with the faults that the second
  pair provokes: sends that are refused, connections that lose frames, and a peer that starts over.
\<close>

subsection \<open>The actors\<close>

text \<open>\<^verbatim>\<open>msg.get(k)\<close> and \<^verbatim>\<open>payload_id * 2\<close>. Doubling a float is exact until it overflows.\<close>

fun py_get :: "pyval \<Rightarrow> string \<Rightarrow> pyval res" where
  "py_get (PDict d) k = Inr (get_or PNone d k)"
| "py_get _ k = Inl (AttributeError ''no attribute get'')"

fun twice :: "pyval \<Rightarrow> pyval res" where
  "twice (PBool b) = Inr (PInt (if b then 2 else 0))"
| "twice (PInt i) = Inr (PInt (i * 2))"
| "twice (PFloat (Finite m e)) =
     (if (if 0 \<le> e then 2 ^ 1024 \<le> \<bar>2 * m\<bar> * 2 ^ nat e else 2 ^ 1024 * 2 ^ nat (- e) \<le> \<bar>2 * m\<bar>)
      then Inr (PFloat (Infinite (m < 0))) else Inr (PFloat (Finite (2 * m) e)))"
| "twice (PFloat f) = Inr (PFloat f)"
| "twice (PStr s) = Inr (PStr (s @ s))"
| "twice (PList xs) = Inr (PList (xs @ xs))"
| "twice (PTuple xs) = Inr (PTuple (xs @ xs))"
| "twice _ = Inl (TypeError ''unsupported operand'')"

definition task_msg :: "nat \<Rightarrow> pyval" where
  "task_msg i = PDict [(''type'', PStr ''TASK''), (''payload_id'', PInt (int i)), (''reply_to'', PStr ''ingestor'')]"

definition ack_msg :: "pyval \<Rightarrow> pyval" where
  "ack_msg result = PDict [(''type'', PStr ''ACK''), (''result'', result)]"

definition status_reply :: "string \<Rightarrow> pyval" where
  "status_reply s = PDict [(''status'', PStr s)]"

definition ingestor_receive :: "pyval \<Rightarrow> nat \<Rightarrow> pyval res \<times> nat" where
  "ingestor_receive msg processed_count =
     (case py_get msg ''type'' of
        Inl e \<Rightarrow> (Inl e, processed_count)
      | Inr t \<Rightarrow>
          if t = PStr ''ACK'' then (Inr (status_reply ''ok''), processed_count + 1)
          else (Inr (status_reply ''ignored''), processed_count))"

definition processor_receive :: "string \<Rightarrow> node \<Rightarrow> pyval \<Rightarrow> pyval res \<times> node" where
  "processor_receive peer_id n msg =
     and_then (py_get msg ''type'', n) (\<lambda>t n.
       if t = PStr ''TASK'' then
         and_then (res_bind (py_get msg ''payload_id'') twice, n) (\<lambda>result n.
         and_then (res_bind (py_get msg ''reply_to'') as_str, n) (\<lambda>reply_to n.
         and_then (send n (RemoteRef peer_id reply_to) (ack_msg result) None None) (\<lambda>_ n.
           (Inr (status_reply ''processed''), n))))
       else (Inr (status_reply ''error''), n))"

subsection \<open>The programs\<close>

text \<open>The sending loop of \<^verbatim>\<open>app_node_a\<close>, where a refused send ends the program, and that of \<^verbatim>\<open>e2e_restart_node_a\<close>,
  where a ValueError is passed over. \<open>asleep\<close> is what happens on the node during the sleep.\<close>

fun send_tasks :: "(nat \<Rightarrow> node \<Rightarrow> node) \<Rightarrow> string \<Rightarrow> nat list \<Rightarrow> node \<Rightarrow> unit res \<times> node" where
  "send_tasks asleep peer [] n = (Inr (), n)"
| "send_tasks asleep peer (i # is) n =
     and_then (send n (RemoteRef peer ''processor'') (task_msg i) None None) (\<lambda>_ n. send_tasks asleep peer is (asleep i n))"

definition try_task :: "string \<Rightarrow> nat \<Rightarrow> node \<Rightarrow> unit res \<times> node" where
  "try_task peer i n =
     (case send n (RemoteRef peer ''processor'') (task_msg i) None None of
        (Inl e, n) \<Rightarrow> if exn_type e = ''ValueError'' then (Inr (), n) else (Inl e, n)
      | (Inr _, n) \<Rightarrow> (Inr (), n))"

fun try_tasks :: "(nat \<Rightarrow> node \<Rightarrow> node) \<Rightarrow> string \<Rightarrow> nat list \<Rightarrow> node \<Rightarrow> unit res \<times> node" where
  "try_tasks asleep peer [] n = (Inr (), n)"
| "try_tasks asleep peer (i # is) n = and_then (try_task peer i n) (\<lambda>_ n. try_tasks asleep peer is (asleep i n))"

text \<open>Both programs of the sending side: 20 attempts to connect, the loop, a pause, and \<^verbatim>\<open>node.stop()\<close>, which waits
  while the tasks of the actors unwind.\<close>

definition node_a_main ::
  "codec_env \<Rightarrow> (json \<Rightarrow> nat) \<Rightarrow> string + 16 word \<Rightarrow> string \<Rightarrow> string \<Rightarrow> (nat \<Rightarrow> dial_events) \<Rightarrow> (node \<Rightarrow> node)
   \<Rightarrow> (sys \<Rightarrow> sys) \<Rightarrow> (node \<Rightarrow> unit res \<times> node) \<Rightarrow> unit res \<times> sys" where
  "node_a_main env len bound node_name peer attempts flush unwind loop =
     and_then (bring_up len bound default_supervisor [''ingestor''] (new_node env node_name None)) (\<lambda>_ sy.
     and_then (on_node (\<lambda>n. connect_retry (''could not connect to peer '' @ py_repr peer) (map attempts [0..<20]) n peer) sy) (\<lambda>_ sy.
     and_then (on_node loop sy) (\<lambda>_ (n, s). (Inr (), stop_node unwind (flush n, s)))))"

definition app_node_a ::
  "codec_env \<Rightarrow> (json \<Rightarrow> nat) \<Rightarrow> string + 16 word \<Rightarrow> string \<Rightarrow> string \<Rightarrow> (nat \<Rightarrow> dial_events) \<Rightarrow> (node \<Rightarrow> node)
   \<Rightarrow> (sys \<Rightarrow> sys) \<Rightarrow> (nat \<Rightarrow> node \<Rightarrow> node) \<Rightarrow> unit res \<times> sys" where
  "app_node_a env len bound node_name peer attempts flush unwind asleep =
     node_a_main env len bound node_name peer attempts flush unwind (send_tasks asleep peer [0..<100])"

definition TOTAL :: nat where
  "TOTAL = 40"

definition e2e_node_a ::
  "codec_env \<Rightarrow> (json \<Rightarrow> nat) \<Rightarrow> string + 16 word \<Rightarrow> string \<Rightarrow> string \<Rightarrow> (nat \<Rightarrow> dial_events) \<Rightarrow> (node \<Rightarrow> node)
   \<Rightarrow> (sys \<Rightarrow> sys) \<Rightarrow> (nat \<Rightarrow> node \<Rightarrow> node) \<Rightarrow> unit res \<times> sys" where
  "e2e_node_a env len bound node_name peer attempts flush unwind asleep =
     node_a_main env len bound node_name peer attempts flush unwind (try_tasks asleep peer [0..<TOTAL])"

definition node_b_main :: "codec_env \<Rightarrow> (json \<Rightarrow> nat) \<Rightarrow> string + 16 word \<Rightarrow> string \<Rightarrow> unit res \<times> sys" where
  "node_b_main env len bound node_name = bring_up len bound default_supervisor [''processor''] (new_node env node_name None)"

subsection \<open>The pipeline\<close>

text \<open>The two nodes, the frames on their way in both directions, the loop counter of the sender and the count of
  the ingestor; \<open>acks\<close> lists the acknowledgements that were counted and \<open>faulty\<close> says whether anything went wrong
  so far.\<close>

record pipe =
  node_a :: node
  node_b :: node
  wire_ab :: "frame list"
  wire_ba :: "frame list"
  next_task :: nat
  processed :: nat
  acks :: "pyval list"
  faulty :: bool

definition new_frames :: "node \<Rightarrow> node \<Rightarrow> frame list" where
  "new_frames n n' = drop (length (outbox n)) (outbox n')"

text \<open>The ids of the two nodes: as the programs write them and as the transport parses them.\<close>

record pair_ids =
  a_id :: string
  b_id :: string
  a_nid :: nodeid
  b_nid :: nodeid

definition serves :: "codec_env \<Rightarrow> string \<Rightarrow> node \<Rightarrow> bool" where
  "serves env name n \<longleftrightarrow> healthy n \<and> codec_of n = env \<and> name \<in> dom (map_of (mailboxes n))"

inductive pipe_step :: "codec_env \<Rightarrow> pair_ids \<Rightarrow> nat \<Rightarrow> pipe \<Rightarrow> pipe \<Rightarrow> bool" for env ids limit where
  task: "next_task s < limit \<Longrightarrow> send (node_a s) (RemoteRef (b_id ids) ''processor'') (task_msg (next_task s)) None None = (Inr (), a) \<Longrightarrow>
    pipe_step env ids limit s (s\<lparr>node_a := a, wire_ab := wire_ab s @ new_frames (node_a s) a, next_task := next_task s + 1\<rparr>)"
| refused: "next_task s < limit \<Longrightarrow> send (node_a s) (RemoteRef (b_id ids) ''processor'') (task_msg (next_task s)) None None = (Inl e, a) \<Longrightarrow>
    exn_type e = ''ValueError'' \<Longrightarrow>
    pipe_step env ids limit s (s\<lparr>node_a := a, next_task := next_task s + 1, faulty := True\<rparr>)"
| reach_b: "wire_ab s = f # fs \<Longrightarrow>
    pipe_step env ids limit s (s\<lparr>wire_ab := fs, node_b := arrive_frame (local_id (node_a s)) (b_nid ids) (a_nid ids) f (node_b s)\<rparr>)"
| process: "take_mail ''processor'' (node_b s) = Some ((m, mt), b1) \<Longrightarrow> processor_receive (a_id ids) b1 m = (r, b2) \<Longrightarrow>
    pipe_step env ids limit s (s\<lparr>node_b := b2, wire_ba := wire_ba s @ new_frames b1 b2, faulty := faulty s \<or> isl r\<rparr>)"
| reach_a: "wire_ba s = f # fs \<Longrightarrow>
    pipe_step env ids limit s (s\<lparr>wire_ba := fs, node_a := arrive_frame (local_id (node_b s)) (a_nid ids) (b_nid ids) f (node_a s)\<rparr>)"
| ingest: "take_mail ''ingestor'' (node_a s) = Some ((m, mt), a) \<Longrightarrow> ingestor_receive m (processed s) = (r, c) \<Longrightarrow>
    pipe_step env ids limit s (s\<lparr>node_a := a, processed := c, acks := acks s @ replicate (c - processed s) m\<rparr>)"
| reconnect: "serves env ''ingestor'' a \<Longrightarrow> mail a = mail (node_a s) \<Longrightarrow> serves env ''processor'' b \<Longrightarrow> mail b = mail (node_b s) \<Longrightarrow>
    pipe_step env ids limit s (s\<lparr>node_a := a, node_b := b\<rparr>)"
| break: "subseq ab (wire_ab s) \<Longrightarrow> subseq ba (wire_ba s) \<Longrightarrow> pipe_step env ids limit s (s\<lparr>wire_ab := ab, wire_ba := ba, faulty := True\<rparr>)"
| restart: "serves env ''processor'' b \<Longrightarrow> mail b ''processor'' = [] \<Longrightarrow> pipe_step env ids limit s (s\<lparr>node_b := b, faulty := True\<rparr>)"

inductive pipe_run :: "codec_env \<Rightarrow> pair_ids \<Rightarrow> nat \<Rightarrow> pipe \<Rightarrow> bool" for env ids limit where
  fresh_pair: "serves env ''ingestor'' (node_a s) \<Longrightarrow> serves env ''processor'' (node_b s) \<Longrightarrow> mail (node_a s) ''ingestor'' = [] \<Longrightarrow>
    mail (node_b s) ''processor'' = [] \<Longrightarrow> wire_ab s = [] \<Longrightarrow> wire_ba s = [] \<Longrightarrow> next_task s = 0 \<Longrightarrow> processed s = 0 \<Longrightarrow> acks s = [] \<Longrightarrow>
    \<not> faulty s \<Longrightarrow> pipe_run env ids limit s"
| more: "pipe_run env ids limit s \<Longrightarrow> pipe_step env ids limit s s' \<Longrightarrow> pipe_run env ids limit s'"

subsection \<open>What is where\<close>

definition ack_of :: "nat \<Rightarrow> pyval" where
  "ack_of i = ack_msg (PInt (int i * 2))"

text \<open>The numbers of the tasks: counted, in the mail of the ingestor, on the way to it, in the mail of the
  processor, on the way to it.\<close>

definition located :: "codec_env \<Rightarrow> pair_ids \<Rightarrow> pipe \<Rightarrow> nat list \<Rightarrow> nat list \<Rightarrow> nat list \<Rightarrow> nat list \<Rightarrow> nat list \<Rightarrow> bool" where
  "located env ids s counted in_a to_a in_b to_b \<longleftrightarrow>
     acks s = map ack_of counted \<and> processed s = length counted
     \<and> map fst (mail (node_a s) ''ingestor'') = map ack_of in_a
     \<and> list_all2 (carries env) (wire_ba s) (map ack_of to_a) \<and> frames_for (a_nid ids) ''ingestor'' (wire_ba s) = wire_ba s
     \<and> map fst (mail (node_b s) ''processor'') = map task_msg in_b
     \<and> list_all2 (carries env) (wire_ab s) (map task_msg to_b) \<and> frames_for (b_nid ids) ''processor'' (wire_ab s) = wire_ab s"

definition pipe_inv :: "codec_env \<Rightarrow> pair_ids \<Rightarrow> pipe \<Rightarrow> nat list \<Rightarrow> nat list \<Rightarrow> nat list \<Rightarrow> nat list \<Rightarrow> nat list \<Rightarrow> bool" where
  "pipe_inv env ids s counted in_a to_a in_b to_b \<longleftrightarrow> located env ids s counted in_a to_a in_b to_b
     \<and> serves env ''ingestor'' (node_a s) \<and> serves env ''processor'' (node_b s)
     \<and> subseq (counted @ in_a @ to_a @ in_b @ to_b) [0..<next_task s]
     \<and> (\<not> faulty s \<longrightarrow> counted @ in_a @ to_a @ in_b @ to_b = [0..<next_task s])"

lemma serves_same: "serves env name n \<Longrightarrow> same_node n n' \<Longrightarrow> healthy n' \<Longrightarrow> serves env name n'"
  by (simp add: serves_def same_node_fields)

lemma frames_for_append: "frames_for p name (xs @ ys) = frames_for p name xs @ frames_for p name ys"
  by (simp add: frames_for_def)

lemma new_frames_append: "outbox n' = outbox n @ fs \<Longrightarrow> new_frames n n' = fs"
  by (simp add: new_frames_def)

lemma subseq_carries: "subseq fs gs \<Longrightarrow> list_all2 (carries env) gs (map h vs) \<Longrightarrow> \<exists>us. subseq us vs \<and> list_all2 (carries env) fs (map h us)"
proof (induction arbitrary: vs rule: list_emb.induct)
  case (list_emb_Nil ys)
  then show ?case by (intro exI [of _ "[]"]) simp
next
  case (list_emb_Cons xs ys y)
  then obtain v vs' where vs: "vs = v # vs'" "list_all2 (carries env) ys (map h vs')" by (cases vs) auto
  from list_emb_Cons.IH [OF vs(2)] obtain us where "subseq us vs'" "list_all2 (carries env) xs (map h us)" by blast
  then show ?case using vs(1) by (intro exI [of _ us]) (simp add: list_emb.intros(2))
next
  case (list_emb_Cons2 x y xs ys)
  then obtain v vs' where vs: "vs = v # vs'" "carries env y (h v)" "list_all2 (carries env) ys (map h vs')" by (cases vs) auto
  from list_emb_Cons2.IH [OF vs(3)] obtain us where "subseq us vs'" "list_all2 (carries env) xs (map h us)" by blast
  then show ?case using vs list_emb_Cons2.hyps(1) by (intro exI [of _ "v # us"]) simp
qed

lemma subseq_frames_for: "subseq fs gs \<Longrightarrow> frames_for p name gs = gs \<Longrightarrow> frames_for p name fs = fs"
  unfolding frames_for_def filter_id_conv by (auto elim!: list_emb_set)


subsection \<open>Every step keeps it\<close>

lemma accepted_frame:
  assumes "serves env name n" "send n (RemoteRef peer dst) msg None None = (Inr (), n')" "portable env msg" "parse peer = Inr p"
  obtains f where "serves env name n'" "mail n' = mail n" "new_frames n n' = [f]" "carries env f (untuple msg)"
    "frames_for p dst [f] = [f]"
proof -
  have h: "healthy n" "codec_of n = env" using assms(1) by (simp_all add: serves_def)
  have "can_send n peer msg None" by (rule accepted_can_send) (use assms(2,3) h in simp_all)
  then obtain n1 j i where n1: "send_remote n peer dst msg None None = (Inr (), n1)" "same_node n n1" "healthy n1" "mail n1 = mail n"
    "outbox n1 = outbox n @ [Data_frame p dst j i None None]" "decode_payload (codec_of n) (json_to_py j) = Inr (untuple msg)"
    by (rule remote_send [OF h(1) _ assms(4)])
  have eq: "n1 = n'" using n1(1) assms(2) by simp
  show thesis
    by (rule that [of "Data_frame p dst j i None None"])
      (use n1 h eq serves_same [OF assms(1)] new_frames_append [OF n1(5)] in \<open>simp_all add: frames_for_def\<close>)
qed

lemma inv_task:
  assumes "pipe_inv env ids s cs ia ta ib tb" "parse (b_id ids) = Inr (b_nid ids)" "portable env (task_msg (next_task s))"
    "send (node_a s) (RemoteRef (b_id ids) ''processor'') (task_msg (next_task s)) None None = (Inr (), a)"
  shows "pipe_inv env ids (s\<lparr>node_a := a, wire_ab := wire_ab s @ new_frames (node_a s) a, next_task := next_task s + 1\<rparr>)
    cs ia ta ib (tb @ [next_task s])"
proof -
  have "serves env ''ingestor'' (node_a s)" using assms(1) by (simp add: pipe_inv_def)
  then obtain f where f: "serves env ''ingestor'' a" "mail a = mail (node_a s)" "new_frames (node_a s) a = [f]"
    "carries env f (untuple (task_msg (next_task s)))" "frames_for (b_nid ids) ''processor'' [f] = [f]"
    by (rule accepted_frame [OF _ assms(4,3,2)])
  have "carries env f (task_msg (next_task s))" using f(4) by (simp add: task_msg_def)
  moreover have "subseq (cs @ ia @ ta @ ib @ tb @ [next_task s]) ([0..<next_task s] @ [next_task s])"
    using list_emb_append_mono [of "(=)" "cs @ ia @ ta @ ib @ tb" "[0..<next_task s]" "[next_task s]" "[next_task s]"] assms(1)
    by (simp add: pipe_inv_def)
  ultimately show ?thesis using assms(1) f
    by (simp add: pipe_inv_def located_def list_all2_appendI frames_for_append)
qed

lemma inv_reach:
  assumes "serves env name n" "list_all2 (carries env) (f # fs) (map h (v # vs))" "frames_for p name (f # fs) = f # fs"
    "map fst (mail n name) = map h us"
  obtains n' where "arrive_frame src p from_peer f n = n'" "serves env name n'" "map fst (mail n' name) = map h (us @ [v])"
    "list_all2 (carries env) fs (map h vs)" "frames_for p name fs = fs"
proof -
  have "f \<in> set (frames_for p name (f # fs))" using assms(3) by simp
  then obtain j i r k where f: "f = Data_frame p name j i r k" unfolding frames_for_def set_filter by (cases f) simp_all
  have s: "healthy n" "codec_of n = env" "name \<in> dom (map_of (mailboxes n))" using assms(1) by (simp_all add: serves_def)
  have "decode_payload (codec_of n) (json_to_py j) = Inr (h v)" using assms(2) f s(2) by simp
  then obtain n' where n': "arrive_frame src p from_peer f n = n'" "same_node n n'" "healthy n'"
    "mail n' = (mail n)(name := mail n name @ [(h v, \<lparr>m_src = Some src, m_reply_to = r, m_correlation_id = k, m_msg_id = Some i\<rparr>)])"
    unfolding f by (rule frame_arrives [OF s(1,3)])
  show thesis
    by (rule that [OF n'(1) serves_same [OF assms(1) n'(2,3)]]) (use n'(4) assms f in \<open>simp_all add: frames_for_def\<close>)
qed

lemma located_heads:
  assumes "located env ids s cs ia ta ib tb"
  shows "wire_ab s = f # fs \<Longrightarrow> \<exists>v vs. tb = v # vs" "wire_ba s = f # fs \<Longrightarrow> \<exists>v vs. ta = v # vs"
    "mail (node_b s) ''processor'' = m # ms \<Longrightarrow> \<exists>v vs. ib = v # vs" "mail (node_a s) ''ingestor'' = m # ms \<Longrightarrow> \<exists>v vs. ia = v # vs"
  using assms by (cases tb; cases ta; cases ib; cases ia; auto simp: located_def)+

lemma inv_reach_b:
  assumes "pipe_inv env ids s cs ia ta ib tb" "wire_ab s = f # fs"
  shows "\<exists>ib' tb'. pipe_inv env ids (s\<lparr>wire_ab := fs, node_b := arrive_frame src (b_nid ids) p f (node_b s)\<rparr>) cs ia ta ib' tb'"
proof -
  have loc: "located env ids s cs ia ta ib tb" and b: "serves env ''processor'' (node_b s)" using assms(1) by (simp_all add: pipe_inv_def)
  obtain v vs where tb: "tb = v # vs" using located_heads(1) [OF loc assms(2)] by blast
  have w: "list_all2 (carries env) (f # fs) (map task_msg (v # vs))" "frames_for (b_nid ids) ''processor'' (f # fs) = f # fs"
    "map fst (mail (node_b s) ''processor'') = map task_msg ib" using loc tb assms(2) by (auto simp: located_def)
  obtain b' where b': "arrive_frame src (b_nid ids) p f (node_b s) = b'" "serves env ''processor'' b'"
    "map fst (mail b' ''processor'') = map task_msg (ib @ [v])" "list_all2 (carries env) fs (map task_msg vs)"
    "frames_for (b_nid ids) ''processor'' fs = fs" by (rule inv_reach [OF b w])
  show ?thesis
    by (rule exI [of _ "ib @ [v]"], rule exI [of _ vs]) (use assms(1) tb b' in \<open>simp add: pipe_inv_def located_def\<close>)
qed

lemma inv_reach_a:
  assumes "pipe_inv env ids s cs ia ta ib tb" "wire_ba s = f # fs"
  shows "\<exists>ia' ta'. pipe_inv env ids (s\<lparr>wire_ba := fs, node_a := arrive_frame src (a_nid ids) p f (node_a s)\<rparr>) cs ia' ta' ib tb"
proof -
  have loc: "located env ids s cs ia ta ib tb" and a: "serves env ''ingestor'' (node_a s)" using assms(1) by (simp_all add: pipe_inv_def)
  obtain v vs where ta: "ta = v # vs" using located_heads(2) [OF loc assms(2)] by blast
  have w: "list_all2 (carries env) (f # fs) (map ack_of (v # vs))" "frames_for (a_nid ids) ''ingestor'' (f # fs) = f # fs"
    "map fst (mail (node_a s) ''ingestor'') = map ack_of ia" using loc ta assms(2) by (auto simp: located_def)
  obtain a' where a': "arrive_frame src (a_nid ids) p f (node_a s) = a'" "serves env ''ingestor'' a'"
    "map fst (mail a' ''ingestor'') = map ack_of (ia @ [v])" "list_all2 (carries env) fs (map ack_of vs)"
    "frames_for (a_nid ids) ''ingestor'' fs = fs" by (rule inv_reach [OF a w])
  show ?thesis
    by (rule exI [of _ "ia @ [v]"], rule exI [of _ vs]) (use assms(1) ta a' in \<open>simp add: pipe_inv_def located_def\<close>)
qed

text \<open>An actor takes its next message.\<close>

lemma takes_head:
  assumes "serves env name n" "take_mail name n = Some (m, n')"
  obtains ms where "mail n name = m # ms" "serves env name n'" "mail n' = (mail n)(name := ms)"
proof -
  have h: "healthy n" using assms(1) by (simp add: serves_def)
  obtain q where q: "map_of (mailboxes n) name = Some q" using assms(1) by (auto simp: serves_def)
  then obtain ms where ms: "mail n name = m # ms"
    using assms(2) by (auto simp: take_mail_def mail_def get_item_def split: list.splits)
  obtain n1 where n1: "take_mail name n = Some (m, n1)" "same_node n n1" "healthy n1" "mail n1 = (mail n)(name := ms)"
    by (rule take_mail_head [OF h ms])
  then show thesis using assms(2) ms serves_same [OF assms(1)] by (intro that) simp_all
qed

lemma processor_task:
  "processor_receive peer n (task_msg i) =
     and_then (send n (RemoteRef peer ''ingestor'') (ack_of i) None None) (\<lambda>_ n. (Inr (status_reply ''processed''), n))"
  by (simp add: processor_receive_def task_msg_def ack_of_def get_or_def)

lemma inv_process:
  assumes "pipe_inv env ids s cs ia ta ib tb" "parse (a_id ids) = Inr (a_nid ids)" "\<forall>i < next_task s. portable env (ack_of i)"
    "take_mail ''processor'' (node_b s) = Some ((m, mt), b1)" "processor_receive (a_id ids) b1 m = (r, b2)"
  shows "\<exists>ta' ib'. pipe_inv env ids (s\<lparr>node_b := b2, wire_ba := wire_ba s @ new_frames b1 b2, faulty := faulty s \<or> isl r\<rparr>) cs ia ta' ib' tb"
proof -
  have loc: "located env ids s cs ia ta ib tb" and b: "serves env ''processor'' (node_b s)" using assms(1) by (simp_all add: pipe_inv_def)
  obtain ms where ms: "mail (node_b s) ''processor'' = (m, mt) # ms" "serves env ''processor'' b1"
    "mail b1 = (mail (node_b s))(''processor'' := ms)" by (rule takes_head [OF b assms(4)])
  obtain v vs where ib: "ib = v # vs" using located_heads(3) [OF loc ms(1)] by blast
  then have m: "m = task_msg v" "map fst ms = map task_msg vs" using loc ms(1) by (simp_all add: located_def)
  have sub: "subseq (cs @ ia @ ta @ ib @ tb) [0..<next_task s]" using assms(1) by (simp add: pipe_inv_def)
  then have "v \<in> set [0..<next_task s]" by (rule list_emb_set [of _ _ _ v]) (simp_all add: ib)
  then have port: "portable env (ack_of v)" using assms(3) by simp
  obtain r1 n1 where sent: "send b1 (RemoteRef (a_id ids) ''ingestor'') (ack_of v) None None = (r1, n1)" by fastforce
  show ?thesis
  proof (cases r1)
    case (Inr u)
    then have r: "r = Inr (status_reply ''processed'')" "b2 = n1" using assms(5) sent by (simp_all add: m processor_task)
    obtain f where f: "serves env ''processor'' n1" "mail n1 = mail b1" "new_frames b1 n1 = [f]" "carries env f (untuple (ack_of v))"
      "frames_for (a_nid ids) ''ingestor'' [f] = [f]"
      by (rule accepted_frame [OF ms(2) _ port assms(2)]) (use sent Inr in simp_all)
    have "carries env f (ack_of v)" using f(4) by (simp add: ack_of_def ack_msg_def)
    then show ?thesis using assms(1) ib m ms f r
      by (intro exI [of _ "ta @ [v]"] exI [of _ vs]) (simp add: pipe_inv_def located_def list_all2_appendI frames_for_append)
  next
    case (Inl e)
    then have r: "r = Inl e" "b2 = n1" using assms(5) sent by (simp_all add: m processor_task)
    have sr: "send_remote b1 (a_id ids) ''ingestor'' (ack_of v) None None = (Inl e, n1)" using sent Inl by simp
    have h: "healthy b1" using ms(2) by (simp add: serves_def)
    note n1 = refused_send [OF h sr]
    have "subseq (cs @ ia @ ta @ vs @ tb) [0..<next_task s]"
    proof (rule subseq_order.trans)
      show "subseq (cs @ ia @ ta @ vs @ tb) (cs @ ia @ ta @ ib @ tb)"
        unfolding ib append_Cons by (intro list_emb_append_mono subseq_order.refl list_emb.intros(2))
    qed (rule sub)
    then show ?thesis using assms(1) ib m ms r n1 serves_same [OF ms(2) n1(1,2)]
      by (intro exI [of _ ta] exI [of _ vs]) (simp add: pipe_inv_def located_def new_frames_def)
  qed
qed

lemma inv_ingest:
  assumes "pipe_inv env ids s cs ia ta ib tb" "take_mail ''ingestor'' (node_a s) = Some ((m, mt), a)"
    "ingestor_receive m (processed s) = (r, c)"
  shows "\<exists>cs' ia'. pipe_inv env ids (s\<lparr>node_a := a, processed := c, acks := acks s @ replicate (c - processed s) m\<rparr>) cs' ia' ta ib tb"
proof -
  have loc: "located env ids s cs ia ta ib tb" and a: "serves env ''ingestor'' (node_a s)" using assms(1) by (simp_all add: pipe_inv_def)
  obtain ms where ms: "mail (node_a s) ''ingestor'' = (m, mt) # ms" "serves env ''ingestor'' a"
    "mail a = (mail (node_a s))(''ingestor'' := ms)" by (rule takes_head [OF a assms(2)])
  obtain v vs where ia: "ia = v # vs" using located_heads(4) [OF loc ms(1)] by blast
  then have m: "m = ack_of v" "map fst ms = map ack_of vs" using loc ms(1) by (simp_all add: located_def)
  then have "c = processed s + 1" using assms(3) by (simp add: ingestor_receive_def ack_of_def ack_msg_def get_or_def)
  then show ?thesis using assms(1) ia m ms
    by (intro exI [of _ "cs @ [v]"] exI [of _ vs]) (simp add: pipe_inv_def located_def)
qed

lemma inv_break:
  assumes "pipe_inv env ids s cs ia ta ib tb" "subseq ab (wire_ab s)" "subseq ba (wire_ba s)"
  shows "\<exists>ta' tb'. pipe_inv env ids (s\<lparr>wire_ab := ab, wire_ba := ba, faulty := True\<rparr>) cs ia ta' ib tb'"
proof -
  have loc: "located env ids s cs ia ta ib tb" using assms(1) by (simp add: pipe_inv_def)
  obtain ta' where ta: "subseq ta' ta" "list_all2 (carries env) ba (map ack_of ta')"
    using subseq_carries [OF assms(3), of env ack_of ta] loc by (auto simp: located_def)
  obtain tb' where tb: "subseq tb' tb" "list_all2 (carries env) ab (map task_msg tb')"
    using subseq_carries [OF assms(2), of env task_msg tb] loc by (auto simp: located_def)
  have "subseq (cs @ ia @ ta' @ ib @ tb') [0..<next_task s]"
  proof (rule subseq_order.trans)
    show "subseq (cs @ ia @ ta' @ ib @ tb') (cs @ ia @ ta @ ib @ tb)" using ta(1) tb(1) by (simp add: list_emb_append_mono)
  qed (use assms(1) in \<open>simp add: pipe_inv_def\<close>)
  moreover have "frames_for (a_nid ids) ''ingestor'' ba = ba" "frames_for (b_nid ids) ''processor'' ab = ab"
    using subseq_frames_for assms(2,3) loc by (auto simp: located_def)
  ultimately show ?thesis using assms(1) ta(2) tb(2) by (auto simp: pipe_inv_def located_def)
qed

lemma inv_restart:
  assumes "pipe_inv env ids s cs ia ta ib tb" "serves env ''processor'' b" "mail b ''processor'' = []"
  shows "pipe_inv env ids (s\<lparr>node_b := b, faulty := True\<rparr>) cs ia ta [] tb"
proof -
  have "subseq (cs @ ia @ ta @ tb) [0..<next_task s]"
  proof (rule subseq_order.trans)
    show "subseq (cs @ ia @ ta @ tb) (cs @ ia @ ta @ ib @ tb)"
      by (intro list_emb_append_mono subseq_order.refl subseq_drop_many)
  qed (use assms(1) in \<open>simp add: pipe_inv_def\<close>)
  with assms show ?thesis by (simp add: pipe_inv_def located_def)
qed

lemma inv_refused:
  assumes "pipe_inv env ids s cs ia ta ib tb" "send (node_a s) (RemoteRef p d) msg None None = (Inl e, a)"
  shows "pipe_inv env ids (s\<lparr>node_a := a, next_task := next_task s + 1, faulty := True\<rparr>) cs ia ta ib tb"
proof -
  have a: "serves env ''ingestor'' (node_a s)" using assms(1) by (simp add: pipe_inv_def)
  then have h: "healthy (node_a s)" by (simp add: serves_def)
  have "send_remote (node_a s) p d msg None None = (Inl e, a)" using assms(2) by simp
  note r = refused_send [OF h this]
  have "subseq (cs @ ia @ ta @ ib @ tb) ([0..<next_task s] @ [next_task s])"
    using assms(1) by (intro subseq_rev_drop_many) (simp add: pipe_inv_def)
  then show ?thesis using assms(1) r(3) serves_same [OF a r(1,2)] by (simp add: pipe_inv_def located_def)
qed

lemma pipe_inv_step:
  assumes "pipe_inv env ids s cs ia ta ib tb" "pipe_step env ids limit s s'" "next_task s \<le> limit"
    "parse (a_id ids) = Inr (a_nid ids)" "parse (b_id ids) = Inr (b_nid ids)"
    "\<forall>i < limit. portable env (task_msg i) \<and> portable env (ack_of i)"
  shows "\<exists>cs ia ta ib tb. pipe_inv env ids s' cs ia ta ib tb"
  using assms(2)
proof cases
  case (task a)
  with assms(6) show ?thesis using inv_task [OF assms(1,5) _ task(3)] by blast
next
  case (refused e a)
  with inv_refused [OF assms(1) refused(3)] show ?thesis by blast
next
  case (reach_b f fs)
  with inv_reach_b [OF assms(1) reach_b(2)] show ?thesis by blast
next
  case (process m mt b1 r b2)
  with inv_process [OF assms(1,4) _ process(2,3)] assms(3,6) show ?thesis by (meson less_le_trans)
next
  case (reach_a f fs)
  with inv_reach_a [OF assms(1) reach_a(2)] show ?thesis by blast
next
  case (ingest m mt a r c)
  with inv_ingest [OF assms(1) ingest(2,3)] show ?thesis by blast
next
  case (reconnect a b)
  with assms(1) have "pipe_inv env ids s' cs ia ta ib tb" by (simp add: pipe_inv_def located_def)
  then show ?thesis by blast
next
  case (break ab ba)
  with inv_break [OF assms(1) break(2,3)] show ?thesis by blast
next
  case (restart b)
  with inv_restart [OF assms(1) restart(2,3)] show ?thesis by blast
qed

lemma pipe_step_bound: "pipe_step env ids limit s s' \<Longrightarrow> next_task s \<le> limit \<Longrightarrow> next_task s' \<le> limit"
  by (erule pipe_step.cases) auto

lemma pipe_run_inv:
  assumes "pipe_run env ids limit s" "parse (a_id ids) = Inr (a_nid ids)" "parse (b_id ids) = Inr (b_nid ids)"
    "\<forall>i < limit. portable env (task_msg i) \<and> portable env (ack_of i)"
  shows "next_task s \<le> limit \<and> (\<exists>cs ia ta ib tb. pipe_inv env ids s cs ia ta ib tb)"
  using assms(1)
proof induction
  case (fresh_pair s)
  then have "pipe_inv env ids s [] [] [] [] []" by (simp add: pipe_inv_def located_def frames_for_def)
  then show ?case using fresh_pair(7) by (intro conjI exI) simp_all
next
  case (more s s')
  then show ?case using pipe_step_bound pipe_inv_step [OF _ _ _ assms(2-4)] by blast
qed

text \<open>C12. The pipeline between the two nodes. In every run, with refused sends, broken connections and a
  restarted peer anywhere in it, the acknowledgements that were counted are those of distinct tasks
  in the order of the tasks, each with twice the number of its task, and there are as many of them as the count says, never more than tasks
  were sent. When nothing went wrong, no message is lost or overtaken: once nothing is under way, every task that was sent
  has been counted.\<close>

theorem pipeline_counts_tasks:
  assumes "pipe_run env ids limit s" and "parse (a_id ids) = Inr (a_nid ids)" and "parse (b_id ids) = Inr (b_nid ids)"
    and "\<forall>i < limit. portable env (task_msg i) \<and> portable env (ack_of i)"
  shows "\<exists>cs. acks s = map (\<lambda>i. ack_msg (PInt (int i * 2))) cs \<and> processed s = length cs \<and> subseq cs [0..<next_task s]
    \<and> processed s \<le> next_task s \<and> next_task s \<le> limit
    \<and> (\<not> faulty s \<longrightarrow> (\<exists>rest. cs @ rest = [0..<next_task s]))
    \<and> (\<not> faulty s \<and> wire_ab s = [] \<and> wire_ba s = [] \<and> mail (node_a s) ''ingestor'' = [] \<and> mail (node_b s) ''processor'' = []
        \<longrightarrow> processed s = next_task s)"
proof -
  obtain cs ia ta ib tb where i: "pipe_inv env ids s cs ia ta ib tb" and n: "next_task s \<le> limit"
    using pipe_run_inv [OF assms] by blast
  have loc: "located env ids s cs ia ta ib tb" and sub: "subseq (cs @ ia @ ta @ ib @ tb) [0..<next_task s]"
    and exact: "\<not> faulty s \<Longrightarrow> cs @ ia @ ta @ ib @ tb = [0..<next_task s]" using i by (simp_all add: pipe_inv_def)
  have c: "subseq cs [0..<next_task s]"
    by (rule subseq_order.trans [OF _ sub]) (intro subseq_rev_drop_many subseq_order.refl)
  then have "length cs \<le> next_task s" using list_emb_length [OF c] by simp
  moreover have "processed s = next_task s" if "\<not> faulty s" "wire_ab s = []" "wire_ba s = []" "mail (node_a s) ''ingestor'' = []"
    "mail (node_b s) ''processor'' = []"
  proof -
    have "ia = [] \<and> ta = [] \<and> ib = [] \<and> tb = []" using loc that(2-) by (simp add: located_def)
    then have "length cs = length [0..<next_task s]" using exact [OF that(1)] by simp
    then show ?thesis using loc by (simp add: located_def)
  qed
  ultimately show ?thesis using loc n c exact by (intro exI [of _ cs]) (auto simp: located_def ack_of_def)
qed

definition demo_pair :: pair_ids where
  "demo_pair = \<lparr>a_id = ''api@h:1'', b_id = ''ful@h:2'', a_nid = demo_id ''api'' 1, b_nid = demo_id ''ful'' 2\<rparr>"

text \<open>Two nodes as the programs bring them up, once they are connected, after the first task was sent.\<close>

lemma demo_pipe: "\<exists>s. pipe_run sample_env demo_pair 1 s \<and> next_task s = 1 \<and> \<not> faulty s"
proof -
  obtain a where a: "fresh sample_env (\<lambda>_. 10) (demo_id ''api'' 1) {''ingestor''} a"
    by (rule demo_up [OF demo_ids(1), of "[''ingestor'']"]) simp_all
  obtain b where b: "fresh sample_env (\<lambda>_. 10) (demo_id ''ful'' 2) {''processor''} b"
    by (rule demo_up [OF demo_ids(2), of "[''processor'']"]) simp_all
  let ?a = "joined [demo_id ''ful'' 2] a" and ?b = "joined [demo_id ''api'' 1] b"
  note ja = joined_fresh [OF a, of "[demo_id ''ful'' 2]"] and jb = joined_fresh [OF b, of "[demo_id ''api'' 1]"]
  let ?s = "\<lparr>node_a = ?a, node_b = ?b, wire_ab = [], wire_ba = [], next_task = 0, processed = 0, acks = [], faulty = False\<rparr>"
  have run: "pipe_run sample_env demo_pair 1 ?s" by (rule pipe_run.fresh_pair) (use ja jb in \<open>simp_all add: serves_def\<close>)
  have "can_send ?a ''ful@h:2'' (task_msg 0) None"
    by (rule joined_can_send [OF a demo_ids(2)])
      (simp_all add: MAX_FRAME_SIZE_def u64_none task_msg_def sample_env_def plain_builtin_def RESERVED_def i64_or_u64_def)
  then obtain a' where a': "send_remote ?a ''ful@h:2'' ''processor'' (task_msg 0) None None = (Inr (), a')"
    by (rule remote_send [OF ja(1) _ demo_ids(2)])
  have "pipe_step sample_env demo_pair 1 ?s (?s\<lparr>node_a := a', wire_ab := wire_ab ?s @ new_frames (node_a ?s) a', next_task := next_task ?s + 1\<rparr>)"
    by (rule pipe_step.task) (use a' in \<open>simp_all add: demo_pair_def\<close>)
  note more = pipe_run.more [OF run this]
  show ?thesis by (intro exI conjI) (rule more, simp_all)
qed

theorem pipeline_counts_tasks_witness: "\<exists>s cs rest. pipe_run sample_env demo_pair 1 s \<and> next_task s = 1 \<and> processed s = length cs \<and> cs @ rest = [0 :: nat]"
proof -
  obtain s where s: "pipe_run sample_env demo_pair 1 s" "next_task s = 1" "\<not> faulty s" using demo_pipe by blast
  have "\<forall>i < 1. portable sample_env (task_msg i) \<and> portable sample_env (ack_of i)"
    by (simp add: task_msg_def ack_of_def ack_msg_def sample_env_def plain_builtin_def RESERVED_def i64_or_u64_def)
  from pipeline_counts_tasks [OF s(1) _ _ this] s(2,3) demo_ids(1,2) obtain cs rest where "processed s = length cs" "cs @ rest = [0..<1]"
    by (auto simp: demo_pair_def)
  moreover have "[0..<1] = [0 :: nat]" by simp
  ultimately show ?thesis using s(1,2) by metis
qed

end
