(* ===== verification/Hub.thy ===== *)
theory Hub
  imports Startup Nested Node_Steps
begin

text \<open>
  The example \<^verbatim>\<open>cluster_supervision\<close>: a hub that links, monitors and looks up the workers of its peers, and
  workers that crash for good. The last part composes the modules: what one permanent crash on a
  worker node does to the tables and the mailbox of the hub.
\<close>

subsection \<open>The worker node\<close>

definition task_worker_receive :: "bool \<Rightarrow> int \<Rightarrow> node \<times> nat \<Rightarrow> unit res \<times> node \<times> nat" where
  "task_worker_receive primary crash_after = (\<lambda>(n, count).
     case (if count = 0
           then and_then (join_group n ''workers'' None (Some ''task_worker'')) (\<lambda>_ n.
                  if primary then register_name n ''task_worker_primary'' None (Some ''task_worker'') else (Inr (), n))
           else (Inr (), n)) of
       (Inl e, n) \<Rightarrow> (Inl e, n, count)
     | (Inr _, n) \<Rightarrow>
         let count = count + 1
         in if crash_after < int count
            then (Inl (RuntimeError (''fallo permanente tras '' @ show_nat count @ '' tareas'')), n, count)
            else (Inr (), n, count))"

definition cluster_modules :: "sys \<Rightarrow> unit res \<times> sys" where
  "cluster_modules sy =
     and_then (register_links sy) (\<lambda>_ sy. and_then (register_monitors sy) (\<lambda>_ sy.
     and_then (register_groups sy) (\<lambda>_ sy. and_then (register_registry sy) (\<lambda>_ sy. (Inr (), sy)))))"

text \<open>\<^verbatim>\<open>Supervisor(node=node, max_restarts=0)\<close>.\<close>

definition final_supervisor :: sup where
  "final_supervisor = default_supervisor\<lparr>sup_budget := \<lparr>max_restarts = 0, restart_window = 5, restart_times = []\<rparr>\<rparr>"

fun feed_tasks :: "(nat \<Rightarrow> sys \<Rightarrow> sys) \<Rightarrow> nat list \<Rightarrow> sys \<Rightarrow> unit res \<times> sys" where
  "feed_tasks asleep [] sy = (Inr (), sy)"
| "feed_tasks asleep (i # is) (n, s) =
     (case send n (ActorRef ''task_worker'') (PDict []) None None of
        (Inr _, n) \<Rightarrow> feed_tasks asleep is (asleep i (n, s))
      | (Inl e, n) \<Rightarrow> if exn_type e = ''ValueError'' then (Inr (), (n, s)) else (Inl e, (n, s)))"

definition worker_node_main ::
  "codec_env \<Rightarrow> (json \<Rightarrow> nat) \<Rightarrow> string + 16 word \<Rightarrow> string \<Rightarrow> (sys \<Rightarrow> sys) \<Rightarrow> (nat \<Rightarrow> sys \<Rightarrow> sys) \<Rightarrow> unit res \<times> sys" where
  "worker_node_main env len bound node_name wait_for_hub asleep =
     and_then (on_node (start len bound) (new_node env node_name None, final_supervisor)) (\<lambda>_ sy.
     and_then (cluster_modules sy) (\<lambda>_ sy.
     and_then (spawn ''task_worker'' sy) (\<lambda>_ sy. feed_tasks asleep [0..<10] (wait_for_hub sy))))"

subsection \<open>The hub\<close>

definition watcher_class :: actor_class where
  "watcher_class = \<lparr>class_name = ''Watcher'', class_attrs =
     [(''on_down'', Some \<lparr>spec_type = Some Down_cls, spec_default = False\<rparr>),
      (''on_exit'', Some \<lparr>spec_type = Some Exit_cls, spec_default = False\<rparr>),
      (''on_setup'', Some \<lparr>spec_type = None, spec_default = True\<rparr>)]\<rparr>"

text \<open>The loop of \<^verbatim>\<open>on_setup\<close>; \<open>refs\<close> are the references that \<^verbatim>\<open>monitor\<close> draws.\<close>

fun watch_all :: "(string \<times> string) list \<Rightarrow> node \<Rightarrow> unit res \<times> node" where
  "watch_all [] n = (Inr (), n)"
| "watch_all ((peer_id, ref) # rest) n =
     and_then (link n (Some ''watcher'') (RemoteRef peer_id ''task_worker'')) (\<lambda>_ n.
     and_then (monitor ref n (Some ''watcher'') (RemoteRef peer_id ''task_worker'')) (\<lambda>_ n. watch_all rest n))"

definition on_setup :: "(string \<times> string) list \<Rightarrow> node \<Rightarrow> unit res \<times> node" where
  "on_setup peers n = and_then (trap_exit n (Some ''watcher'') True) (\<lambda>_ n. watch_all peers n)"

text \<open>The other two handlers only print.\<close>

definition watcher_receive :: "(string \<times> string) list \<Rightarrow> node \<Rightarrow> pyval \<Rightarrow> unit res \<times> node" where
  "watcher_receive peers n msg =
     (case res_bind (actor (Some ''watcher'') watcher_class) (\<lambda>m. dispatch watcher_class m (type_of msg)) of
        Inl e \<Rightarrow> (Inl e, n)
      | Inr h \<Rightarrow> if h = ''on_setup'' then on_setup peers n else (Inr (), n))"

lemma watcher_dispatch:
  "watcher_receive peers n (Exit_msg a r) = (Inr (), n)" "watcher_receive peers n (Down_msg ref a r) = (Inr (), n)"
  "watcher_receive peers n (PDict d) = on_setup peers n"
  by (simp_all add: watcher_receive_def actor_def build_metadata_def watcher_class_def dispatch_def Exit_msg_def Down_msg_def
      Exit_cls_def Down_cls_def)

definition build_watch_tree :: recipe where
  "build_watch_tree sy = and_then (spawn ''watcher'' sy) (\<lambda>_ sy. (Inr (), sy))"

fun connect_all :: "(string \<Rightarrow> nat \<Rightarrow> dial_events) \<Rightarrow> string list \<Rightarrow> node \<Rightarrow> unit res \<times> node" where
  "connect_all attempts [] n = (Inr (), n)"
| "connect_all attempts (w # ws) n =
     and_then (connect_retry (''no se pudo conectar con '' @ py_repr w) (map (attempts w) [0..<30]) n w)
       (\<lambda>_ n. connect_all attempts ws n)"

text \<open>The hub up to its polling loop. The task of the nested supervisor runs during the sleep; without a
  watcher the lookup of its reference raises.\<close>

definition hub_main ::
  "codec_env \<Rightarrow> (json \<Rightarrow> nat) \<Rightarrow> string + 16 word \<Rightarrow> string \<Rightarrow> string \<Rightarrow> (string \<Rightarrow> nat \<Rightarrow> dial_events) \<Rightarrow> rat \<Rightarrow> unit res \<times> sys" where
  "hub_main env len bound node_name workers attempts now =
     and_then (on_node (start len bound) (new_node env node_name None, default_supervisor)) (\<lambda>_ sy.
     and_then (cluster_modules sy) (\<lambda>_ sy.
     and_then (on_node (connect_all attempts (names_in workers)) sy) (\<lambda>_ sy.
       case spawn_supervisor ''watch_tree'' sy of (i, sy) \<Rightarrow>
       (case begin_nested now \<lparr>nested_strategy = ''one_for_one'', nested_max_restarts = 3, nested_window = 5\<rparr> build_watch_tree i sy of
          (sub, (n, s)) \<Rightarrow>
            if map_of (phases s) i = Some Driving
            then on_node (\<lambda>n. send n (ActorRef ''watcher'') (PDict [(''setup'', PBool True)]) None None) (n, s)
            else (Inl (KeyError (py_repr ''ref'')), (n, s))))))"

fun member_label :: "node \<Rightarrow> actor_ref \<Rightarrow> string" where
  "member_label n (RemoteRef peer_id a) = peer_id @ ''/'' @ a"
| "member_label n (ActorRef name) = local_id n @ ''/'' @ name"

definition poll :: "node \<Rightarrow> string list \<times> string option" where
  "poll n = (sort (map (member_label n) (members n ''workers'')), map_option (member_label n) (whereis_name n ''task_worker_primary''))"

subsection \<open>Signals\<close>

text \<open>The background tasks of the worker node that send one message to a reserved actor of a peer: the peer,
  the actor and the message.\<close>

fun signal :: "string \<Rightarrow> task \<Rightarrow> (string \<times> string \<times> pyval) option" where
  "signal me (Notify_remote_exit peer target a reason) = Some (peer, LINK_ACTOR, exit_request target a reason me)"
| "signal me (Notify_remote_down peer ref a reason) = Some (peer, MONITOR_ACTOR, down_request ref a reason me)"
| "signal me (Send_group_delta peer g m verb) = Some (peer, GROUPS_ACTOR, group_delta_msg g m verb)"
| "signal me (Send_registry_delta peer k p verb) = Some (peer, REGISTRY_ACTOR, registry_delta_msg k p verb)"
| "signal me _ = None"

lemma run_signal: "signal (local_id n) t = Some (peer, dst, msg) \<Longrightarrow> run_task t n = snd (send_remote n peer dst msg None None)"
  by (cases t) (auto simp: notify_remote_exit_def notify_remote_down_def)

lemma send_effect:
  assumes "can_send n peer msg corr" "parse peer = Inr p" "core n = Some c"
  obtains j i c' where "send_remote n peer dst msg r corr = (Inr (), n\<lparr>core := Some c'\<rparr>)" "same_core c c'"
    "core_out c' = core_out c @ [Data_frame p dst j i r corr]" "decode_payload (codec_of n) (json_to_py j) = Inr (untuple msg)"
proof -
  from assms obtain e j where c: "core_running c" "portable (codec_of n) msg" "u64_arg corr = Inr ()"
    "p \<in> set (core_peers c)" "p \<notin> set (core_closed c)" "encode_payload (codec_of n) msg = Inr e" "py_to_json e = Inr j"
    "json_len c j \<le> MAX_FRAME_SIZE" "decode_payload (codec_of n) (json_to_py j) = Inr (untuple msg)"
    by (auto elim!: can_sendD)
  note s = send_remote_accepted [OF assms(3) c(1,6,7) assms(2) c(4,5,8,3), of dst r]
  show thesis by (rule that [OF s _ _ c(9)]) (simp_all add: same_core_def)
qed

definition signal_frame :: "codec_env \<Rightarrow> nodeid \<Rightarrow> frame \<Rightarrow> string \<times> pyval \<Rightarrow> bool" where
  "signal_frame env p f x \<longleftrightarrow> frames_for p (fst x) [f] = [f] \<and> carries env f (snd x)"

lemma signals_flush:
  assumes "core n = Some c" "parse hub = Inr p" "tasks n = map fst txs"
    "\<forall>(t, dst, msg) \<in> set txs. signal (local_id n) t = Some (hub, dst, msg) \<and> can_send n hub msg None \<and> untuple msg = msg"
  shows "\<exists>c' fs. run_loop (length txs) n = n\<lparr>core := Some c', tasks := []\<rparr> \<and> core_out c' = core_out c @ fs
    \<and> list_all2 (signal_frame (codec_of n) p) fs (map snd txs)"
  using assms
proof (induction txs arbitrary: n c)
  case (Cons x txs)
  obtain t dst msg where x: "x = (t, dst, msg)" by (cases x)
  let ?n = "n\<lparr>tasks := map fst txs\<rparr>"
  have "local_id ?n = local_id n" by (simp add: local_id_def split: option.split)
  then have t: "signal (local_id ?n) t = Some (hub, dst, msg)" "can_send n hub msg None" "untuple msg = msg"
    using Cons.prems(4) x by simp_all
  have core: "core ?n = Some c" using Cons.prems(1) by simp
  have "can_send ?n hub msg None" using t(2) can_send_cong [OF Cons.prems(1) core, of hub msg None] by simp
  then obtain j i c1 where s: "send_remote ?n hub dst msg None None = (Inr (), ?n\<lparr>core := Some c1\<rparr>)" "same_core c c1"
    "core_out c1 = core_out c @ [Data_frame p dst j i None None]" "decode_payload (codec_of ?n) (json_to_py j) = Inr (untuple msg)"
    by (rule send_effect [OF _ Cons.prems(2) core])
  let ?m = "?n\<lparr>core := Some c1\<rparr>"
  have step: "run_loop (length (x # txs)) n = run_loop (length txs) ?m"
    using Cons.prems(3) x run_signal [OF t(1)] s(1) by (simp add: loop_step_def)
  have id: "local_id ?m = local_id n" using s(2) Cons.prems(1) by (simp add: local_id_def same_core_def)
  have "core ?m = Some c1" by simp
  then have can: "can_send ?m hub m None = can_send n hub m None" for m
    by (rule can_send_cong [OF Cons.prems(1)]) (use s(2) in \<open>simp_all add: same_core_def\<close>)
  have "\<exists>c' fs. run_loop (length txs) ?m = ?m\<lparr>core := Some c', tasks := []\<rparr> \<and> core_out c' = core_out c1 @ fs
      \<and> list_all2 (signal_frame (codec_of ?m) p) fs (map snd txs)"
    by (rule Cons.IH) (use Cons.prems(2,4) id can in auto)
  then obtain c' fs where "run_loop (length txs) ?m = ?m\<lparr>core := Some c', tasks := []\<rparr>" "core_out c' = core_out c1 @ fs"
    "list_all2 (signal_frame (codec_of n) p) fs (map snd txs)" by auto
  moreover have "signal_frame (codec_of n) p (Data_frame p dst j i None None) (dst, msg)"
    using s(4) t(3) by (simp add: signal_frame_def frames_for_def)
  ultimately show ?case using step s(3) x
    by (intro exI [of _ c'] exI [of _ "Data_frame p dst j i None None # fs"]) simp
next
  case (Nil n c)
  then have "n = n\<lparr>core := Some c, tasks := []\<rparr>" by (cases n) simp
  then show ?case by (intro exI [of _ c] exI [of _ "[]"]) simp
qed

text \<open>The hub takes a signal: the frame arrives and the reserved actor has its turn.\<close>

definition reserved :: "string \<Rightarrow> node \<Rightarrow> pyval \<Rightarrow> unit res \<times> node" where
  "reserved dst =
     (if dst = LINK_ACTOR then link_receive else if dst = MONITOR_ACTOR then monitor_receive
      else if dst = GROUPS_ACTOR then groups_receive else registry_receive)"

fun take_signal :: "string \<Rightarrow> nodeid \<Rightarrow> nodeid \<Rightarrow> frame \<Rightarrow> node \<Rightarrow> node" where
  "take_signal src p from_peer (Data_frame p' dst j i r k) h =
     snd (turn dst (reserved dst) (arrive_frame src p from_peer (Data_frame p' dst j i r k) h))"
| "take_signal src p from_peer f h = h"

lemma dict_set_same: "map_of d k = Some v \<Longrightarrow> dict_set k v d = d"
  by (induction d) auto

lemma dict_set_again: "dict_set k v (dict_set k w d) = dict_set k v d"
  by (induction d) auto

lemma signal_taken:
  assumes "healthy h" "dst \<in> dom (map_of (mailboxes h))" "mail h dst = []" "signal_frame (codec_of h) p f (dst, msg)"
  shows "take_signal src p from_peer f h = snd (reserved dst h msg)"
proof -
  obtain j i r k where f: "f = Data_frame p dst j i r k" and dec: "decode_payload (codec_of h) (json_to_py j) = Inr msg"
    using assms(4) by (cases f) (auto simp: signal_frame_def frames_for_def split: if_splits)
  obtain q where q: "map_of (mailboxes h) dst = Some q" using assms(2) by auto
  have empty: "items (queue_at h q) = []" using assms(3) q by (simp add: mail_def)
  have wf: "node_wf h" "maxsize (queue_at h q) \<le> 0" using assms(1) q by (auto simp: healthy_def ran_def)
  then obtain x where x: "map_of (queues h) q = Some x" using node_wf_mailbox_key [OF wf(1) q] by (cases "map_of (queues h) q") (auto simp: map_of_eq_None_iff)
  then have at: "queue_at h q = x" by (simp add: queue_at_def get_or_def)
  let ?m = "(msg, \<lparr>m_src = Some src, m_reply_to = r, m_correlation_id = k, m_msg_id = Some i\<rparr>)"
  have "arrive_frame src p from_peer f h = h\<lparr>queues := dict_set q (x\<lparr>items := [?m]\<rparr>) (queues h)\<rparr>"
    using arrive_delivers [OF wf(1) q _ dec, of from_peer src i r k] wf(2) empty by (simp add: f at queue_full_def)
  moreover have "take_mail dst (h\<lparr>queues := dict_set q (x\<lparr>items := [?m]\<rparr>) (queues h)\<rparr>) = Some (?m, h)"
    using q x empty at by (simp add: take_mail_def get_item_def queue_at_def dict_set_again dict_set_same)
  ultimately show ?thesis by (simp add: f turn_def)
qed

subsection \<open>A crash for good\<close>

lemma clear_groups_peers [simp]:
  "registry_peers (clear_groups n a) = registry_peers n" "registry_release_hook (clear_groups n a) = registry_release_hook n"
  "codec_of (clear_groups n a) = codec_of n"
proof -
  have "registry_peers (fold (leave_on_exit t) gs n) = registry_peers n
      \<and> registry_release_hook (fold (leave_on_exit t) gs n) = registry_release_hook n \<and> codec_of (fold (leave_on_exit t) gs n) = codec_of n" for t gs
    by (induction gs arbitrary: n) (simp_all add: leave_on_exit_def Let_def group_broadcast_def create_tasks_def split: option.split)
  then show "registry_peers (clear_groups n a) = registry_peers n" "registry_release_hook (clear_groups n a) = registry_release_hook n"
    "codec_of (clear_groups n a) = codec_of n" by (simp_all add: clear_groups_def Let_def)
qed

lemma clear_registry_codec [simp]: "codec_of (clear_registry n a) = codec_of n"
proof -
  have "codec_of (fold (release_on_exit a) ks n) = codec_of n" for ks
    by (induction ks arbitrary: n) (simp_all add: release_on_exit_def Let_def registry_broadcast_def create_tasks_def split: option.split)
  then show ?thesis by (simp add: clear_registry_def)
qed

lemma unregister_more [simp]:
  "registry_peers (snd (unregister_actor n a)) = registry_peers n" "group_peers (snd (unregister_actor n a)) = group_peers n"
  "registry_release_hook (snd (unregister_actor n a)) = registry_release_hook n" "codec_of (snd (unregister_actor n a)) = codec_of n"
  "group_leave_hook (snd (unregister_actor n a)) = group_leave_hook n" "tasks (snd (unregister_actor n a)) = tasks n"
  by (simp_all add: unregister_actor_def split: option.split prod.split)

text \<open>The worker before the crash: it is in one group, owns one name, and is linked and monitored by one actor
  of the hub.\<close>

definition watched :: "string \<Rightarrow> string \<Rightarrow> string \<Rightarrow> string \<Rightarrow> string \<Rightarrow> string \<Rightarrow> node \<Rightarrow> bool" where
  "watched hub w ref g k tw n \<longleftrightarrow> names_wf n \<and> tasks n = [] \<and> group_leave_hook n \<and> registry_release_hook n
     \<and> group_peers n = Some [hub] \<and> registry_peers n = Some [hub]
     \<and> get_or [] (links n) tw = [(Some hub, w)] \<and> get_or [] (monitor_watchers n) tw = [(ref, Some hub, w)]
     \<and> map fst (filter (\<lambda>(g, ms). (local_id n, tw) \<in> set ms) (groups n)) = [g]
     \<and> map fst (filter (\<lambda>(k, org, a). org = local_id n \<and> a = tw) (names n)) = [k]"

definition crash_signals :: "string \<Rightarrow> string \<Rightarrow> string \<Rightarrow> string \<Rightarrow> string \<Rightarrow> string \<Rightarrow> string \<Rightarrow> string \<Rightarrow> (task \<times> string \<times> pyval) list" where
  "crash_signals me hub w ref g k tw reason =
     [(Send_group_delta hub g (me, tw) ''leave'', GROUPS_ACTOR, group_delta_msg g (me, tw) ''leave''),
      (Send_registry_delta hub k (me, tw) ''release'', REGISTRY_ACTOR, registry_delta_msg k (me, tw) ''release''),
      (Notify_remote_exit hub w tw reason, LINK_ACTOR, exit_request w tw reason me),
      (Notify_remote_down hub ref tw reason, MONITOR_ACTOR, down_request ref tw reason me)]"

lemma ended_signals:
  assumes "watched hub w ref g k tw n"
  shows "tasks (ended n tw) = [Send_group_delta hub g (local_id n, tw) ''leave'', Send_registry_delta hub k (local_id n, tw) ''release'']"
    "codec_of (ended n tw) = codec_of n"
proof -
  define m where "m = snd (clear_monitors (snd (clear_links (snd (unregister_actor n tw)\<lparr>live_children := dict_del tw (live_children n)\<rparr>) tw)) tw)"
  have e: "ended n tw = clear_registry (clear_groups m tw) tw"
    by (simp add: m_def ended_def end_generation_def Let_def clear_links_def clear_monitors_def)
  have m: "local_id m = local_id n" "names m = names n" "groups m = groups n" "tasks m = []" "codec_of m = codec_of n"
    "group_leave_hook m" "registry_release_hook m" "group_peers m = Some [hub]" "registry_peers m = Some [hub]"
    using assms by (simp_all add: m_def watched_def clear_links_def clear_monitors_def)
  show "codec_of (ended n tw) = codec_of n" by (simp add: e m)
  have gs: "map fst (filter (\<lambda>(g, ms). (local_id n, tw) \<in> set ms) (groups n)) = [g]"
    "map fst (filter (\<lambda>(k, org, a). org = local_id n \<and> a = tw) (names n)) = [k]" using assms by (simp_all add: watched_def)
  have t: "tasks (clear_groups m tw) = [Send_group_delta hub g (local_id n, tw) ''leave'']"
    using clear_groups_leaves_all [OF m(6,8), of tw] unfolding m gs by simp
  have "names_wf (clear_groups m tw)" using assms by (simp add: names_wf_def watched_def m)
  from clear_registry_releases_all [OF this, of "[hub]" tw]
  show "tasks (ended n tw) = [Send_group_delta hub g (local_id n, tw) ''leave'', Send_registry_delta hub k (local_id n, tw) ''release'']"
    unfolding e clear_groups_frame clear_groups_peers m gs t by (simp add: m)
qed

lemma crash_for_good:
  assumes "watched hub w ref g k tw n" "child_name (child_at n i) = tw" "sup_strategy s = One_for_one" "max_restarts (sup_budget s) \<le> 0"
    "generation_failed now i exc (n, s) = (n', s')"
  shows "tasks n' = map fst (crash_signals (local_id n) hub w ref g k tw (describe exc))" "local_id n' = local_id n"
    "core n' = core (snd (unregister_actor n tw))" "codec_of n' = codec_of n" "map_of (phases s') i = Some (Done (Raised exc))"
    "map_of (mailboxes n') tw = None"
proof -
  obtain b where refuse: "allow_restart now (sup_budget s) = (False, b)"
    using assms(4) by (auto simp: allow_restart_def Let_def)
  have l: "get_or [] (links n) tw = [(Some hub, w)]" "get_or [] (monitor_watchers n) tw = [(ref, Some hub, w)]"
    using assms(1) by (simp_all add: watched_def)
  note e = ended_signals [OF assms(1)]
  have plain: "\<not> is_peer_event (Ev_supervisor_gave_up tw (describe exc))" by (simp add: is_peer_event_def)
  obtain lg where n1: "on_core_event (Ev_supervisor_gave_up tw (describe exc)) (ended n tw) = (ended n tw)\<lparr>event_log := lg\<rparr>"
    using on_core_event_plain [OF plain] by blast
  let ?n1 = "(ended n tw)\<lparr>event_log := lg\<rparr>"
  have "(n', s') = child_crashed now i exc [(Some hub, w)] [(ref, Some hub, w)] (ended n tw, s)"
    using assms(5) by (simp add: generation_failed_def assms(2) end_generation_parts l)
  moreover obtain s3 where "child_crashed now i exc [(Some hub, w)] [(ref, Some hub, w)] (ended n tw, s)
      = raise_for_good i exc [(Some hub, w)] [(ref, Some hub, w)] (?n1, s3)"
    by (simp add: child_crashed_def refuse assms(2,3) Let_def n1)
  moreover have nm: "child_name (get_or no_child (children n) i) = tw" using assms(2) by (simp add: child_at_def)
  ultimately have n': "n' = (notify_all ?n1 tw [(Some hub, w)] [(ref, Some hub, w)] (describe exc))\<lparr>actor_tasks := set_discard i (actor_tasks ?n1)\<rparr>"
    and s': "map_of (phases s') i = Some (Done (Raised exc))"
    by (simp_all add: raise_for_good_def finish_def set_phase_def nm child_at_def notify_all_def notify_links_def notify_monitors_def
        create_tasks_def)
  show "map_of (phases s') i = Some (Done (Raised exc))" by (rule s')
  show "tasks n' = map fst (crash_signals (local_id n) hub w ref g k tw (describe exc))" "local_id n' = local_id n"
    "core n' = core (snd (unregister_actor n tw))" "codec_of n' = codec_of n" "map_of (mailboxes n') tw = None"
    unfolding n' by (simp_all add: notify_all_def notify_links_def notify_monitors_def create_tasks_def crash_signals_def e ended_core)
qed

text \<open>The hub before the crash.\<close>

definition attentive :: "string \<Rightarrow> string \<Rightarrow> string \<Rightarrow> string \<Rightarrow> string \<Rightarrow> node \<Rightarrow> bool" where
  "attentive wid w ref k tw h \<longleftrightarrow> healthy h
     \<and> (\<forall>a \<in> {LINK_ACTOR, MONITOR_ACTOR, GROUPS_ACTOR, REGISTRY_ACTOR}. a \<in> dom (map_of (mailboxes h)) \<and> mail h a = [] \<and> a \<noteq> w)
     \<and> w \<in> dom (map_of (mailboxes h)) \<and> get_or False (trap_exit_flags h) w
     \<and> map_of (monitors h) ref = Some (w, Some wid, tw) \<and> map_of (names h) k = Some (wid, tw)"

lemma healthy_cong:
  "healthy h \<Longrightarrow> node_wf h' \<Longrightarrow> mailboxes h' = mailboxes h \<Longrightarrow> queues h' = queues h \<Longrightarrow> core h' = core h \<Longrightarrow> healthy h'"
  by (simp add: healthy_def queue_at_def)

lemma mail_cong: "mailboxes h' = mailboxes h \<Longrightarrow> queues h' = queues h \<Longrightarrow> mail h' = mail h"
  by (rule ext) (simp only: mail_def queue_at_def)

lemma reserved_simps [simp]:
  "reserved LINK_ACTOR = link_receive" "reserved MONITOR_ACTOR = monitor_receive" "reserved GROUPS_ACTOR = groups_receive"
  "reserved REGISTRY_ACTOR = registry_receive"
  by (simp_all add: reserved_def LINK_ACTOR_def MONITOR_ACTOR_def GROUPS_ACTOR_def REGISTRY_ACTOR_def)

text \<open>The deltas of the tables, then the two messages to the watcher.\<close>

lemma hub_takes_deltas:
  assumes "attentive wid w ref k tw h" "signal_frame (codec_of h) p f1 (GROUPS_ACTOR, group_delta_msg g (wid, tw) ''leave'')"
    "signal_frame (codec_of h) p f2 (REGISTRY_ACTOR, registry_delta_msg k (wid, tw) ''release'')"
  shows "take_signal src p from_peer f2 (take_signal src p from_peer f1 h)
      = h\<lparr>groups := bucket_discard g (wid, tw) (groups h), names := dict_del k (names h)\<rparr>" (is "_ = ?h2")
    "healthy (h\<lparr>groups := bucket_discard g (wid, tw) (groups h), names := dict_del k (names h)\<rparr>)"
    "mail (h\<lparr>groups := bucket_discard g (wid, tw) (groups h), names := dict_del k (names h)\<rparr>) = mail h"
proof -
  let ?m1 = "group_delta_msg g (wid, tw) ''leave''" and ?m2 = "registry_delta_msg k (wid, tw) ''release''"
  let ?h1 = "h\<lparr>groups := bucket_discard g (wid, tw) (groups h)\<rparr>"
  have a: "healthy h" "map_of (names h) k = Some (wid, tw)"
    and r: "d \<in> {LINK_ACTOR, MONITOR_ACTOR, GROUPS_ACTOR, REGISTRY_ACTOR} \<Longrightarrow> d \<in> dom (map_of (mailboxes h)) \<and> mail h d = []" for d
    using assms(1) unfolding attentive_def by blast+
  have g: "groups_receive h ?m1 = (Inr (), ?h1)" by (simp add: groups_receive_def group_delta_msg_def str_item_def)
  have t1: "take_signal src p from_peer f1 h = ?h1" using signal_taken [OF a(1) _ _ assms(2)] r [of GROUPS_ACTOR] g by simp
  have wf1: "node_wf ?h1" using node_wf_groups_receive [of h ?m1] a(1) g by (simp add: healthy_def)
  have h1: "healthy ?h1" by (rule healthy_cong [OF a(1) wf1]) simp_all
  have m1: "mail ?h1 = mail h" by (rule mail_cong) simp_all
  have k: "registry_receive ?h1 ?m2 = (Inr (), ?h2)" using a(2) by (simp add: registry_receive_delta apply_release_def)
  show "take_signal src p from_peer f2 (take_signal src p from_peer f1 h) = ?h2"
    unfolding t1 using signal_taken [OF h1, of REGISTRY_ACTOR p f2 ?m2] r [of REGISTRY_ACTOR] m1 assms(3) k by simp
  have "node_wf ?h2" using node_wf_registry_receive [OF wf1, of ?m2] k by simp
  then show "healthy ?h2" by (rule healthy_cong [OF a(1)]) simp_all
  show "mail ?h2 = mail h" by (rule mail_cong) simp_all
qed

lemma hub_takes_signals:
  assumes "attentive wid w ref k tw h"
    "list_all2 (signal_frame (codec_of h) p) fs (map snd (crash_signals wid hub w ref g k tw reason))"
  shows "\<exists>h'. fold (take_signal src p from_peer) fs h = h' \<and> healthy h'
    \<and> map fst (mail h' w) = map fst (mail h w) @ [Exit_msg (peer_label wid tw) reason, Down_msg ref (peer_label wid tw) reason]
    \<and> bucket (groups h') g = bucket (groups h) g - {(wid, tw)} \<and> map_of (names h') k = None \<and> map_of (monitors h') ref = None
    \<and> local_id h' = local_id h"
proof -
  obtain f1 f2 f3 f4 where fs: "fs = [f1, f2, f3, f4]"
    "signal_frame (codec_of h) p f1 (GROUPS_ACTOR, group_delta_msg g (wid, tw) ''leave'')"
    "signal_frame (codec_of h) p f2 (REGISTRY_ACTOR, registry_delta_msg k (wid, tw) ''release'')"
    "signal_frame (codec_of h) p f3 (LINK_ACTOR, exit_request w tw reason wid)"
    "signal_frame (codec_of h) p f4 (MONITOR_ACTOR, down_request ref tw reason wid)"
    using assms(2) by (auto simp: crash_signals_def list_all2_Cons2)
  have a: "healthy h" "w \<in> dom (map_of (mailboxes h))" "get_or False (trap_exit_flags h) w"
    "map_of (monitors h) ref = Some (w, Some wid, tw)" "map_of (names h) k = Some (wid, tw)"
    and r: "d \<in> {LINK_ACTOR, MONITOR_ACTOR, GROUPS_ACTOR, REGISTRY_ACTOR} \<Longrightarrow> d \<in> dom (map_of (mailboxes h)) \<and> mail h d = [] \<and> d \<noteq> w" for d
    using assms(1) unfolding attentive_def by blast+
  define h2 where "h2 = h\<lparr>groups := bucket_discard g (wid, tw) (groups h), names := dict_del k (names h)\<rparr>"
  note d = hub_takes_deltas [OF assms(1) fs(2,3), folded h2_def]
  have f2: "mailboxes h2 = mailboxes h" "monitors h2 = monitors h" "trap_exit_flags h2 = trap_exit_flags h" "codec_of h2 = codec_of h"
    "local_id h2 = local_id h" by (simp_all add: h2_def local_id_def split: option.split)
  obtain h3 where h3: "send_local h2 w (Exit_msg (peer_label wid tw) reason) None None = (Inr (), h3)" "same_node h2 h3" "healthy h3"
    "mail h3 = (mail h2)(w := mail h2 w @ [(Exit_msg (peer_label wid tw) reason, local_meta h2 None None)])"
    by (rule local_send [OF d(2)]) (use a(2) f2 in auto)
  have t3: "take_signal src p from_peer f3 h2 = h3"
    using signal_taken [OF d(2), of LINK_ACTOR p f3] r [of LINK_ACTOR] fs(4) f2 d(3) a(2,3) h3(1)
    by (auto simp: link_receive_request deliver_exit_def)
  define h3' where "h3' = h3\<lparr>monitors := dict_del ref (monitors h3)\<rparr>"
  note s3 = same_node_fields [OF h3(2)]
  have wf: "node_wf h3'" using h3(3) by (simp add: h3'_def healthy_def)
  have h3': "healthy h3'" by (rule healthy_cong [OF h3(3) wf]) (simp_all add: h3'_def)
  have m3: "mail h3' = mail h3" by (rule mail_cong) (simp_all add: h3'_def)
  obtain h4 where h4: "send_local h3' w (Down_msg ref (peer_label wid tw) reason) None None = (Inr (), h4)" "same_node h3' h4" "healthy h4"
    "mail h4 = (mail h3')(w := mail h3' w @ [(Down_msg ref (peer_label wid tw) reason, local_meta h3' None None)])"
    by (rule local_send [OF h3']) (use a(2) f2 s3 in \<open>auto simp: h3'_def\<close>)
  have "map_of (monitors h3) ref = Some (w, Some wid, tw)" using a(4) f2 s3 by simp
  moreover have "mail h3 MONITOR_ACTOR = []" using h3(4) d(3) r [of MONITOR_ACTOR] by simp
  ultimately have t4: "take_signal src p from_peer f4 h3 = h4"
    using signal_taken [OF h3(3), of MONITOR_ACTOR p f4] r [of MONITOR_ACTOR] fs(5) f2 s3 a(2) h4(1)
    by (auto simp: monitor_receive_request deliver_down_def h3'_def)
  note s4 = same_node_fields [OF h4(2)]
  have "fold (take_signal src p from_peer) fs h = h4" using d(1) t3 t4 by (simp add: fs(1))
  moreover have "map fst (mail h4 w) = map fst (mail h w) @ [Exit_msg (peer_label wid tw) reason, Down_msg ref (peer_label wid tw) reason]"
    using h4(4) m3 h3(4) d(3) by simp
  moreover have "groups h4 = groups h2" "names h4 = names h2" "monitors h4 = dict_del ref (monitors h3)"
    using s4 s3 by (simp_all add: h3'_def)
  moreover have "local_id h4 = local_id h"
    using same_node_local_id [OF h4(2)] same_node_local_id [OF h3(2)] f2(5) by (simp add: h3'_def local_id_def split: option.splits)
  ultimately show ?thesis using h4(3) by (intro exI [of _ h4]) (simp add: h2_def)
qed

lemma unregister_core:
  assumes "core n = Some c"
  obtains c' where "core (snd (unregister_actor n a)) = Some c'" "core_running c' = core_running c" "core_peers c' = core_peers c"
    "core_closed c' = core_closed c" "json_len c' = json_len c" "core_out c' = core_out c"
proof -
  let ?c = "case core (snd (unregister_actor n a)) of Some c' \<Rightarrow> c' | None \<Rightarrow> c"
  have "core (snd (unregister_actor n a)) = Some ?c \<and> core_running ?c = core_running c \<and> core_peers ?c = core_peers c
    \<and> core_closed ?c = core_closed c \<and> json_len ?c = json_len c \<and> core_out ?c = core_out c"
    using assms by (auto simp: unregister_actor_def core_unregister_actor_def require_def split: prod.splits sum.splits)
  then show thesis using that by blast
qed

lemma members_remote: "RemoteRef p a \<in> set (members h g) \<Longrightarrow> (p, a) \<in> bucket (groups h) g"
  by (auto simp: members_def split: if_splits)

lemma plain_signals [simp]:
  "untuple (group_delta_msg g (me, tw) verb) = group_delta_msg g (me, tw) verb"
  "untuple (registry_delta_msg k (me, tw) verb) = registry_delta_msg k (me, tw) verb"
  "untuple (exit_request w tw reason me) = exit_request w tw reason me" "untuple (down_request ref tw reason me) = down_request ref tw reason me"
  by (simp_all add: group_delta_msg_def registry_delta_msg_def exit_request_def down_request_def pair_val_def)


text \<open>The two nodes of the example, with one worker and its hub.\<close>

definition demo_crash :: exn where
  "demo_crash = RuntimeError ''fallo''"

definition demo_duties :: "string \<Rightarrow> node \<Rightarrow> node" where
  "demo_duties me n = n\<lparr>links := [(''task_worker'', [(Some ''api@h:1'', ''watcher'')])],
     children := [(0, no_child\<lparr>child_name := ''task_worker''\<rparr>)], groups := [(''workers'', [(me, ''task_worker'')])],
     group_peers := Some [''api@h:1''], group_leave_hook := True,
     monitor_watchers := [(''task_worker'', [(''r1'', Some ''api@h:1'', ''watcher'')])],
     names := [(''task_worker_primary'', (me, ''task_worker''))], registry_peers := Some [''api@h:1''], registry_release_hook := True,
     tasks := []\<rparr>"

lemma demo_duties_fields:
  "core (demo_duties me n) = core n" "codec_of (demo_duties me n) = codec_of n"
  "child_name (child_at (demo_duties me n) 0) = ''task_worker''"
  "local_id n = me \<Longrightarrow> local_id (demo_duties me n) = me"
  "local_id n = me \<Longrightarrow> watched ''api@h:1'' ''watcher'' ''r1'' ''workers'' ''task_worker_primary'' ''task_worker'' (demo_duties me n)"
proof -
  show c: "core (demo_duties me n) = core n" "codec_of (demo_duties me n) = codec_of n"
    and "child_name (child_at (demo_duties me n) 0) = ''task_worker''"
    by (simp_all add: demo_duties_def child_at_def get_or_def)
  have "node_id (demo_duties me n) = node_id n" by (simp add: demo_duties_def)
  with c show id: "local_id n = me \<Longrightarrow> local_id (demo_duties me n) = me" by (simp add: local_id_def split: option.splits)
  show "local_id n = me \<Longrightarrow> watched ''api@h:1'' ''watcher'' ''r1'' ''workers'' ''task_worker_primary'' ''task_worker'' (demo_duties me n)"
    unfolding watched_def id by (simp add: demo_duties_def names_wf_def get_or_def)
qed

lemma demo_worker:
  "\<exists>n c. watched ''api@h:1'' ''watcher'' ''r1'' ''workers'' ''task_worker_primary'' ''task_worker'' n \<and> core n = Some c
     \<and> child_name (child_at n 0) = ''task_worker'' \<and> codec_of n = sample_env
     \<and> (\<forall>x \<in> set (crash_signals (local_id n) ''api@h:1'' ''watcher'' ''r1'' ''workers'' ''task_worker_primary'' ''task_worker'' (describe demo_crash)).
          can_send n ''api@h:1'' (snd (snd x)) None)"
proof -
  obtain n0 where n0: "fresh sample_env (\<lambda>_. 10) (demo_id ''ful'' 2) {} n0" by (rule demo_up [OF demo_ids(2), of "[]"]) simp_all
  let ?j = "joined [demo_id ''api'' 1] n0"
  define me n where "me = local_id ?j" and "n = demo_duties me ?j"
  note j = joined_fresh [OF n0, of "[demo_id ''api'' 1]"]
  obtain c where c: "core ?j = Some c" using healthy_core [OF j(1)] by blast
  have core: "core n = Some c" "codec_of n = sample_env" using c j(4) by (simp_all add: n_def demo_duties_fields)
  have id: "local_id n = me" and watched: "watched ''api@h:1'' ''watcher'' ''r1'' ''workers'' ''task_worker_primary'' ''task_worker'' n"
    unfolding n_def by (rule demo_duties_fields(4,5), simp add: me_def)+
  have send: "can_send n ''api@h:1'' m None" if "portable sample_env m" for m
  proof -
    have "can_send ?j ''api@h:1'' m None"
      by (rule joined_can_send [OF n0 demo_ids(1) _ that _ u64_none]) (simp_all add: MAX_FRAME_SIZE_def)
    then show ?thesis using can_send_cong [OF c core(1) _ refl refl refl refl, of "''api@h:1''" m None] core(2) j(4) by simp
  qed
  have "portable sample_env (snd (snd x))" if "x \<in> set (crash_signals me ''api@h:1'' ''watcher'' ''r1'' ''workers''
      ''task_worker_primary'' ''task_worker'' (describe demo_crash))" for x
    using that by (auto simp: crash_signals_def group_delta_msg_def registry_delta_msg_def exit_request_def down_request_def pair_val_def
        sample_env_def plain_builtin_def RESERVED_def)
  then have "\<forall>x \<in> set (crash_signals (local_id n) ''api@h:1'' ''watcher'' ''r1'' ''workers'' ''task_worker_primary'' ''task_worker''
      (describe demo_crash)). can_send n ''api@h:1'' (snd (snd x)) None" unfolding id using send by blast
  moreover have "child_name (child_at n 0) = ''task_worker''" by (simp add: n_def demo_duties_fields)
  ultimately show ?thesis using watched core by (intro exI conjI)
qed

lemma demo_hub: "\<exists>h. attentive wid ''watcher'' ''r1'' ''task_worker_primary'' ''task_worker'' h \<and> codec_of h = sample_env \<and> mail h ''watcher'' = []"
proof -
  let ?as = "[LINK_ACTOR, MONITOR_ACTOR, GROUPS_ACTOR, REGISTRY_ACTOR, ''watcher'']"
  have ne: "distinct ?as" by (simp add: LINK_ACTOR_def MONITOR_ACTOR_def GROUPS_ACTOR_def REGISTRY_ACTOR_def)
  obtain h0 where h0: "fresh sample_env (\<lambda>_. 10) (demo_id ''api'' 1) (set ?as) h0" by (rule demo_up [OF demo_ids(1) ne refl])
  let ?h = "h0\<lparr>trap_exit_flags := [(''watcher'', True)], monitors := [(''r1'', (''watcher'', Some wid, ''task_worker''))],
     names := [(''task_worker_primary'', (wid, ''task_worker''))]\<rparr>"
  have f: "healthy h0" "dom (map_of (mailboxes h0)) = set ?as" "\<forall>a. mail h0 a = []" "codec_of h0 = sample_env"
    using h0 by (auto simp: fresh_def)
  have "node_wf ?h" using f(1) by (simp add: healthy_def node_wf_def names_wf_def)
  then have "healthy ?h" by (rule healthy_cong [OF f(1)]) simp_all
  moreover have "mail ?h = mail h0" by (rule mail_cong) simp_all
  ultimately have "attentive wid ''watcher'' ''r1'' ''task_worker_primary'' ''task_worker'' ?h" using f(2,3) ne
    by (simp add: attentive_def get_or_def)
  with f \<open>mail ?h = mail h0\<close> show ?thesis by (intro exI [of _ ?h]) simp
qed


end
