(* ===== verification/Seeds.thy ===== *)
theory Seeds
  imports Startup
begin

text \<open>
  The example \<^verbatim>\<open>seed_discovery\<close>: a node that joins through its seeds in two rounds. \<open>first\<close> and \<open>second\<close> are what the
  cluster answers in each of them.
\<close>

definition two_rounds :: "contact \<Rightarrow> contact \<Rightarrow> string \<Rightarrow> string list \<Rightarrow> string list res option" where
  "two_rounds first second me seeds =
     (case join_via_seeds first me seeds of
        None \<Rightarrow> None
      | Some (Inl e) \<Rightarrow> Some (Inl e)
      | Some (Inr found) \<Rightarrow>
         (case join_via_seeds second me (seeds @ sort found) of
            None \<Rightarrow> None
          | Some (Inl e) \<Rightarrow> Some (Inl e)
          | Some (Inr again) \<Rightarrow> Some (Inr (fold set_add again found))))"

text \<open>The node of either kind; what it has found, if it returned from the search.\<close>

definition seed_node_main ::
  "codec_env \<Rightarrow> (json \<Rightarrow> nat) \<Rightarrow> string + 16 word \<Rightarrow> string \<Rightarrow> string \<Rightarrow> contact \<Rightarrow> contact \<Rightarrow> string list res option \<times> sys" where
  "seed_node_main env len bound node_name seeds first second =
     (case and_then (on_node (start len bound) (new_node env node_name None, default_supervisor)) (\<lambda>_ sy. register_discovery sy) of
        (Inl e, sy) \<Rightarrow> (Some (Inl e), sy)
      | (Inr _, sy) \<Rightarrow>
          (if names_in seeds = [] then Some (Inr []) else two_rounds first second (local_id (fst sy)) (names_in seeds), sy))"

lemma set_fold_add: "set (fold set_add xs ys) = set xs \<union> set ys" "distinct ys \<Longrightarrow> distinct (fold set_add xs ys)"
  by (induction xs arbitrary: ys) auto

text \<open>The second round keeps what the first has found and adds exactly the peers that answer now and can be
  learned of from the seeds or from any peer of the first round.\<close>

lemma second_round_finds_stragglers:
  assumes "finite U" "set seeds \<subseteq> U" "closed_under first U" "\<forall>p \<in> U. orderly first p"
    and "finite V" "U \<subseteq> V" "closed_under second V" "\<forall>p \<in> V. orderly second p"
  shows "\<exists>found r. two_rounds first second me seeds = Some (Inr found) \<and> distinct found \<and> join_via_seeds first me seeds = Some (Inr r)
    \<and> set found = set r \<union> {p. discovered second me (seeds @ sort r) p \<and> answers second p \<noteq> None}"
proof -
  obtain r v where r: "join_via_seeds first me seeds = Some (Inr r)" "searching first me seeds [] v r"
    by (rule join_searched [OF assms(1-4)])
  have "p \<in> U" if "discovered first me seeds p" for p
    using that by induction (use assms(2,3) in \<open>auto simp: closed_under_def\<close>)
  then have "set r \<subseteq> U" using searching_done [OF r(2)] by auto
  then have "set (seeds @ sort r) \<subseteq> V" using assms(2,6) by auto
  then obtain r' v' where r': "join_via_seeds second me (seeds @ sort r) = Some (Inr r')" "searching second me (seeds @ sort r) [] v' r'"
    by (rule join_searched [OF assms(5) _ assms(7,8)])
  then show ?thesis using r searching_done [OF r'(2)] searchingD(4) [OF r(2)]
    by (auto simp: two_rounds_def set_fold_add)
qed

end
