(* ===== verification/Pool_Ref.thy ===== *)
theory Pool_Ref
  imports Pool Network "HOL-Library.Multiset"
begin

text \<open>
  The reference to a pool (\<^verbatim>\<open>PoolRef\<close> in \<^verbatim>\<open>src/lapinbeam/refs.py\<close>) and the object that builds one (\<^verbatim>\<open>_PoolSpawn\<close> in
  \<^verbatim>\<open>src/lapinbeam/supervisor.py\<close>). \<^verbatim>\<open>PoolRef.map\<close> gathers one ask per item: its run is a step relation over the asks,
  the dispatcher, the workers, the timeouts and everything else that happens on the node.
\<close>

subsection \<open>Sending to a pool\<close>

definition pool_size :: "pool \<Rightarrow> nat" where
  "pool_size p = length (tl (pool_children p))"

definition pool_send :: "pool \<Rightarrow> node \<Rightarrow> pyval \<Rightarrow> string option \<Rightarrow> int option \<Rightarrow> unit res \<times> node" where
  "pool_send p n msg reply_to corr = send n (ActorRef (pool_name p)) msg reply_to corr"

definition pool_ask :: "pool \<Rightarrow> nat \<Rightarrow> node \<Rightarrow> pyval \<Rightarrow> nat res \<times> node" where
  "pool_ask p k n msg = ask_start 1 k n (ActorRef (pool_name p)) msg"

definition pool_ask_stream :: "pool \<Rightarrow> nat \<Rightarrow> node \<Rightarrow> pyval \<Rightarrow> nat res \<times> node" where
  "pool_ask_stream p k n msg = ask_start 0 k n (ActorRef (pool_name p)) msg"

subsection \<open>Building and leaving a pool\<close>

text \<open>The arguments of \<^verbatim>\<open>spawn_pool\<close> and the pool once it is built. \<open>unwind\<close> is what happens while \<^verbatim>\<open>stop\<close> waits for the
  cancelled tasks.\<close>

record pool_spawn =
  ps_handler :: handler_kind
  ps_workers :: nat
  ps_name :: string
  ps_capacity :: "int option"
  ps_executor :: "string option"
  ps_sharded :: bool
  ps_pool :: "pool option"

definition pool_build :: "pool_spawn \<Rightarrow> sys \<Rightarrow> pool res \<times> pool_spawn \<times> sys" where
  "pool_build ps sy =
     (case ps_pool ps of
        Some p \<Rightarrow> (Inr p, ps, sy)
      | None \<Rightarrow>
         (case spawn_pool (ps_handler ps) (ps_workers ps) (ps_name ps) (ps_capacity ps) (ps_executor ps) (ps_sharded ps) sy of
            (Inl e, sy') \<Rightarrow> (Inl e, ps, sy')
          | (Inr p, sy') \<Rightarrow> (Inr p, ps\<lparr>ps_pool := Some p\<rparr>, sy')))"

definition pool_leave :: "(sys \<Rightarrow> sys) \<Rightarrow> pool \<Rightarrow> sys \<Rightarrow> sys" where
  "pool_leave unwind p = (\<lambda>(n, s). case unwind (n, pool_stop p s) of (n', s') \<Rightarrow> (n', pool_stopped p s'))"

definition pool_aexit :: "(sys \<Rightarrow> sys) \<Rightarrow> pool_spawn \<Rightarrow> sys \<Rightarrow> sys" where
  "pool_aexit unwind ps sy = (case ps_pool ps of None \<Rightarrow> sy | Some p \<Rightarrow> pool_leave unwind p sy)"

text \<open>\<^verbatim>\<open>async with sup.spawn_pool(...) as pool\<close>: the body runs with the pool, and the pool is stopped whether the body
  returns or raises; an exception is passed on.\<close>

definition with_pool :: "(sys \<Rightarrow> sys) \<Rightarrow> pool_spawn \<Rightarrow> (pool \<Rightarrow> sys \<Rightarrow> 'a res \<times> sys) \<Rightarrow> sys \<Rightarrow> 'a res \<times> sys" where
  "with_pool unwind ps body sy =
     (case pool_build ps sy of
        (Inl e, ps', sy') \<Rightarrow> (Inl e, sy')
      | (Inr p, ps', sy') \<Rightarrow> (case body p sy' of (r, sy'') \<Rightarrow> (r, pool_aexit unwind ps' sy'')))"

text \<open>A pool is built once, however often it is awaited or entered.\<close>

lemma pool_build_once: "pool_build ps sy = (Inr p, ps', sy') \<Longrightarrow> pool_build ps' sy'' = (Inr p, ps', sy'')"
  by (auto simp: pool_build_def split: option.splits prod.splits sum.splits)

subsection \<open>Gathering\<close>

text \<open>
  \<^verbatim>\<open>asyncio.gather\<close> on the outcomes that have arrived, in the order of their arrival: None while it waits. The
  first exception ends it unless exceptions are collected; otherwise it ends when every outcome
  is there and lists them by position.
\<close>

fun first_failure :: "(nat \<times> 'a res) list \<Rightarrow> exn option" where
  "first_failure [] = None"
| "first_failure ((i, Inl e) # rest) = Some e"
| "first_failure ((i, Inr v) # rest) = first_failure rest"

definition gather :: "bool \<Rightarrow> nat \<Rightarrow> (nat \<times> 'a res) list \<Rightarrow> 'a res list res option" where
  "gather return_exceptions n done =
     (case (if return_exceptions then None else first_failure done) of
        Some e \<Rightarrow> Some (Inl e)
      | None \<Rightarrow> map_option Inr (those (map (map_of done) [0..<n])))"

text \<open>The state of a call of \<^verbatim>\<open>map\<close>: how many of the asks have started, the mailboxes of those that wait, and the
  outcomes of the others.\<close>

record map_run =
  map_node :: node
  map_pool :: pool
  asked :: nat
  waiting :: "(nat, nat) dict"
  outcomes :: "(nat \<times> pyval res) list"

definition pool_map :: "bool \<Rightarrow> pyval list \<Rightarrow> map_run \<Rightarrow> pyval res list res option" where
  "pool_map return_exceptions xs s = gather return_exceptions (length xs) (outcomes s)"

text \<open>Messages that do not want their answer in a mailbox of this call; and what other code on the node may do: it
  leaves the mailboxes of the call alone, and sends to the pool.\<close>

definition foreign :: "nat list \<Rightarrow> message \<Rightarrow> bool" where
  "foreign ks m \<longleftrightarrow> (\<forall>k \<in> set ks. m_reply_to (snd m) \<noteq> Some (ask_name k))"

definition own_box :: "nat \<Rightarrow> nat \<Rightarrow> node \<Rightarrow> bool" where
  "own_box k q n \<longleftrightarrow> map_of (mailboxes n) (ask_name k) = Some q \<and> (\<forall>a. map_of (mailboxes n) a = Some q \<longrightarrow> a = ask_name k)
     \<and> maxsize (queue_at n q) = 1"

definition unbounded :: "string \<Rightarrow> node \<Rightarrow> bool" where
  "unbounded d n \<longleftrightarrow> (\<exists>q. map_of (mailboxes n) d = Some q \<and> maxsize (queue_at n q) \<le> 0)"

definition spares :: "nat list \<Rightarrow> node \<Rightarrow> node \<Rightarrow> bool" where
  "spares ks n n' \<longleftrightarrow> node_wf n' \<and> core n' \<noteq> None \<and> local_id n' = local_id n
     \<and> (\<forall>k \<in> set ks. map_of (mailboxes n') (ask_name k) = map_of (mailboxes n) (ask_name k))
     \<and> (\<forall>k \<in> set ks. \<forall>q. own_box k q n \<longrightarrow> own_box k q n' \<and> queue_at n' q = queue_at n q)"

definition elsewhere :: "nat list \<Rightarrow> string \<Rightarrow> node \<Rightarrow> node \<Rightarrow> bool" where
  "elsewhere ks d n n' \<longleftrightarrow> spares ks n n' \<and> (\<exists>fs. mail n' d = mail n d @ fs \<and> (\<forall>m \<in> set fs. foreign ks m))
     \<and> (d \<in> dom (map_of (mailboxes n)) \<longrightarrow> d \<in> dom (map_of (mailboxes n'))) \<and> (unbounded d n \<longrightarrow> unbounded d n')"

text \<open>\<open>ks\<close> are the numbers that the asks draw from the process-wide counter. An ask ends with the reply in its mailbox,
  or with a timeout while it is empty.\<close>

inductive map_step :: "(pyval \<Rightarrow> int res) \<Rightarrow> (message \<Rightarrow> node \<Rightarrow> pyval res \<times> node) \<Rightarrow> nat list \<Rightarrow> pyval list \<Rightarrow> map_run \<Rightarrow> map_run \<Rightarrow> bool"
  for key handle ks xs where
  ask: "asked s < length xs \<Longrightarrow> pool_ask (map_pool s) (ks ! asked s) (map_node s) (xs ! asked s) = (Inr q, n) \<Longrightarrow>
    map_step key handle ks xs s (s\<lparr>map_node := n, asked := asked s + 1, waiting := dict_set (asked s) q (waiting s)\<rparr>)"
| refused: "asked s < length xs \<Longrightarrow> pool_ask (map_pool s) (ks ! asked s) (map_node s) (xs ! asked s) = (Inl e, n) \<Longrightarrow>
    map_step key handle ks xs s (s\<lparr>map_node := n, asked := asked s + 1, outcomes := outcomes s @ [(asked s, Inl e)]\<rparr>)"
| dispatch: "take_mail (pool_name (map_pool s)) (map_node s) = Some (m, n) \<Longrightarrow> dispatcher_receive key m (map_pool s, n) = (p, n') \<Longrightarrow>
    map_step key handle ks xs s (s\<lparr>map_pool := p, map_node := n'\<rparr>)"
| work: "worker_step handle w (map_pool s, map_node s) = (t, p, n) \<Longrightarrow>
    map_step key handle ks xs s (s\<lparr>map_pool := p, map_node := n\<rparr>)"
| finish: "map_of (waiting s) i = Some q \<Longrightarrow> ask_finish (ks ! i) q (map_node s) = (r, n) \<Longrightarrow>
    map_step key handle ks xs s (s\<lparr>map_node := n, waiting := dict_del i (waiting s), outcomes := outcomes s @ [(i, r)]\<rparr>)"
| other: "elsewhere ks (pool_name (map_pool s)) (map_node s) n \<Longrightarrow> map_step key handle ks xs s (s\<lparr>map_node := n\<rparr>)"

text \<open>What is on its way: the mail of the dispatcher and the queues of the workers.\<close>

definition load :: "pool \<Rightarrow> message multiset" where
  "load p = mset (concat (map items (pool_queues p)))"

definition pipeline :: "map_run \<Rightarrow> message multiset" where
  "pipeline s = mset (mail (map_node s) (pool_name (map_pool s))) + load (map_pool s)"

definition map_start :: "nat list \<Rightarrow> pyval list \<Rightarrow> map_run \<Rightarrow> bool" where
  "map_start ks xs s \<longleftrightarrow> node_wf (map_node s) \<and> core (map_node s) \<noteq> None \<and> pool_wf (map_pool s)
     \<and> distinct ks \<and> length ks = length xs \<and> (\<forall>k \<in> set ks. map_of (mailboxes (map_node s)) (ask_name k) = None)
     \<and> pool_name (map_pool s) \<in> dom (map_of (mailboxes (map_node s))) \<and> (\<forall>m \<in># pipeline s. foreign ks m)
     \<and> asked s = 0 \<and> waiting s = [] \<and> outcomes s = []"

text \<open>A pool whose workers answer with \<open>f\<close>: the handler replies itself, or it returns the answer to an executor.\<close>

definition answering :: "(pyval \<Rightarrow> pyval res) \<Rightarrow> (message \<Rightarrow> node \<Rightarrow> pyval res \<times> node) \<Rightarrow> bool option \<Rightarrow> bool" where
  "answering f handle ex \<longleftrightarrow> (\<forall>m n. work handle ex m n =
     (case f (fst m) of
        Inl e \<Rightarrow> (Inl e, n)
      | Inr v \<Rightarrow> if m_reply_to (snd m) = None then (Inr (), n) else reply n (snd m) v))"

lemma answering_executor: "answering f (\<lambda>m n. (f (fst m), n)) (Some True)"
  by (auto simp: answering_def work_def split: sum.split)

lemma answering_handler:
  "answering f (\<lambda>m n. case f (fst m) of
      Inl e \<Rightarrow> (Inl e, n)
    | Inr v \<Rightarrow> if m_reply_to (snd m) = None then (Inr PNone, n)
               else (case reply n (snd m) v of (r, n') \<Rightarrow> (res_bind r (\<lambda>_. Inr PNone), n'))) None"
  by (auto simp: answering_def work_def res_bind_assoc split: sum.split prod.split)

end
