(* ===== verification/Pool_Map.thy ===== *)
theory Pool_Map
  imports Pool_Ref
begin

text \<open>
  What the pieces of a call of \<^verbatim>\<open>PoolRef.map\<close> do to the node and to the pool: which mailboxes the asks register, fill
  and remove, what the dispatcher and a worker move, and what everything else leaves alone.
\<close>

subsection \<open>Nodes and the mailboxes of the call\<close>

lemma ask_name_inj [simp]: "ask_name k = ask_name k' \<longleftrightarrow> k = k'"
proof
  assume "ask_name k = ask_name k'"
  then have "show_nat k = show_nat k'" by (simp add: ask_name_def)
  then have "parse_digits 0 (show_nat k) = parse_digits 0 (show_nat k')" by simp
  then show "k = k'" by simp
qed simp

lemma spares_same:
  assumes "node_wf n'" "core n' \<noteq> None" "local_id n' = local_id n" "mailboxes n' = mailboxes n" "queues n' = queues n"
  shows "spares ks n n'"
proof -
  have "queue_at n' = queue_at n" using assms(5) by (auto simp: queue_at_def)
  then show ?thesis using assms by (simp add: spares_def own_box_def)
qed

lemma elsewhere_same:
  assumes "node_wf n'" "core n' \<noteq> None" "local_id n' = local_id n" "mailboxes n' = mailboxes n" "queues n' = queues n"
  shows "elsewhere ks d n n'"
proof -
  have "queue_at n' = queue_at n" using assms(5) by (auto simp: queue_at_def)
  then have "mail n' d = mail n d" "unbounded d n' = unbounded d n" by (simp_all only: mail_def unbounded_def assms(4))
  then show ?thesis using spares_same [OF assms] assms(4) by (simp add: elsewhere_def)
qed

lemma elsewhere_event: "node_wf n \<Longrightarrow> core n \<noteq> None \<Longrightarrow> elsewhere ks d n (on_core_event ev n)"
  by (rule elsewhere_same) (simp_all add: node_wf_event event_frame)

lemma spares_trans: "spares ks n n' \<Longrightarrow> spares ks n' n'' \<Longrightarrow> spares ks n n''"
  by (simp add: spares_def)

lemma elsewhere_trans:
  assumes "elsewhere ks d n n'" "elsewhere ks d n' n''"
  shows "elsewhere ks d n n''"
proof -
  obtain fs where fs: "mail n' d = mail n d @ fs" "\<forall>m \<in> set fs. foreign ks m" using assms(1) unfolding elsewhere_def by blast
  obtain gs where gs: "mail n'' d = mail n' d @ gs" "\<forall>m \<in> set gs. foreign ks m" using assms(2) unfolding elsewhere_def by blast
  have "\<exists>hs. mail n'' d = mail n d @ hs \<and> (\<forall>m \<in> set hs. foreign ks m)" by (intro exI [of _ "fs @ gs"]) (use fs gs in auto)
  moreover have "spares ks n n''" using assms spares_trans unfolding elsewhere_def by blast
  ultimately show ?thesis using assms unfolding elsewhere_def by simp
qed

text \<open>Another mailbox of the node is filled or emptied.\<close>

lemma spares_put:
  assumes "node_wf n" "core n \<noteq> None" "map_of (mailboxes n) a = Some q" "\<forall>k \<in> set ks. a \<noteq> ask_name k" "queue_wf x"
  shows "spares ks n (n\<lparr>queues := dict_set q x (queues n)\<rparr>)"
proof -
  let ?n = "n\<lparr>queues := dict_set q x (queues n)\<rparr>"
  have q: "queue_at ?n q' = queue_at n q'" if "q' \<noteq> q" for q' using that by simp
  have "own_box k q' ?n \<and> queue_at ?n q' = queue_at n q'" if k: "k \<in> set ks" "own_box k q' n" for k q'
  proof -
    have "q' \<noteq> q" using k assms(3,4) by (auto simp: own_box_def)
    with q k(2) show ?thesis by (simp add: own_box_def)
  qed
  moreover have "node_wf ?n" using node_wf_put_queue [OF assms(1) node_wf_mailbox_key [OF assms(1,3)] assms(5)] .
  ultimately show ?thesis using assms(2) by (auto simp: spares_def local_id_def)
qed

lemma put_fields:
  assumes "map_of (mailboxes n) a = Some q" "n' = n\<lparr>queues := dict_set q x (queues n)\<rparr>"
  shows "mail n' d = (if map_of (mailboxes n) d = Some q then items x else mail n d)"
    "maxsize x = maxsize (queue_at n q) \<Longrightarrow> unbounded d n' = unbounded d n" "mailboxes n' = mailboxes n"
  using assms(1) by (auto simp: assms(2) mail_def unbounded_def split: option.splits)

lemma send_remote_core:
  assumes "send_remote n peer a v r corr = (res, n')" "core n = Some c"
  shows "\<exists>c'. n' = n\<lparr>core := Some c'\<rparr> \<and> core_local c' = core_local c"
  using assms by (auto simp: send_remote_def with_core_def core_send_data_def send_data_bytes_def Let_def
      split: sum.splits prod.splits if_splits intro: exI [of _ c])

text \<open>A send to an actor that is not one of the hidden mailboxes, of a message that wants no reply.\<close>

lemma send_elsewhere:
  assumes "node_wf n" "core n \<noteq> None" "\<And>a. ref = ActorRef a \<Longrightarrow> \<forall>k \<in> set ks. a \<noteq> ask_name k"
  shows "elsewhere ks d n (snd (send n ref v None corr))"
proof (cases ref)
  case (RemoteRef peer a)
  obtain r n' where s: "send_remote n peer a v None corr = (r, n')" by fastforce
  obtain c c' where n': "core n = Some c" "n' = n\<lparr>core := Some c'\<rparr>" "core_local c' = core_local c"
    using assms(2) send_remote_core [OF s] by blast
  then have "elsewhere ks d n n'" using node_wf_send_remote [OF assms(1), of peer a v None corr] s
    by (intro elsewhere_same) (simp_all add: local_id_def)
  then show ?thesis by (simp add: RemoteRef s)
next
  case (ActorRef a)
  show ?thesis
  proof (cases "map_of (mailboxes n) a")
    case None
    then show ?thesis using elsewhere_same [of n n] assms by (simp add: ActorRef send_local_def)
  next
    case (Some q)
    let ?m = "(v, local_meta n None corr)"
    show ?thesis
    proof (rule enqueue_cases [of n q ?m])
      assume "enqueue q ?m n = None"
      then show ?thesis using elsewhere_event assms by (simp add: ActorRef send_local_def Some)
    next
      assume 2: "\<not> queue_full (queue_at n q)" "enqueue q ?m n = Some (n\<lparr>queues := dict_set q ((queue_at n q)\<lparr>items :=
        items (queue_at n q) @ [?m]\<rparr>) (queues n)\<rparr>)"
      let ?x = "(queue_at n q)\<lparr>items := items (queue_at n q) @ [?m]\<rparr>"
      let ?n = "n\<lparr>queues := dict_set q ?x (queues n)\<rparr>"
      have "queue_wf ?x" using queue_wf_put [of ?m "queue_at n q" ?x] node_wf_queue [OF assms(1)] 2 by (simp add: put_nowait_def)
      then have "spares ks n ?n" using spares_put [OF assms(1,2) Some] assms(3) ActorRef by simp
      moreover have "\<exists>fs. mail ?n d = mail n d @ fs \<and> (\<forall>m \<in> set fs. foreign ks m)"
        using put_fields(1) [OF Some refl, of ?x d]
        by (intro exI [of _ "if map_of (mailboxes n) d = Some q then [?m] else []"]) (auto simp: mail_def foreign_def local_meta_def)
      moreover have "unbounded d ?n = unbounded d n" by (rule put_fields(2) [OF Some refl]) simp
      ultimately have "elsewhere ks d n ?n" by (simp add: elsewhere_def)
      then show ?thesis using 2 by (simp add: ActorRef send_local_def Some)
    qed
  qed
qed

subsection \<open>The queues of the pool\<close>

lemma concat_update:
  "j < length qs \<Longrightarrow> mset (concat (map g (qs[j := x]))) + mset (g (qs ! j)) = mset (concat (map g qs)) + mset (g x)"
  by (induction qs arbitrary: j) (auto split: nat.splits simp: ac_simps)

lemma maxsize_update: "map maxsize (qs[j := (qs ! j)\<lparr>items := ms\<rparr>]) = map maxsize qs"
proof (cases "j < length qs")
  case True
  then have "maxsize (qs ! j) = map maxsize qs ! j" by simp
  then show ?thesis by (simp add: map_update)
qed (simp add: list_update_beyond)

lemma dispatch_load:
  assumes "pool_wf p" "dispatcher_receive key m (p, n) = (p', n')"
  shows "load p' = load p + (if accepts key p m then {#m#} else {#})" "pool_wf p'" "pool_name p' = pool_name p" "pool_exec p' = pool_exec p"
    "n' = n \<or> (\<exists>ev. n' = on_core_event ev n)" "map maxsize (pool_queues p') = map maxsize (pool_queues p)"
    "working p' = working p" "n_workers p' = n_workers p" "sharded p' = sharded p"
proof -
  have "load p' = load p + (if accepts key p m then {#m#} else {#}) \<and> map maxsize (pool_queues p') = map maxsize (pool_queues p)"
  proof (cases "shard_of key p (fst m)")
    case (Inr j)
    then have j: "j < length (pool_queues p)" using shard_bound [OF assms(1)] by blast
    let ?q = "pool_queues p ! j"
    show ?thesis
    proof (cases "queue_full ?q")
      case False
      then have p': "p' = p\<lparr>pool_queues := (pool_queues p)[j := ?q\<lparr>items := items ?q @ [m]\<rparr>]\<rparr>"
        using assms(2) Inr by (simp add: dispatcher_receive_def put_nowait_def)
      have "map maxsize (pool_queues p') = map maxsize (pool_queues p)"
        by (simp add: p' maxsize_update)
      then show ?thesis using concat_update [OF j, of items "?q\<lparr>items := items ?q @ [m]\<rparr>"] False Inr
        by (simp add: p' load_def accepts_def)
    qed (use assms(2) Inr in \<open>simp add: dispatcher_receive_def put_nowait_def accepts_def\<close>)
  qed (use assms(2) in \<open>simp add: dispatcher_receive_def accepts_def\<close>)
  then show "load p' = load p + (if accepts key p m then {#m#} else {#})" "map maxsize (pool_queues p') = map maxsize (pool_queues p)"
    by simp_all
  show "pool_wf p'" "working p' = working p" "n_workers p' = n_workers p" "sharded p' = sharded p"
    using dispatch_fields [where key = key and m = m and n = n and p = p] assms by simp_all
  show "pool_name p' = pool_name p" "pool_exec p' = pool_exec p" "n' = n \<or> (\<exists>ev. n' = on_core_event ev n)"
    using assms(2) by (auto simp: dispatcher_receive_def split: sum.splits option.splits)
qed

lemma worker_load:
  assumes "pool_wf p" "worker_step handle w (p, n) = (t, p', n')"
  shows "load p = load p' + (case t of None \<Rightarrow> {#} | Some m \<Rightarrow> {#m#})" "pool_wf p'" "pool_name p' = pool_name p" "pool_exec p' = pool_exec p"
    "case t of None \<Rightarrow> n' = n | Some m \<Rightarrow> (\<exists>r n1. work handle (pool_exec p) m n = (r, n1) \<and> (n' = n1 \<or> (\<exists>ev. n' = on_core_event ev n1)))"
    "map maxsize (pool_queues p') = map maxsize (pool_queues p)" "working p' = working p" "n_workers p' = n_workers p" "sharded p' = sharded p"
proof -
  let ?j = "worker_queue p w" and ?q = "pool_queues p ! worker_queue p w"
  show "pool_wf p'" using step_fields(1) assms by blast
  show "working p' = working p" "n_workers p' = n_workers p" "sharded p' = sharded p" using step_fields(2) [OF assms(2)] by simp_all
  have "load p = load p' + (case t of None \<Rightarrow> {#} | Some m \<Rightarrow> {#m#}) \<and> map maxsize (pool_queues p') = map maxsize (pool_queues p)
    \<and> pool_name p' = pool_name p \<and> pool_exec p' = pool_exec p
    \<and> (case t of None \<Rightarrow> n' = n | Some m \<Rightarrow> (\<exists>r n1. work handle (pool_exec p) m n = (r, n1) \<and> (n' = n1 \<or> (\<exists>ev. n' = on_core_event ev n1))))"
  proof (cases "w \<in> set (working p) \<and> items ?q \<noteq> []")
    case True
    then obtain m ms where q: "items ?q = m # ms" by (cases "items ?q") auto
    obtain r n1 where r: "work handle (pool_exec p) m n = (r, n1)" by fastforce
    have p': "p' = p\<lparr>pool_queues := (pool_queues p)[?j := ?q\<lparr>items := ms\<rparr>]\<rparr>" "t = Some m"
      and n': "n' = n1 \<or> (\<exists>ev. n' = on_core_event ev n1)"
      using assms(2) True q r by (auto simp: worker_step_def get_item_def Let_def split: sum.splits)
    have "map maxsize (pool_queues p') = map maxsize (pool_queues p)"
      by (simp add: p' maxsize_update)
    moreover have "load p = load p' + {#m#}"
      using concat_update [OF worker_bound [OF assms(1)], of w items "?q\<lparr>items := ms\<rparr>"] True q by (simp add: p' load_def)
    ultimately show ?thesis using p' n' r by auto
  next
    case False
    then have "w \<notin> set (working p) \<or> get_item ?q = None" by (auto simp: get_item_def)
    then have "worker_step handle w (p, n) = (None, p, n)" by (auto simp: worker_step_def)
    with assms(2) show ?thesis by simp
  qed
  then show "load p = load p' + (case t of None \<Rightarrow> {#} | Some m \<Rightarrow> {#m#})" "map maxsize (pool_queues p') = map maxsize (pool_queues p)"
    "pool_name p' = pool_name p" "pool_exec p' = pool_exec p"
    "case t of None \<Rightarrow> n' = n | Some m \<Rightarrow> (\<exists>r n1. work handle (pool_exec p) m n = (r, n1) \<and> (n' = n1 \<or> (\<exists>ev. n' = on_core_event ev n1)))"
    by simp_all
qed

subsection \<open>Requests and answers\<close>

definition request :: "nat list \<Rightarrow> pyval list \<Rightarrow> node \<Rightarrow> nat \<Rightarrow> message" where
  "request ks xs n i = (xs ! i, local_meta n (Some (ask_name (ks ! i))) (Some (int (ks ! i))))"

lemma request_not_foreign: "i < length ks \<Longrightarrow> \<not> foreign ks (request ks xs n i)"
  by (auto simp: foreign_def request_def local_meta_def)

lemma request_cong: "local_id n' = local_id n \<Longrightarrow> request ks xs n' = request ks xs n"
  by (rule ext) (simp add: request_def local_meta_def)

lemma request_inj:
  assumes "distinct ks" "i < length ks" "j < length ks" "request ks xs n i = request ks xs n j"
  shows "i = j"
  using assms by (simp add: request_def local_meta_def nth_eq_iff_index_eq)

text \<open>The hidden mailboxes of the asks that wait: empty, or with the answer to the item of the ask. The names of the other asks
  are free.\<close>

definition answer_box :: "(pyval \<Rightarrow> pyval res) \<Rightarrow> pyval \<Rightarrow> message queue \<Rightarrow> bool" where
  "answer_box f x q \<longleftrightarrow> items q = [] \<or> (\<exists>v mt. items q = [(v, mt)] \<and> f x = Inr v)"

definition boxes :: "(pyval \<Rightarrow> pyval res) \<Rightarrow> nat list \<Rightarrow> pyval list \<Rightarrow> (nat, nat) dict \<Rightarrow> node \<Rightarrow> bool" where
  "boxes f ks xs w n \<longleftrightarrow> node_wf n \<and> core n \<noteq> None \<and> (\<forall>i < length xs.
     case map_of w i of
       None \<Rightarrow> map_of (mailboxes n) (ask_name (ks ! i)) = None
     | Some q \<Rightarrow> own_box (ks ! i) q n \<and> answer_box f (xs ! i) (queue_at n q))"

lemma boxes_node: "boxes f ks xs w n \<Longrightarrow> node_wf n" "boxes f ks xs w n \<Longrightarrow> core n \<noteq> None"
  by (simp_all add: boxes_def)

lemma boxes_waiting:
  "boxes f ks xs w n \<Longrightarrow> i < length xs \<Longrightarrow> map_of w i = Some q \<Longrightarrow> own_box (ks ! i) q n \<and> answer_box f (xs ! i) (queue_at n q)"
  "boxes f ks xs w n \<Longrightarrow> i < length xs \<Longrightarrow> map_of w i = None \<Longrightarrow> map_of (mailboxes n) (ask_name (ks ! i)) = None"
  by (auto simp: boxes_def)

lemma boxes_spares:
  assumes "boxes f ks xs w n" "spares ks n n'" "length ks = length xs"
  shows "boxes f ks xs w n'" "i < length xs \<Longrightarrow> map_of w i = Some q \<Longrightarrow> queue_at n' q = queue_at n q"
proof -
  have k: "ks ! i \<in> set ks" if "i < length xs" for i using that assms(3) by simp
  show "i < length xs \<Longrightarrow> map_of w i = Some q \<Longrightarrow> queue_at n' q = queue_at n q"
    using boxes_waiting(1) [OF assms(1)] assms(2) k unfolding spares_def by blast
  show "boxes f ks xs w n'" unfolding boxes_def
  proof (intro conjI allI impI)
    fix i assume i: "i < length xs"
    show "case map_of w i of
       None \<Rightarrow> map_of (mailboxes n') (ask_name (ks ! i)) = None
     | Some q \<Rightarrow> own_box (ks ! i) q n' \<and> answer_box f (xs ! i) (queue_at n' q)"
    proof (cases "map_of w i")
      case None
      then show ?thesis using boxes_waiting(2) [OF assms(1) i None] assms(2) k [OF i] by (simp add: spares_def)
    next
      case (Some q)
      then show ?thesis using boxes_waiting(1) [OF assms(1) i Some] assms(2) k [OF i] by (simp add: spares_def)
    qed
  qed (use assms(2) in \<open>auto simp: spares_def\<close>)
qed

text \<open>What a worker does with a message of somebody else, and with a request of the call.\<close>

lemma work_foreign:
  assumes "node_wf n" "core n \<noteq> None" "answering f handle ex" "foreign ks m" "work handle ex m n = (r, n1)"
  shows "elsewhere ks d n n1"
proof -
  have same: "elsewhere ks d n n" using assms(1,2) by (intro elsewhere_same) simp_all
  have w: "work handle ex m n = (case f (fst m) of Inl e \<Rightarrow> (Inl e, n)
      | Inr v \<Rightarrow> if m_reply_to (snd m) = None then (Inr (), n) else reply n (snd m) v)"
    using assms(3) unfolding answering_def by blast
  show ?thesis
  proof (cases "f (fst m)")
    case (Inl e)
    with assms(5) w same show ?thesis by simp
  next
    case (Inr v)
    have "elsewhere ks d n (snd (send_local n a v None c))" if "\<forall>k \<in> set ks. a \<noteq> ask_name k" for a c
      using send_elsewhere [OF assms(1,2), where ref = "ActorRef a"] that by auto
    moreover have "elsewhere ks d n (snd (send_remote n peer a v None c))" for peer a c
      using send_elsewhere [OF assms(1,2), where ref = "RemoteRef peer a"] by auto
    ultimately have "elsewhere ks d n (snd (reply n (snd m) v))"
      using same assms(4) by (auto simp: reply_def reply_with_def foreign_def split: option.split)
    with assms(5) w same Inr show ?thesis by (auto split: if_splits)
  qed
qed

lemma work_request:
  assumes "boxes f ks xs w n" "length ks = length xs" "i < length xs" "answering f handle ex"
    and "work handle ex (request ks xs n i) n = (r, n1)"
  obtains "elsewhere ks d n n1" "isl (f (xs ! i)) \<or> map_of w i = None \<or> (\<exists>q. map_of w i = Some q \<and> items (queue_at n q) \<noteq> [])"
  | q v mt where "map_of w i = Some q" "f (xs ! i) = Inr v" "items (queue_at n q) = []"
    "n1 = n\<lparr>queues := dict_set q ((queue_at n q)\<lparr>items := [(v, mt)]\<rparr>) (queues n)\<rparr>"
proof -
  note n = boxes_node [OF assms(1)]
  have same: "elsewhere ks d n n" using n by (intro elsewhere_same) simp_all
  show thesis
  proof (cases "f (xs ! i)")
    case (Inl e)
    with assms(4,5) same show thesis by (intro that(1)) (auto simp: answering_def request_def)
  next
    case (Inr v)
    let ?k = "ask_name (ks ! i)" and ?c = "Some (int (ks ! i))"
    have w: "(r, n1) = send_local n ?k v None ?c"
      using assms(4,5) Inr by (simp add: answering_def request_def reply_def reply_with_def local_meta_def)
    show thesis
    proof (cases "map_of w i")
      case None
      then have "n1 = n" using w boxes_waiting(2) [OF assms(1,3) None] by (simp add: send_local_def)
      with same None show thesis by (intro that(1)) auto
    next
      case (Some q)
      then have b: "own_box (ks ! i) q n" "answer_box f (xs ! i) (queue_at n q)" using boxes_waiting(1) [OF assms(1,3)] by auto
      show thesis
      proof (cases "items (queue_at n q) = []")
        case True
        then have "\<not> queue_full (queue_at n q)" using b(1) by (simp add: own_box_def queue_full_def)
        then show thesis using w b(1) True send_local_accepted [of n ?k q v None ?c]
          by (intro that(2) [OF Some Inr True]) (auto simp: own_box_def)
      next
        case False
        then have "queue_full (queue_at n q)" using b by (auto simp: own_box_def answer_box_def queue_full_def)
        then have "n1 = on_core_event (Ev_mailbox_full ?k) n"
          using w b(1) by (simp add: own_box_def send_local_def enqueue_def put_nowait_def)
        with elsewhere_event [OF n] Some False show thesis by (intro that(1)) auto
      qed
    qed
  qed
qed

text \<open>The answer has come: one mailbox is filled, and nothing else changes.\<close>

lemma fill_box:
  assumes "boxes f ks xs w n" "distinct ks" "length ks = length xs" "i < length xs" "map_of w i = Some q" "f (xs ! i) = Inr v"
    and "n' = n\<lparr>queues := dict_set q ((queue_at n q)\<lparr>items := [(v, mt)]\<rparr>) (queues n)\<rparr>" "\<forall>k \<in> set ks. d \<noteq> ask_name k"
  shows "boxes f ks xs w n'" "local_id n' = local_id n" "mail n' d = mail n d" "unbounded d n' = unbounded d n" "mailboxes n' = mailboxes n"
    "\<And>j q'. j < length xs \<Longrightarrow> j \<noteq> i \<Longrightarrow> map_of w j = Some q' \<Longrightarrow> queue_at n' q' = queue_at n q'" "items (queue_at n' q) = [(v, mt)]"
proof -
  note b = boxes_waiting(1) [OF assms(1)]
  have own: "own_box (ks ! i) q n" using b [OF assms(4,5)] by blast
  then have key: "map_of (mailboxes n) (ask_name (ks ! i)) = Some q" by (simp add: own_box_def)
  have q: "queue_at n' q' = (if q' = q then (queue_at n q)\<lparr>items := [(v, mt)]\<rparr> else queue_at n q')" for q' by (simp add: assms(7))
  have m: "mailboxes n' = mailboxes n" by (simp add: assms(7))
  have diff: "q' \<noteq> q" if "j < length xs" "j \<noteq> i" "map_of w j = Some q'" for j q'
  proof -
    have "map_of (mailboxes n) (ask_name (ks ! j)) = Some q'" using b [OF that(1,3)] by (simp add: own_box_def)
    moreover have "ks ! j \<noteq> ks ! i" using that(1,2) assms(2-4) by (simp add: nth_eq_iff_index_eq)
    ultimately show ?thesis using own by (auto simp: own_box_def)
  qed
  show "\<And>j q'. j < length xs \<Longrightarrow> j \<noteq> i \<Longrightarrow> map_of w j = Some q' \<Longrightarrow> queue_at n' q' = queue_at n q'"
    using diff by (simp add: q)
  show "items (queue_at n' q) = [(v, mt)]" by (simp add: q)
  show "mailboxes n' = mailboxes n" by (rule m)
  show "local_id n' = local_id n" by (simp add: assms(7) local_id_def split: option.split)
  have "map_of (mailboxes n) d \<noteq> Some q" using own assms(3,4,8) by (auto simp: own_box_def)
  then show "mail n' d = mail n d" "unbounded d n' = unbounded d n"
    using put_fields(1,2) [OF key assms(7), of d] by simp_all
  have "queue_wf ((queue_at n q)\<lparr>items := [(v, mt)]\<rparr>)" using own by (simp add: own_box_def queue_wf_def)
  then have wf: "node_wf n'" unfolding assms(7)
    by (rule node_wf_put_queue [OF boxes_node(1) [OF assms(1)] node_wf_mailbox_key [OF boxes_node(1) [OF assms(1)] key]])
  have "own_box (ks ! j) q' n' \<and> answer_box f (xs ! j) (queue_at n' q')" if j: "j < length xs" "map_of w j = Some q'" for j q'
    using b [OF j] diff [OF j(1) _ j(2)] assms(5,6) j(2) by (cases "j = i") (auto simp: own_box_def answer_box_def q m)
  then show "boxes f ks xs w n'" using assms(1) wf assms(7) by (auto simp: boxes_def m split: option.splits)
qed

subsection \<open>The asks\<close>

lemma new_box_fresh: "node_wf n \<Longrightarrow> map_of (mailboxes n) a \<noteq> Some (next_id n)"
  using node_wf_mailbox_key [of n a "next_id n"] by (auto simp: node_wf_def queues_wf_def dest: map_of_SomeD)

lemma register_box:
  assumes "boxes f ks xs w n" "distinct ks" "length ks = length xs" "i < length xs" "map_of w i = None"
    and "n1 = registered 1 (ks ! i) n"
  shows "boxes f ks xs (dict_set i (next_id n) w) n1" "local_id n1 = local_id n" "items (queue_at n1 (next_id n)) = []"
    "a \<noteq> ask_name (ks ! i) \<Longrightarrow> map_of (mailboxes n1) a = map_of (mailboxes n) a"
    "map_of (mailboxes n) a = Some q \<Longrightarrow> queue_at n1 q = queue_at n q"
proof -
  note n = boxes_node [OF assms(1)]
  obtain c where c: "core n = Some c" using n(2) by blast
  have free: "map_of (mailboxes n) (ask_name (ks ! i)) = None" by (rule boxes_waiting(2) [OF assms(1,4,5)])
  note r = ask_registers [OF n(1) c free, where capacity = 1, folded assms(6)]
  have m: "map_of (mailboxes n1) a = (if a = ask_name (ks ! i) then Some (next_id n) else map_of (mailboxes n) a)" for a
    using r(4) by simp
  have q: "queue_at n1 q = (if q = next_id n then new_queue 1 else queue_at n q)" for q by (simp add: r(5) queue_at_def get_or_def)
  note fresh = new_box_fresh [OF n(1)]
  show "a \<noteq> ask_name (ks ! i) \<Longrightarrow> map_of (mailboxes n1) a = map_of (mailboxes n) a" by (simp add: m)
  show "map_of (mailboxes n) a = Some q \<Longrightarrow> queue_at n1 q = queue_at n q" using fresh [of a] by (auto simp: q)
  show "items (queue_at n1 (next_id n)) = []" by (simp add: q new_queue_def)
  obtain c' where c': "core n1 = Some c'" "c' = c\<lparr>core_routing := core_routing c'\<rparr>" using r(7) by blast
  have "core_local c' = core_local c" by (subst c'(2)) simp
  then show "local_id n1 = local_id n" using c c'(1) by (simp add: local_id_def)
  have "case map_of (dict_set i (next_id n) w) j of
       None \<Rightarrow> map_of (mailboxes n1) (ask_name (ks ! j)) = None
     | Some q \<Rightarrow> own_box (ks ! j) q n1 \<and> answer_box f (xs ! j) (queue_at n1 q)" if j: "j < length xs" for j
  proof (cases "j = i")
    case True
    then show ?thesis using fresh by (auto simp: own_box_def answer_box_def m q new_queue_def)
  next
    case False
    then have "ks ! j \<noteq> ks ! i" using j assms(2-4) by (simp add: nth_eq_iff_index_eq)
    then show ?thesis using boxes_waiting [OF assms(1) j] False fresh [of "ask_name (ks ! j)"]
      by (cases "map_of w j") (auto simp: own_box_def m q)
  qed
  then show "boxes f ks xs (dict_set i (next_id n) w) n1" using r(2) c'(1) by (simp add: boxes_def)
qed

lemma send_to_pool:
  assumes "node_wf n" "core n \<noteq> None" "map_of (mailboxes n) d = Some qd" "\<forall>k \<in> set ks. d \<noteq> ask_name k" "send_local n d x r c = (res, n')"
  shows "res = Inr ()" "spares ks n n'" "mailboxes n' = mailboxes n" "mail n' d = mail n d \<or> mail n' d = mail n d @ [(x, local_meta n r c)]"
    "unbounded d n \<Longrightarrow> unbounded d n' \<and> mail n' d = mail n d @ [(x, local_meta n r c)]"
proof -
  let ?m = "(x, local_meta n r c)"
  have "res = Inr () \<and> spares ks n n' \<and> mailboxes n' = mailboxes n \<and> (mail n' d = mail n d \<or> mail n' d = mail n d @ [?m])
    \<and> (unbounded d n \<longrightarrow> unbounded d n' \<and> mail n' d = mail n d @ [?m])"
  proof (cases "queue_full (queue_at n qd)")
    case True
    then have res: "res = Inr ()" "n' = on_core_event (Ev_mailbox_full d) n"
      using assms(3,5) by (simp_all add: send_local_def enqueue_def put_nowait_def)
    have "\<not> unbounded d n" using True assms(3) by (auto simp: unbounded_def queue_full_def)
    moreover have "mail n' d = mail n d" by (simp add: res mail_def event_frame queue_at_def cong: option.case_cong)
    ultimately show ?thesis using res elsewhere_event [OF assms(1,2)] by (simp add: elsewhere_def event_frame)
  next
    case False
    let ?x = "(queue_at n qd)\<lparr>items := items (queue_at n qd) @ [?m]\<rparr>"
    have res: "res = Inr ()" "n' = n\<lparr>queues := dict_set qd ?x (queues n)\<rparr>"
      using assms(5) send_local_accepted [OF assms(3) False, of x r c] by simp_all
    have "queue_wf ?x" using queue_wf_put [of ?m "queue_at n qd" ?x] False by (simp add: put_nowait_def)
    then have "spares ks n n'" unfolding res(2) by (rule spares_put [OF assms(1-4)])
    moreover have "mail n' d = mail n d @ [?m]" "unbounded d n' = unbounded d n"
      using put_fields(1,2) [OF assms(3) res(2), of d] assms(3) by (simp_all add: mail_def)
    ultimately show ?thesis using res by simp
  qed
  then show "res = Inr ()" "spares ks n n'" "mailboxes n' = mailboxes n" "mail n' d = mail n d \<or> mail n' d = mail n d @ [?m]"
    "unbounded d n \<Longrightarrow> unbounded d n' \<and> mail n' d = mail n d @ [?m]" by simp_all
qed

lemma pool_asks:
  assumes "boxes f ks xs w n" "distinct ks" "length ks = length xs" "i < length xs" "map_of w i = None"
    and "pool_ask p (ks ! i) n (xs ! i) = (res, n')" "d = pool_name p" "d \<in> dom (map_of (mailboxes n))" "\<forall>k \<in> set ks. d \<noteq> ask_name k"
  obtains q where "res = Inr q" "boxes f ks xs (dict_set i q w) n'" "local_id n' = local_id n" "d \<in> dom (map_of (mailboxes n'))"
    "mail n' d = mail n d \<or> mail n' d = mail n d @ [request ks xs n i]"
    "unbounded d n \<Longrightarrow> unbounded d n' \<and> mail n' d = mail n d @ [request ks xs n i]" "items (queue_at n' q) = []"
    "\<And>j q'. j < length xs \<Longrightarrow> map_of w j = Some q' \<Longrightarrow> queue_at n' q' = queue_at n q'"
proof -
  note n = boxes_node [OF assms(1)]
  obtain c where c: "core n = Some c" using n(2) by blast
  have free: "map_of (mailboxes n) (ask_name (ks ! i)) = None" by (rule boxes_waiting(2) [OF assms(1,4,5)])
  define n1 where "n1 = registered 1 (ks ! i) n"
  note r = register_box [OF assms(1-5) n1_def]
  obtain qd where qd: "map_of (mailboxes n) d = Some qd" using assms(8) by blast
  have kd: "d \<noteq> ask_name (ks ! i)" using assms(3,4,9) by simp
  have qd1: "map_of (mailboxes n1) d = Some qd" "queue_at n1 qd = queue_at n qd" using r(4) [OF kd] r(5) [OF qd] qd by simp_all
  obtain res1 n2 where s: "send_local n1 d (xs ! i) (Some (ask_name (ks ! i))) (Some (int (ks ! i))) = (res1, n2)" by fastforce
  note t = send_to_pool [OF boxes_node [OF r(1)] qd1(1) assms(9) s]
  have "pool_ask p (ks ! i) n (xs ! i) = (Inr (next_id n), n2)"
    using ask_registers(1) [OF n(1) c free, of 1 "ActorRef d" "xs ! i"] t(1) s by (simp add: pool_ask_def assms(7) n1_def)
  then have res: "res = Inr (next_id n)" "n' = n2" using assms(6) by simp_all
  have m: "(xs ! i, local_meta n1 (Some (ask_name (ks ! i))) (Some (int (ks ! i)))) = request ks xs n i"
    by (simp add: request_def local_meta_def r(2))
  have unb: "unbounded d n = unbounded d n1" "mail n1 d = mail n d" using qd qd1 by (simp_all add: unbounded_def mail_def)
  note b = boxes_spares [OF r(1) t(2) assms(3)]
  show thesis
  proof (rule that [OF res(1)])
    show "boxes f ks xs (dict_set i (next_id n) w) n'" unfolding res by (rule b(1))
    show "local_id n' = local_id n" using t(2) r(2) by (simp add: res spares_def)
    show "d \<in> dom (map_of (mailboxes n'))" using qd1 t(3) by (auto simp: res)
    show "items (queue_at n' (next_id n)) = []" using b(2) [OF assms(4), of "next_id n"] r(3) by (simp add: res)
    show "queue_at n' q' = queue_at n q'" if j: "j < length xs" "map_of w j = Some q'" for j q'
    proof -
      have "map_of (dict_set i (next_id n) w) j = Some q'" using j(2) assms(5) by auto
      then show ?thesis using b(2) [OF j(1)] boxes_waiting(1) [OF assms(1) j] r(5) by (auto simp: res own_box_def)
    qed
  qed (use t(4,5) unb m in \<open>auto simp: res\<close>)
qed

lemma cleanup_wf: "node_wf n \<Longrightarrow> node_wf (snd (ask_cleanup k (r, n)))"
  using node_wf_unregister [of n "ask_name k"] by (auto simp: ask_cleanup_def split: prod.splits sum.splits)

lemma finish_fields:
  assumes "node_wf n" "core n = Some c" "map_of (mailboxes n) a = Some q" "ask_finish k q n = (r, n')"
  shows "r = (case items (queue_at n q) of [] \<Rightarrow> Inl (TimeoutError []) | m # _ \<Rightarrow> Inr (fst m))"
    "mailboxes n' = dict_del (ask_name k) (mailboxes n)" "core n' \<noteq> None" "local_id n' = local_id n" "node_wf n'"
    "q' \<noteq> q \<Longrightarrow> queue_at n' q' = queue_at n q'"
proof -
  let ?r = "case items (queue_at n q) of [] \<Rightarrow> Inl (TimeoutError []) | m # _ \<Rightarrow> Inr (fst m)"
  obtain n0 where f: "ask_cleanup k (?r, n0) = (r, n')" and n0: "mailboxes n0 = mailboxes n" "core n0 = Some c" "local_id n0 = local_id n"
    "node_wf n0" "q' \<noteq> q \<Longrightarrow> queue_at n0 q' = queue_at n q'"
  proof (cases "items (queue_at n q)")
    case Nil
    then show thesis using assms by (intro that [of n]) (simp_all add: ask_finish_def get_item_def)
  next
    case (Cons m ms)
    let ?x = "(queue_at n q)\<lparr>items := ms\<rparr>"
    have "queue_wf ?x" using node_wf_queue [OF assms(1), of q] Cons by (auto simp: queue_wf_def)
    then have wf: "node_wf (n\<lparr>queues := dict_set q ?x (queues n)\<rparr>)"
      by (rule node_wf_put_queue [OF assms(1) node_wf_mailbox_key [OF assms(1,3)]])
    have "ask_cleanup k (?r, n\<lparr>queues := dict_set q ?x (queues n)\<rparr>) = (r, n')"
      using assms(4) Cons by (simp add: ask_finish_def get_item_def case_prod_beta)
    from that [OF this _ _ _ wf] show thesis by (simp add: assms(2) local_id_def)
  qed
  have "core_running c" using node_wf_running [OF assms(1,2)] .
  from cleanup_running [OF n0(2) this, of k ?r] f n0
  have d: "r = ?r" "mailboxes n' = dict_del (ask_name k) (mailboxes n)" "core n' \<noteq> None" "local_id n' = local_id n" "queues n' = queues n0"
    by auto
  show "r = ?r" "mailboxes n' = dict_del (ask_name k) (mailboxes n)" "core n' \<noteq> None" "local_id n' = local_id n" by (rule d)+
  show "node_wf n'" using cleanup_wf [OF n0(4), of k ?r] f by simp
  show "q' \<noteq> q \<Longrightarrow> queue_at n' q' = queue_at n q'" using n0(5) by (simp add: queue_at_def d(5))
qed

text \<open>The end of an ask: the answer in its mailbox or a timeout, and the name is free again.\<close>

lemma pool_finishes:
  assumes "boxes f ks xs w n" "distinct ks" "length ks = length xs" "i < length xs" "map_of w i = Some q"
    and "ask_finish (ks ! i) q n = (r, n')" "\<forall>k \<in> set ks. d \<noteq> ask_name k"
  shows "r = (case items (queue_at n q) of [] \<Rightarrow> Inl (TimeoutError []) | m # _ \<Rightarrow> Inr (fst m))" "boxes f ks xs (dict_del i w) n'"
    "local_id n' = local_id n" "mail n' d = mail n d" "map_of (mailboxes n') d = map_of (mailboxes n) d" "unbounded d n' = unbounded d n"
    "\<And>j q'. j < length xs \<Longrightarrow> j \<noteq> i \<Longrightarrow> map_of w j = Some q' \<Longrightarrow> queue_at n' q' = queue_at n q'"
proof -
  note n = boxes_node [OF assms(1)]
  obtain c where c: "core n = Some c" using n(2) by blast
  let ?name = "ask_name (ks ! i)"
  have own: "own_box (ks ! i) q n" using boxes_waiting(1) [OF assms(1,4,5)] by blast
  then have key: "map_of (mailboxes n) ?name = Some q" by (simp add: own_box_def)
  note g = finish_fields [OF n(1) c key assms(6)]
  show "r = (case items (queue_at n q) of [] \<Rightarrow> Inl (TimeoutError []) | m # _ \<Rightarrow> Inr (fst m))" "local_id n' = local_id n" by (rule g)+
  have dn: "d \<noteq> ?name" using assms(3,4,7) by simp
  then show m: "map_of (mailboxes n') d = map_of (mailboxes n) d" by (simp add: g(2))
  have qd: "qd \<noteq> q" if "map_of (mailboxes n) d = Some qd" for qd using own dn that by (auto simp: own_box_def)
  show "mail n' d = mail n d" "unbounded d n' = unbounded d n"
    unfolding mail_def unbounded_def m using qd g(6) by (auto split: option.split)
  have diff: "q2 \<noteq> q \<and> ks ! j \<noteq> ks ! i" if "j < length xs" "j \<noteq> i" "map_of w j = Some q2" for j q2
  proof -
    have "map_of (mailboxes n) (ask_name (ks ! j)) = Some q2" using boxes_waiting(1) [OF assms(1) that(1,3)] by (simp add: own_box_def)
    moreover have "ks ! j \<noteq> ks ! i" using that(1,2) assms(2-4) by (simp add: nth_eq_iff_index_eq)
    ultimately show ?thesis using own by (auto simp: own_box_def)
  qed
  show "\<And>j q'. j < length xs \<Longrightarrow> j \<noteq> i \<Longrightarrow> map_of w j = Some q' \<Longrightarrow> queue_at n' q' = queue_at n q'"
    using diff g(6) by blast
  have "case map_of (dict_del i w) j of None \<Rightarrow> map_of (mailboxes n') (ask_name (ks ! j)) = None
     | Some q2 \<Rightarrow> own_box (ks ! j) q2 n' \<and> answer_box f (xs ! j) (queue_at n' q2)" if j: "j < length xs" for j
  proof (cases "j = i")
    case False
    show ?thesis
    proof (cases "map_of w j")
      case None
      then show ?thesis using boxes_waiting(2) [OF assms(1) j None] False by (simp add: g(2))
    next
      case (Some q2)
      then show ?thesis using boxes_waiting(1) [OF assms(1) j Some] diff [OF j False Some] False g(6) [of q2]
        by (auto simp: own_box_def g(2) split: if_splits)
    qed
  qed (simp add: g(2))
  then show "boxes f ks xs (dict_del i w) n'" using g(3,5) by (simp add: boxes_def)
qed

lemma take_from_pool:
  assumes "node_wf n" "core n \<noteq> None" "take_mail d n = Some (m, n')" "\<forall>k \<in> set ks. d \<noteq> ask_name k"
  shows "spares ks n n'" "mail n d = m # mail n' d" "mailboxes n' = mailboxes n" "unbounded d n' = unbounded d n"
proof -
  obtain q ms where q: "map_of (mailboxes n) d = Some q" "items (queue_at n q) = m # ms"
    and n': "n' = n\<lparr>queues := dict_set q ((queue_at n q)\<lparr>items := ms\<rparr>) (queues n)\<rparr>"
    using assms(3) by (auto simp: take_mail_def get_item_def split: option.splits list.splits)
  have "queue_wf ((queue_at n q)\<lparr>items := ms\<rparr>)" using node_wf_queue [OF assms(1), of q] q(2) by (auto simp: queue_wf_def)
  then show "spares ks n n'" unfolding n' by (rule spares_put [OF assms(1,2) q(1) assms(4)])
  show "mail n d = m # mail n' d" "mailboxes n' = mailboxes n" "unbounded d n' = unbounded d n"
    using put_fields(1,2) [OF q(1) n', of d] put_fields(3) [OF q(1) n'] q by (simp_all add: mail_def)
qed

end
