(* ===== verification/Pool_Map_Laws.thy ===== *)
theory Pool_Map_Laws
  imports Pool_Map Startup
begin

text \<open>
  What a call of \<^verbatim>\<open>PoolRef.map\<close> returns. The invariant follows each request from the mailbox of the dispatcher through
  the queues to the hidden mailbox of its ask. Answers never get mixed up, and with unbounded
  queues no request is lost.
\<close>

subsection \<open>The invariant of a call\<close>

definition books :: "pyval list \<Rightarrow> map_run \<Rightarrow> bool" where
  "books xs s \<longleftrightarrow> asked s \<le> length xs \<and> distinct (keys (waiting s)) \<and> distinct (keys (outcomes s))
     \<and> set (keys (waiting s)) \<inter> set (keys (outcomes s)) = {} \<and> set (keys (waiting s)) \<union> set (keys (outcomes s)) = {..<asked s}"

text \<open>Requests are on their way at most once, and no more once their answer is there.\<close>

definition under_way :: "nat list \<Rightarrow> pyval list \<Rightarrow> map_run \<Rightarrow> nat \<Rightarrow> nat" where
  "under_way ks xs s i = count (pipeline s) (request ks xs (map_node s) i)"

abbreviation reply_box :: "map_run \<Rightarrow> nat \<Rightarrow> message list" where
  "reply_box s q \<equiv> items (queue_at (map_node s) q)"

definition flow :: "nat list \<Rightarrow> pyval list \<Rightarrow> map_run \<Rightarrow> bool" where
  "flow ks xs s \<longleftrightarrow> (\<forall>m \<in># pipeline s. foreign ks m \<or> (\<exists>i < asked s. m = request ks xs (map_node s) i))
     \<and> (\<forall>i < length xs. under_way ks xs s i \<le> 1)
     \<and> (\<forall>i q. map_of (waiting s) i = Some q \<longrightarrow> reply_box s q \<noteq> [] \<longrightarrow> under_way ks xs s i = 0)"

definition set_up :: "nat list \<Rightarrow> pyval list \<Rightarrow> map_run \<Rightarrow> bool" where
  "set_up ks xs s \<longleftrightarrow> distinct ks \<and> length ks = length xs \<and> pool_wf (map_pool s)
     \<and> pool_name (map_pool s) \<in> dom (map_of (mailboxes (map_node s))) \<and> (\<forall>k \<in> set ks. pool_name (map_pool s) \<noteq> ask_name k)"

text \<open>What an ask may end with: the answer to its item, or a timeout; an exception of the handler stays in the pool.\<close>

definition due :: "(pyval \<Rightarrow> pyval res) \<Rightarrow> pyval \<Rightarrow> pyval res \<Rightarrow> bool" where
  "due f x r \<longleftrightarrow> r = Inl (TimeoutError []) \<or> \<not> isl r \<and> f x = r"

definition map_inv :: "(pyval \<Rightarrow> pyval res) \<Rightarrow> nat list \<Rightarrow> pyval list \<Rightarrow> map_run \<Rightarrow> bool" where
  "map_inv f ks xs s \<longleftrightarrow> set_up ks xs s \<and> books xs s \<and> boxes f ks xs (waiting s) (map_node s) \<and> flow ks xs s
     \<and> (\<forall>(i, r) \<in> set (outcomes s). due f (xs ! i) r)"

text \<open>With room in every queue and a key for every item, a request that is not answered yet is on its way, unless its
  handler fails.\<close>

definition roomy :: "(pyval \<Rightarrow> int res) \<Rightarrow> pyval list \<Rightarrow> map_run \<Rightarrow> bool" where
  "roomy key xs s \<longleftrightarrow> unbounded (pool_name (map_pool s)) (map_node s) \<and> (\<forall>x \<in> set (map maxsize (pool_queues (map_pool s))). x \<le> 0)
     \<and> (\<forall>x \<in> set xs. \<not> isl (shard_of key (map_pool s) x))"

definition kept :: "(pyval \<Rightarrow> pyval res) \<Rightarrow> nat list \<Rightarrow> pyval list \<Rightarrow> map_run \<Rightarrow> bool" where
  "kept f ks xs s \<longleftrightarrow> (\<forall>i q. map_of (waiting s) i = Some q \<longrightarrow> reply_box s q = [] \<longrightarrow> isl (f (xs ! i)) \<or> under_way ks xs s i = 1)"

lemma waiting_bound: "books xs s \<Longrightarrow> map_of (waiting s) i = Some q \<Longrightarrow> i < asked s \<and> i < length xs"
proof -
  assume b: "books xs s" and w: "map_of (waiting s) i = Some q"
  have "i \<in> set (keys (waiting s))" using map_of_SomeD [OF w] by force
  then have "i \<in> {..<asked s}" "asked s \<le> length xs" using b unfolding books_def by blast+
  then show ?thesis by simp
qed

lemma flow_carry:
  assumes "flow ks xs s" "local_id (map_node s') = local_id (map_node s)" "asked s' = asked s"
    and "\<And>i. i < length xs \<Longrightarrow> under_way ks xs s' i \<le> under_way ks xs s i" "\<And>m. m \<in># pipeline s' \<Longrightarrow> m \<in># pipeline s \<or> foreign ks m"
    and "\<And>i q. map_of (waiting s') i = Some q \<Longrightarrow> i < length xs"
    and "\<And>i q. map_of (waiting s') i = Some q \<Longrightarrow> reply_box s' q \<noteq> [] \<Longrightarrow>
      map_of (waiting s) i = Some q \<and> reply_box s q \<noteq> [] \<or> under_way ks xs s' i = 0"
  shows "flow ks xs s'"
  unfolding flow_def
proof (intro conjI allI impI ballI)
  fix m assume "m \<in># pipeline s'"
  then show "foreign ks m \<or> (\<exists>i < asked s'. m = request ks xs (map_node s') i)"
    using assms(1) assms(5) [of m] by (auto simp: flow_def assms(3) request_cong [OF assms(2)])
next
  fix i assume "i < length xs"
  then show "under_way ks xs s' i \<le> 1" using assms(1) assms(4) [of i] by (force simp: flow_def)
next
  fix i q assume w: "map_of (waiting s') i = Some q" "reply_box s' q \<noteq> []"
  have "under_way ks xs s i = 0" if "map_of (waiting s) i = Some q" "reply_box s q \<noteq> []" using assms(1) that by (simp add: flow_def)
  then show "under_way ks xs s' i = 0" using assms(4) [OF assms(6) [OF w(1)]] assms(7) [OF w] by auto
qed

lemma foreign_count: "\<forall>m \<in> set fs. foreign ks m \<Longrightarrow> i < length ks \<Longrightarrow> count (mset fs) (request ks xs n i) = 0"
  using request_not_foreign by (force simp: count_eq_zero_iff)

text \<open>Steps that move messages only: \<open>G\<close> leaves the pipeline, and messages of others enter it.\<close>

lemma moved_under_way:
  assumes "length ks = length xs" "local_id (map_node s') = local_id (map_node s)" "pipeline s' + G = pipeline s + mset fs"
    and "\<forall>m \<in> set fs. foreign ks m" "i < length xs"
  shows "under_way ks xs s' i + count G (request ks xs (map_node s) i) = under_way ks xs s i"
proof -
  let ?m = "request ks xs (map_node s) i"
  have "count (pipeline s' + G) ?m = count (pipeline s + mset fs) ?m" by (simp only: assms(3))
  moreover have "count (mset fs) ?m = 0" using foreign_count assms(1,4,5) by simp
  ultimately show ?thesis by (simp add: under_way_def request_cong [OF assms(2)])
qed

lemma map_inv_moved:
  assumes "map_inv f ks xs s" "set_up ks xs s'" "waiting s' = waiting s" "outcomes s' = outcomes s" "asked s' = asked s"
    and "boxes f ks xs (waiting s) (map_node s')" "local_id (map_node s') = local_id (map_node s)"
    and "pipeline s' + G = pipeline s + mset fs" "\<forall>m \<in> set fs. foreign ks m"
    and "\<And>i q. i < length xs \<Longrightarrow> map_of (waiting s) i = Some q \<Longrightarrow> reply_box s' q \<noteq> [] \<Longrightarrow> reply_box s q \<noteq> [] \<or> request ks xs (map_node s) i \<in># G"
  shows "map_inv f ks xs s'"
proof -
  have len: "length ks = length xs" using assms(2) by (simp add: set_up_def)
  have fl: "flow ks xs s" and bk: "books xs s" using assms(1) by (simp_all add: map_inv_def)
  note u = moved_under_way [OF len assms(7-9)]
  have "flow ks xs s'"
  proof (rule flow_carry [OF fl assms(7,5)])
    show "under_way ks xs s' i \<le> under_way ks xs s i" if "i < length xs" for i using u [OF that] by simp
    show "m \<in># pipeline s \<or> foreign ks m" if "m \<in># pipeline s'" for m
    proof -
      have "m \<in># pipeline s' + G" using that by simp
      then have "m \<in># pipeline s + mset fs" by (simp only: assms(8))
      then show ?thesis using assms(9) by auto
    qed
    show "i < length xs" if "map_of (waiting s') i = Some q" for i q using waiting_bound [OF bk] that assms(3) by simp
    show "map_of (waiting s) i = Some q \<and> reply_box s q \<noteq> [] \<or> under_way ks xs s' i = 0"
      if w: "map_of (waiting s') i = Some q" "reply_box s' q \<noteq> []" for i q
    proof -
      have w': "map_of (waiting s) i = Some q" and i: "i < length xs" using w(1) assms(3) waiting_bound [OF bk] by auto
      have "under_way ks xs s' i = 0" if "request ks xs (map_node s) i \<in># G"
      proof -
        have "under_way ks xs s i \<le> 1" using fl i by (simp add: flow_def)
        moreover have "0 < count G (request ks xs (map_node s) i)" using that by (simp add: count_greater_zero_iff)
        ultimately show ?thesis using u [OF i] by linarith
      qed
      then show ?thesis using assms(10) [OF i w' w(2)] w' by auto
    qed
  qed
  then show ?thesis using assms(1-6) by (simp add: map_inv_def books_def)
qed

lemma kept_moved:
  assumes "map_inv f ks xs s" "kept f ks xs s" "waiting s' = waiting s" "local_id (map_node s') = local_id (map_node s)"
    and "pipeline s' + G = pipeline s + mset fs" "\<forall>m \<in> set fs. foreign ks m"
    and "\<And>i q. i < length xs \<Longrightarrow> map_of (waiting s) i = Some q \<Longrightarrow> reply_box s' q = [] \<Longrightarrow>
      reply_box s q = [] \<and> (isl (f (xs ! i)) \<or> request ks xs (map_node s) i \<notin># G)"
  shows "kept f ks xs s'"
  unfolding kept_def
proof (intro allI impI)
  fix i q assume w: "map_of (waiting s') i = Some q" "reply_box s' q = []"
  have len: "length ks = length xs" using assms(1) by (simp add: map_inv_def set_up_def)
  have i: "i < length xs" using waiting_bound [of xs s] assms(1,3) w(1) by (simp add: map_inv_def)
  note e = assms(7) [OF i w(1) [unfolded assms(3)] w(2)]
  then have "isl (f (xs ! i)) \<or> under_way ks xs s i = 1" using assms(2) w(1) by (simp add: kept_def assms(3))
  then show "isl (f (xs ! i)) \<or> under_way ks xs s' i = 1"
    using e moved_under_way [OF len assms(4-6) i] by (auto simp: not_in_iff)
qed

text \<open>The effect of the pieces on what is on its way.\<close>

lemma pipeline_elsewhere:
  assumes "elsewhere ks (pool_name (map_pool s)) (map_node s) n"
  obtains fs where "pipeline (s\<lparr>map_node := n\<rparr>) = pipeline s + mset fs" "\<forall>m \<in> set fs. foreign ks m" "local_id n = local_id (map_node s)"
proof -
  obtain fs where fs: "mail n (pool_name (map_pool s)) = mail (map_node s) (pool_name (map_pool s)) @ fs" "\<forall>m \<in> set fs. foreign ks m"
    using assms unfolding elsewhere_def by blast
  moreover have "local_id n = local_id (map_node s)" using assms by (simp add: elsewhere_def spares_def)
  ultimately show thesis by (intro that [OF _ fs(2)]) (simp_all add: pipeline_def)
qed

lemma step_other:
  assumes "map_inv f ks xs s" "elsewhere ks (pool_name (map_pool s)) (map_node s) n"
  shows "map_inv f ks xs (s\<lparr>map_node := n\<rparr>)"
    "roomy key xs s \<Longrightarrow> kept f ks xs s \<Longrightarrow> roomy key xs (s\<lparr>map_node := n\<rparr>) \<and> kept f ks xs (s\<lparr>map_node := n\<rparr>)"
proof -
  obtain fs where p: "pipeline (s\<lparr>map_node := n\<rparr>) = pipeline s + mset fs" "\<forall>m \<in> set fs. foreign ks m" "local_id n = local_id (map_node s)"
    by (rule pipeline_elsewhere [OF assms(2)])
  have i: "set_up ks xs s" "boxes f ks xs (waiting s) (map_node s)" using assms(1) by (simp_all add: map_inv_def)
  have len: "length ks = length xs" using i(1) by (simp add: set_up_def)
  have sp: "spares ks (map_node s) n" using assms(2) by (simp add: elsewhere_def)
  note b = boxes_spares [OF i(2) sp len]
  have "set_up ks xs (s\<lparr>map_node := n\<rparr>)" using i(1) assms(2) by (auto simp: set_up_def elsewhere_def)
  then show "map_inv f ks xs (s\<lparr>map_node := n\<rparr>)"
    by (rule map_inv_moved [OF assms(1), where G = "{#}" and fs = fs]) (simp_all add: p b)
  show "roomy key xs s \<Longrightarrow> kept f ks xs s \<Longrightarrow> roomy key xs (s\<lparr>map_node := n\<rparr>) \<and> kept f ks xs (s\<lparr>map_node := n\<rparr>)"
  proof
    assume r: "roomy key xs s" and k: "kept f ks xs s"
    show "roomy key xs (s\<lparr>map_node := n\<rparr>)" using r assms(2) by (simp add: roomy_def elsewhere_def)
    show "kept f ks xs (s\<lparr>map_node := n\<rparr>)"
      by (rule kept_moved [OF assms(1) k, where G = "{#}" and fs = fs]) (simp_all add: p b)
  qed
qed

lemma step_dispatch:
  assumes "map_inv f ks xs s" "take_mail (pool_name (map_pool s)) (map_node s) = Some (m, n)" "dispatcher_receive key m (map_pool s, n) = (p, n')"
  shows "map_inv f ks xs (s\<lparr>map_pool := p, map_node := n'\<rparr>)"
    "roomy key xs s \<Longrightarrow> kept f ks xs s \<Longrightarrow> roomy key xs (s\<lparr>map_pool := p, map_node := n'\<rparr>) \<and> kept f ks xs (s\<lparr>map_pool := p, map_node := n'\<rparr>)"
proof -
  let ?d = "pool_name (map_pool s)" and ?s = "s\<lparr>map_pool := p, map_node := n'\<rparr>"
  have i: "set_up ks xs s" "boxes f ks xs (waiting s) (map_node s)" "flow ks xs s" using assms(1) by (simp_all add: map_inv_def)
  have len: "length ks = length xs" and pw: "pool_wf (map_pool s)" and nd: "\<forall>k \<in> set ks. ?d \<noteq> ask_name k" using i(1) by (simp_all add: set_up_def)
  note t = take_from_pool [OF boxes_node [OF i(2)] assms(2) nd]
  note d = dispatch_load [OF pw assms(3)]
  have e: "elsewhere ks ?d n n'" using d(5) elsewhere_event elsewhere_same t(1) by (auto simp: spares_def)
  have "mail n' ?d = mail n ?d" using d(5) by (auto simp: mail_def event_frame queue_at_def cong: option.case_cong)
  then have p: "pipeline ?s + (if accepts key (map_pool s) m then {#} else {#m#}) = pipeline s + mset []"
    using t(2) by (simp add: pipeline_def d(1,3))
  have sp: "spares ks (map_node s) n'" using spares_trans [OF t(1)] e by (simp add: elsewhere_def)
  note b = boxes_spares [OF i(2) sp len]
  have lid: "local_id (map_node ?s) = local_id (map_node s)" using sp by (simp add: spares_def)
  have "set_up ks xs ?s" using i(1) e t(3) d(2,3) by (auto simp: set_up_def elsewhere_def)
  then show "map_inv f ks xs ?s"
    by (rule map_inv_moved [OF assms(1) _ _ _ _ _ lid p]) (simp_all add: b)
  show "roomy key xs s \<Longrightarrow> kept f ks xs s \<Longrightarrow> roomy key xs ?s \<and> kept f ks xs ?s"
  proof
    assume r: "roomy key xs s" and k: "kept f ks xs s"
    show "roomy key xs ?s" using r e t(4) d(3,6,8,9) shard_of_cong(1) [of p "map_pool s"] by (simp add: roomy_def elsewhere_def)
    have "accepts key (map_pool s) (request ks xs (map_node s) i)" if "i < length xs" for i
    proof -
      have "xs ! i \<in> set xs" using that by simp
      then obtain j where j: "shard_of key (map_pool s) (xs ! i) = Inr j"
        using r by (cases "shard_of key (map_pool s) (xs ! i)") (auto simp: roomy_def)
      then have "pool_queues (map_pool s) ! j \<in> set (pool_queues (map_pool s))" using shard_bound [OF pw j] by simp
      then show ?thesis using r j by (auto simp: accepts_def request_def queue_full_def roomy_def)
    qed
    then show "kept f ks xs ?s"
      by (intro kept_moved [OF assms(1) k _ lid p]) (auto simp: b)
  qed
qed

text \<open>What a worker leaves behind after it has taken the message \<open>m\<close>.\<close>

definition worked :: "(pyval \<Rightarrow> pyval res) \<Rightarrow> nat list \<Rightarrow> pyval list \<Rightarrow> map_run \<Rightarrow> message \<Rightarrow> node \<Rightarrow> bool" where
  "worked f ks xs s m n \<longleftrightarrow> (\<exists>fs. mail n (pool_name (map_pool s)) = mail (map_node s) (pool_name (map_pool s)) @ fs \<and> (\<forall>m \<in> set fs. foreign ks m))
     \<and> boxes f ks xs (waiting s) n \<and> local_id n = local_id (map_node s) \<and> pool_name (map_pool s) \<in> dom (map_of (mailboxes n))
     \<and> (unbounded (pool_name (map_pool s)) (map_node s) \<longrightarrow> unbounded (pool_name (map_pool s)) n)
     \<and> (\<forall>i q. i < length xs \<longrightarrow> map_of (waiting s) i = Some q \<longrightarrow>
         (items (queue_at n q) \<noteq> [] \<longrightarrow> reply_box s q \<noteq> [] \<or> m = request ks xs (map_node s) i)
       \<and> (items (queue_at n q) = [] \<longrightarrow> reply_box s q = [] \<and> (isl (f (xs ! i)) \<or> m \<noteq> request ks xs (map_node s) i)))"

lemma worked_elsewhere:
  assumes "set_up ks xs s" "boxes f ks xs (waiting s) (map_node s)" "elsewhere ks (pool_name (map_pool s)) (map_node s) n"
    and "\<And>i q. i < length xs \<Longrightarrow> m = request ks xs (map_node s) i \<Longrightarrow> map_of (waiting s) i = Some q \<Longrightarrow> reply_box s q \<noteq> [] \<or> isl (f (xs ! i))"
  shows "worked f ks xs s m n"
proof -
  have len: "length ks = length xs" and dom: "pool_name (map_pool s) \<in> dom (map_of (mailboxes (map_node s)))" using assms(1) by (simp_all add: set_up_def)
  have sp: "spares ks (map_node s) n" using assms(3) by (simp add: elsewhere_def)
  note b = boxes_spares [OF assms(2) sp len]
  show ?thesis using assms(3) sp dom assms(4) b(2) unfolding worked_def
    by (intro conjI allI impI b(1)) (auto simp: elsewhere_def spares_def)
qed

lemma worked_filled:
  assumes "set_up ks xs s" "boxes f ks xs (waiting s) (map_node s)" "i < length xs" "map_of (waiting s) i = Some q" "f (xs ! i) = Inr v"
    and "n = (map_node s)\<lparr>queues := dict_set q ((queue_at (map_node s) q)\<lparr>items := [(v, mt)]\<rparr>) (queues (map_node s))\<rparr>"
  shows "worked f ks xs s (request ks xs (map_node s) i) n"
proof -
  have s: "length ks = length xs" "distinct ks" "pool_name (map_pool s) \<in> dom (map_of (mailboxes (map_node s)))"
    "\<forall>k \<in> set ks. pool_name (map_pool s) \<noteq> ask_name k" using assms(1) by (simp_all add: set_up_def)
  note b = fill_box [OF assms(2) s(2,1) assms(3-6) s(4)]
  have inj: "j = i" if "j < length xs" "request ks xs (map_node s) i = request ks xs (map_node s) j" for j
    using request_inj [OF s(2) _ _ that(2)] that(1) assms(3) s(1) by simp
  have "(items (queue_at n q') \<noteq> [] \<longrightarrow> reply_box s q' \<noteq> [] \<or> request ks xs (map_node s) i = request ks xs (map_node s) j)
      \<and> (items (queue_at n q') = [] \<longrightarrow> reply_box s q' = [] \<and> (isl (f (xs ! j)) \<or> request ks xs (map_node s) i \<noteq> request ks xs (map_node s) j))"
    if j: "j < length xs" "map_of (waiting s) j = Some q'" for j q'
    using b(6) [OF j(1) _ j(2)] b(7) assms(4) j(2) inj [OF j(1)] by (cases "j = i") auto
  then show ?thesis using b(1-5) s(3) by (simp add: worked_def)
qed

lemma worked_event:
  assumes "worked f ks xs s m n" "length ks = length xs"
  shows "worked f ks xs s m (on_core_event ev n)"
proof -
  have b: "boxes f ks xs (waiting s) n" using assms(1) by (simp add: worked_def)
  have "elsewhere ks (pool_name (map_pool s)) n (on_core_event ev n)" by (rule elsewhere_event [OF boxes_node [OF b]])
  then have "boxes f ks xs (waiting s) (on_core_event ev n)" using boxes_spares(1) [OF b _ assms(2)] by (simp add: elsewhere_def)
  moreover have "queue_at (on_core_event ev n) = queue_at n" "mailboxes (on_core_event ev n) = mailboxes n"
    by (auto simp: queue_at_def event_frame)
  moreover from this have "mail (on_core_event ev n) d = mail n d" "unbounded d (on_core_event ev n) = unbounded d n" for d
    by (simp_all only: mail_def unbounded_def)
  ultimately show ?thesis using assms(1) by (simp add: worked_def)
qed

lemma work_effect:
  assumes "set_up ks xs s" "boxes f ks xs (waiting s) (map_node s)" "answering f handle ex" "work handle ex m (map_node s) = (r, n)"
    and "foreign ks m \<or> (\<exists>i < length xs. m = request ks xs (map_node s) i)"
  shows "worked f ks xs s m n"
proof -
  have len: "length ks = length xs" and dis: "distinct ks" using assms(1) by (simp_all add: set_up_def)
  note calm = worked_elsewhere [OF assms(1,2), of n m]
  show ?thesis
  proof (cases "foreign ks m")
    case True
    then have "m \<noteq> request ks xs (map_node s) i" if "i < length xs" for i using request_not_foreign [of i ks xs "map_node s"] that len by auto
    then show ?thesis using work_foreign [OF boxes_node [OF assms(2)] assms(3) True assms(4)] by (intro calm) auto
  next
    case False
    then obtain i where i: "i < length xs" "m = request ks xs (map_node s) i" using assms(5) by blast
    have same: "j = i" if "j < length xs" "m = request ks xs (map_node s) j" for j
      using request_inj [OF dis _ _ that(2) [unfolded i(2)]] that(1) i(1) len by simp
    show ?thesis
    proof (rule work_request [OF assms(2) len i(1) assms(3) assms(4) [unfolded i(2)], of "pool_name (map_pool s)"])
      assume "elsewhere ks (pool_name (map_pool s)) (map_node s) n"
        "isl (f (xs ! i)) \<or> map_of (waiting s) i = None \<or> (\<exists>q. map_of (waiting s) i = Some q \<and> reply_box s q \<noteq> [])"
      then show ?thesis using same by (intro calm) auto
    qed (use worked_filled [OF assms(1,2) i(1)] i(2) in blast)
  qed
qed

lemma step_work:
  assumes "map_inv f ks xs s" "answering f handle (pool_exec (map_pool s))" "worker_step handle w (map_pool s, map_node s) = (t, p, n)"
  shows "map_inv f ks xs (s\<lparr>map_pool := p, map_node := n\<rparr>)" "pool_exec p = pool_exec (map_pool s)"
    "roomy key xs s \<Longrightarrow> kept f ks xs s \<Longrightarrow> roomy key xs (s\<lparr>map_pool := p, map_node := n\<rparr>) \<and> kept f ks xs (s\<lparr>map_pool := p, map_node := n\<rparr>)"
proof -
  let ?s = "s\<lparr>map_pool := p, map_node := n\<rparr>"
  have i: "set_up ks xs s" "boxes f ks xs (waiting s) (map_node s)" "flow ks xs s" "books xs s" using assms(1) by (simp_all add: map_inv_def)
  have len: "length ks = length xs" and pw: "pool_wf (map_pool s)" using i(1) by (simp_all add: set_up_def)
  note d = worker_load [OF pw assms(3)]
  show "pool_exec p = pool_exec (map_pool s)" by (rule d(4))
  have "map_inv f ks xs ?s \<and> (roomy key xs s \<longrightarrow> kept f ks xs s \<longrightarrow> roomy key xs ?s \<and> kept f ks xs ?s)"
  proof (cases t)
    case None
    then have "?s = s" using assms(3) by (auto simp: worker_step_def Let_def split: if_splits option.splits prod.splits sum.splits)
    then show ?thesis using assms(1) by simp
  next
    case (Some m)
    obtain r n1 where r: "work handle (pool_exec (map_pool s)) m (map_node s) = (r, n1)" "n = n1 \<or> (\<exists>ev. n = on_core_event ev n1)"
      using d(5) Some by auto
    have "m \<in># pipeline s" using d(1) Some by (simp add: pipeline_def)
    then have "foreign ks m \<or> (\<exists>i < length xs. m = request ks xs (map_node s) i)"
      using i(3,4) unfolding flow_def books_def by (meson order.strict_trans2)
    from work_effect [OF i(1,2) assms(2) r(1) this] have "worked f ks xs s m n1" .
    with worked_event [OF this len] r(2) have w: "worked f ks xs s m n" by blast
    then obtain fs where fs: "mail n (pool_name (map_pool s)) = mail (map_node s) (pool_name (map_pool s)) @ fs" "\<forall>m \<in> set fs. foreign ks m"
      unfolding worked_def by blast
    have p: "pipeline ?s + {#m#} = pipeline s + mset fs" using d(1,3) Some fs(1) by (simp add: pipeline_def)
    have lid: "local_id (map_node ?s) = local_id (map_node s)" using w by (simp add: worked_def)
    have "set_up ks xs ?s" using i(1) d(2,3) w by (simp add: set_up_def worked_def)
    then have "map_inv f ks xs ?s"
      by (rule map_inv_moved [OF assms(1) _ _ _ _ _ lid p fs(2)]) (use w in \<open>auto simp: worked_def\<close>)
    moreover have "kept f ks xs ?s" if "kept f ks xs s"
      by (rule kept_moved [OF assms(1) that _ lid p fs(2)]) (use w in \<open>auto simp: worked_def\<close>)
    moreover have "roomy key xs ?s" if "roomy key xs s"
      using that w d(3,6,8,9) shard_of_cong(1) [of p "map_pool s"] by (simp add: roomy_def worked_def)
    ultimately show ?thesis by blast
  qed
  then show "map_inv f ks xs ?s" "roomy key xs s \<Longrightarrow> kept f ks xs s \<Longrightarrow> roomy key xs ?s \<and> kept f ks xs ?s" by blast+
qed

lemma under_way_later: "flow ks xs s \<Longrightarrow> distinct ks \<Longrightarrow> length ks = length xs \<Longrightarrow> asked s \<le> i \<Longrightarrow> i < length xs \<Longrightarrow> under_way ks xs s i = 0"
proof -
  assume a: "flow ks xs s" "distinct ks" "length ks = length xs" "asked s \<le> i" "i < length xs"
  have "request ks xs (map_node s) i \<notin># pipeline s"
  proof
    assume "request ks xs (map_node s) i \<in># pipeline s"
    then obtain j where "j < asked s" "request ks xs (map_node s) i = request ks xs (map_node s) j"
      using a(1) request_not_foreign [of i ks xs "map_node s"] a(3,5) by (auto simp: flow_def)
    with request_inj [OF a(2), of i j xs "map_node s"] a(3-5) show False by simp
  qed
  then show ?thesis by (simp add: under_way_def not_in_iff)
qed

text \<open>A new request enters the pipeline, or is dropped because the mailbox of the dispatcher is full.\<close>

lemma flow_asked:
  assumes "map_inv f ks xs s" "asked s < length xs" "asked s' = Suc (asked s)" "waiting s' = dict_set (asked s) q (waiting s)"
    and "local_id (map_node s') = local_id (map_node s)" "reply_box s' q = []"
    and "pipeline s' = pipeline s \<or> pipeline s' = add_mset (request ks xs (map_node s) (asked s)) (pipeline s)"
    and "\<And>j q'. j < length xs \<Longrightarrow> map_of (waiting s) j = Some q' \<Longrightarrow> reply_box s' q' = reply_box s q'"
  shows "flow ks xs s'"
    "kept f ks xs s \<Longrightarrow> pipeline s' = add_mset (request ks xs (map_node s) (asked s)) (pipeline s) \<Longrightarrow> kept f ks xs s'"
proof -
  let ?i = "asked s" and ?m = "request ks xs (map_node s) (asked s)"
  have i: "length ks = length xs" "distinct ks" "flow ks xs s" "books xs s" using assms(1) by (simp_all add: map_inv_def set_up_def)
  have req: "request ks xs (map_node s') = request ks xs (map_node s)" by (rule request_cong [OF assms(5)])
  have way: "under_way ks xs s' j = under_way ks xs s j" if "j < length xs" "j \<noteq> ?i" for j
    using assms(7) request_inj [OF i(2), of j ?i xs "map_node s"] that assms(2) i(1) by (auto simp: under_way_def req)
  have way0: "under_way ks xs s ?i = 0" by (rule under_way_later [OF i(3,2,1) _ assms(2)]) simp
  have old: "map_of (waiting s) j = Some q' \<and> reply_box s' q' = reply_box s q' \<and> under_way ks xs s' j = under_way ks xs s j"
    if "map_of (waiting s') j = Some q'" "j \<noteq> ?i" for j q'
  proof -
    have w: "map_of (waiting s) j = Some q'" using that by (simp add: assms(4))
    then have "j < length xs" using waiting_bound [OF i(4)] by blast
    then show ?thesis using w assms(8) way that(2) by simp
  qed
  show "flow ks xs s'" unfolding flow_def
  proof (intro conjI allI impI ballI)
    fix m assume "m \<in># pipeline s'"
    then consider "m \<in># pipeline s" | "m = ?m" using assms(7) by auto
    then show "foreign ks m \<or> (\<exists>j < asked s'. m = request ks xs (map_node s') j)"
    proof cases
      case 1
      then show ?thesis using i(3) unfolding flow_def req assms(3) by (meson less_Suc_eq)
    next
      case 2
      then show ?thesis unfolding req assms(3) by blast
    qed
  next
    fix j assume "j < length xs"
    then show "under_way ks xs s' j \<le> 1"
      using way [of j] way0 assms(7) i(3) by (cases "j = ?i") (auto simp: flow_def under_way_def req)
  next
    fix j q' assume w: "map_of (waiting s') j = Some q'" "reply_box s' q' \<noteq> []"
    then have "j \<noteq> ?i" using assms(4,6) by auto
    with old [OF w(1)] w(2) i(3) show "under_way ks xs s' j = 0" by (simp add: flow_def)
  qed
  assume k: "kept f ks xs s" and p: "pipeline s' = add_mset ?m (pipeline s)"
  show "kept f ks xs s'" unfolding kept_def
  proof (intro allI impI)
    fix j q' assume w: "map_of (waiting s') j = Some q'" "reply_box s' q' = []"
    show "isl (f (xs ! j)) \<or> under_way ks xs s' j = 1"
    proof (cases "j = ?i")
      case True
      then show ?thesis using way0 p by (simp add: under_way_def req)
    next
      case False
      with old [OF w(1)] w(2) k show ?thesis by (simp add: kept_def)
    qed
  qed
qed

lemma step_ask:
  assumes "map_inv f ks xs s" "asked s < length xs" "pool_ask (map_pool s) (ks ! asked s) (map_node s) (xs ! asked s) = (res, n)"
  obtains q where "res = Inr q" "map_inv f ks xs (s\<lparr>map_node := n, asked := asked s + 1, waiting := dict_set (asked s) q (waiting s)\<rparr>)"
    "roomy key xs s \<Longrightarrow> kept f ks xs s \<Longrightarrow> roomy key xs (s\<lparr>map_node := n, asked := asked s + 1, waiting := dict_set (asked s) q (waiting s)\<rparr>)
      \<and> kept f ks xs (s\<lparr>map_node := n, asked := asked s + 1, waiting := dict_set (asked s) q (waiting s)\<rparr>)"
proof -
  let ?i = "asked s" and ?d = "pool_name (map_pool s)" and ?m = "request ks xs (map_node s) (asked s)"
  have i: "set_up ks xs s" "boxes f ks xs (waiting s) (map_node s)" "books xs s"
    "\<forall>(i, r) \<in> set (outcomes s). due f (xs ! i) r" using assms(1) by (simp_all add: map_inv_def)
  have u: "length ks = length xs" "distinct ks" "?d \<in> dom (map_of (mailboxes (map_node s)))" "\<forall>k \<in> set ks. ?d \<noteq> ask_name k"
    using i(1) by (simp_all add: set_up_def)
  have new: "?i \<notin> set (keys (waiting s))" "?i \<notin> set (keys (outcomes s))" using i(3) unfolding books_def by blast+
  then have none: "map_of (waiting s) ?i = None" by (simp add: map_of_eq_None_iff)
  obtain q where q: "res = Inr q" "boxes f ks xs (dict_set ?i q (waiting s)) n" "local_id n = local_id (map_node s)" "?d \<in> dom (map_of (mailboxes n))"
    "mail n ?d = mail (map_node s) ?d \<or> mail n ?d = mail (map_node s) ?d @ [?m]"
    "unbounded ?d (map_node s) \<Longrightarrow> unbounded ?d n \<and> mail n ?d = mail (map_node s) ?d @ [?m]" "items (queue_at n q) = []"
    "\<And>j q'. j < length xs \<Longrightarrow> map_of (waiting s) j = Some q' \<Longrightarrow> queue_at n q' = queue_at (map_node s) q'"
    by (rule pool_asks [OF i(2) u(2,1) assms(2) none assms(3) refl u(3,4)]) blast
  define s' where "s' = s\<lparr>map_node := n, asked := ?i + 1, waiting := dict_set ?i q (waiting s)\<rparr>"
  have p: "pipeline s' = pipeline s \<or> pipeline s' = add_mset ?m (pipeline s)" using q(5) by (auto simp: pipeline_def s'_def)
  note fl = flow_asked [OF assms(1,2), of s' q]
  have "flow ks xs s'" by (rule fl(1)) (use p q in \<open>auto simp: s'_def\<close>)
  moreover have "books xs s'"
  proof -
    have "set (keys (waiting s')) = insert ?i (set (keys (waiting s)))" unfolding s'_def by (simp del: set_map)
    then show ?thesis using i(3) new(2) assms(2) unfolding books_def
      by (simp add: s'_def lessThan_Suc distinct_keys_set [of "waiting s"] del: set_map)
  qed
  moreover have "set_up ks xs s'" using i(1) q(4) by (simp add: set_up_def s'_def)
  ultimately have inv: "map_inv f ks xs s'" using q(2) i(4) by (simp add: map_inv_def s'_def)
  have "roomy key xs s' \<and> kept f ks xs s'" if r: "roomy key xs s" "kept f ks xs s"
  proof
    have m: "unbounded ?d n" "mail n ?d = mail (map_node s) ?d @ [?m]" using q(6) r(1) by (auto simp: roomy_def)
    then show "roomy key xs s'" using r(1) by (simp add: roomy_def s'_def)
    have "pipeline s' = add_mset ?m (pipeline s)" using m(2) by (simp add: pipeline_def s'_def)
    then show "kept f ks xs s'" using q r(2) p by (intro fl(2)) (auto simp: s'_def)
  qed
  with inv show thesis using q(1) unfolding s'_def by (intro that)
qed

lemma step_finish:
  assumes "map_inv f ks xs s" "map_of (waiting s) i = Some q" "ask_finish (ks ! i) q (map_node s) = (r, n)"
  shows "map_inv f ks xs (s\<lparr>map_node := n, waiting := dict_del i (waiting s), outcomes := outcomes s @ [(i, r)]\<rparr>)"
    "roomy key xs s \<Longrightarrow> kept f ks xs s \<Longrightarrow> roomy key xs (s\<lparr>map_node := n, waiting := dict_del i (waiting s), outcomes := outcomes s @ [(i, r)]\<rparr>)
      \<and> kept f ks xs (s\<lparr>map_node := n, waiting := dict_del i (waiting s), outcomes := outcomes s @ [(i, r)]\<rparr>)"
proof -
  let ?d = "pool_name (map_pool s)"
  define s' where "s' = s\<lparr>map_node := n, waiting := dict_del i (waiting s), outcomes := outcomes s @ [(i, r)]\<rparr>"
  have a: "set_up ks xs s" "boxes f ks xs (waiting s) (map_node s)" "flow ks xs s" "books xs s"
    "\<forall>(i, r) \<in> set (outcomes s). due f (xs ! i) r" using assms(1) by (simp_all add: map_inv_def)
  have u: "length ks = length xs" "distinct ks" "\<forall>k \<in> set ks. ?d \<noteq> ask_name k" using a(1) by (simp_all add: set_up_def)
  have i: "i < length xs" using waiting_bound [OF a(4) assms(2)] by blast
  note g = pool_finishes [OF a(2) u(2,1) i assms(2,3) u(3)]
  have way: "under_way ks xs s' = under_way ks xs s" "pipeline s' = pipeline s"
    by (auto simp: under_way_def pipeline_def s'_def g(4) request_cong [OF g(3)])
  have old: "map_of (waiting s) j = Some q' \<and> reply_box s' q' = reply_box s q'" if "map_of (waiting s') j = Some q'" for j q'
  proof -
    have w: "j \<noteq> i" "map_of (waiting s) j = Some q'" using that by (auto simp: s'_def split: if_splits)
    then show ?thesis using g(7) [of j q'] waiting_bound [OF a(4) w(2)] by (simp add: s'_def)
  qed
  have "flow ks xs s'"
  proof (rule flow_carry [OF a(3)])
    show "j < length xs" if "map_of (waiting s') j = Some q'" for j q' using old [OF that] waiting_bound [OF a(4)] by blast
    show "map_of (waiting s) j = Some q' \<and> reply_box s q' \<noteq> [] \<or> under_way ks xs s' j = 0"
      if "map_of (waiting s') j = Some q'" "reply_box s' q' \<noteq> []" for j q' using old [OF that(1)] that(2) by simp
  qed (simp_all add: s'_def g(3) way [unfolded s'_def])
  moreover have "books xs s'"
  proof -
    have "i \<in> set (keys (waiting s))" using map_of_SomeD [OF assms(2)] by force
    moreover have "set (keys (waiting s')) = set (keys (waiting s)) - {i}" "set (keys (outcomes s')) = insert i (set (keys (outcomes s)))"
      unfolding s'_def by (simp_all del: set_map)
    ultimately show ?thesis using a(4) distinct_keys_del [of "waiting s" i] unfolding books_def by (auto simp: s'_def simp del: set_map)
  qed
  moreover have "set_up ks xs s'" using a(1) g(5) by (auto simp: set_up_def s'_def)
  moreover have "due f (xs ! i) r" using g(1) boxes_waiting(1) [OF a(2) i assms(2)] by (auto simp: answer_box_def due_def)
  ultimately show "map_inv f ks xs (s\<lparr>map_node := n, waiting := dict_del i (waiting s), outcomes := outcomes s @ [(i, r)]\<rparr>)"
    using g(2) a(5) by (auto simp: map_inv_def s'_def)
  show "roomy key xs s \<Longrightarrow> kept f ks xs s \<Longrightarrow> roomy key xs (s\<lparr>map_node := n, waiting := dict_del i (waiting s), outcomes := outcomes s @ [(i, r)]\<rparr>)
      \<and> kept f ks xs (s\<lparr>map_node := n, waiting := dict_del i (waiting s), outcomes := outcomes s @ [(i, r)]\<rparr>)"
    unfolding s'_def [symmetric]
  proof
    assume r: "roomy key xs s" and k: "kept f ks xs s"
    show "roomy key xs s'" using r g(6) by (simp add: roomy_def s'_def)
    show "kept f ks xs s'" using k old by (simp add: kept_def way)
  qed
qed

subsection \<open>Runs\<close>

lemma map_start_inv: "map_start ks xs s \<Longrightarrow> map_inv f ks xs s" "map_start ks xs s \<Longrightarrow> kept f ks xs s"
proof -
  assume s: "map_start ks xs s"
  have f: "\<forall>m \<in># pipeline s. foreign ks m" "length ks = length xs" "distinct ks" using s by (simp_all add: map_start_def)
  have "pool_name (map_pool s) \<noteq> ask_name k" if "k \<in> set ks" for k using s that by (auto simp: map_start_def)
  then have "set_up ks xs s" using s by (simp add: set_up_def map_start_def)
  moreover have "under_way ks xs s i = 0" if "i < length xs" for i
    using f request_not_foreign [of i ks xs "map_node s"] that by (auto simp: under_way_def count_eq_zero_iff)
  then have "flow ks xs s" using s f(1) by (simp add: flow_def map_start_def)
  moreover have "boxes f ks xs (waiting s) (map_node s)" using s f(2) by (simp add: boxes_def map_start_def)
  ultimately show "map_inv f ks xs s" using s by (simp add: map_inv_def books_def map_start_def)
  show "kept f ks xs s" using s by (simp add: kept_def map_start_def)
qed

lemma map_step_inv:
  assumes "map_step key handle ks xs s s'" "map_inv f ks xs s" "answering f handle (pool_exec (map_pool s))"
  shows "map_inv f ks xs s'" "roomy key xs s \<Longrightarrow> kept f ks xs s \<Longrightarrow> roomy key xs s' \<and> kept f ks xs s'"
    "pool_exec (map_pool s') = pool_exec (map_pool s)" "working (map_pool s') = working (map_pool s)" "n_workers (map_pool s') = n_workers (map_pool s)"
proof -
  have wf: "pool_wf (map_pool s)" using assms(2) by (simp add: map_inv_def set_up_def)
  have "map_inv f ks xs s' \<and> (roomy key xs s \<longrightarrow> kept f ks xs s \<longrightarrow> roomy key xs s' \<and> kept f ks xs s')
    \<and> pool_exec (map_pool s') = pool_exec (map_pool s) \<and> working (map_pool s') = working (map_pool s) \<and> n_workers (map_pool s') = n_workers (map_pool s)"
    using assms(1)
  proof cases
    case (ask q n)
    then show ?thesis using step_ask [OF assms(2) ask(2,3), of key] by auto
  next
    case (refused e n)
    then show ?thesis using step_ask [OF assms(2) refused(2,3), of key] by auto
  next
    case (dispatch m n p n')
    then show ?thesis using step_dispatch [OF assms(2) dispatch(2,3)] dispatch_load(4,7,8) [OF wf dispatch(3)] by simp
  next
    case (work w t p n)
    then show ?thesis using step_work [OF assms(2,3) work(2)] worker_load(4,7,8) [OF wf work(2)] by simp
  next
    case (finish i q r n)
    then show ?thesis using step_finish [OF assms(2) finish(2,3)] by simp
  next
    case (other n)
    then show ?thesis using step_other [OF assms(2) other(2)] by simp
  qed
  then show "map_inv f ks xs s'" "roomy key xs s \<Longrightarrow> kept f ks xs s \<Longrightarrow> roomy key xs s' \<and> kept f ks xs s'"
    "pool_exec (map_pool s') = pool_exec (map_pool s)" "working (map_pool s') = working (map_pool s)" "n_workers (map_pool s') = n_workers (map_pool s)"
    by blast+
qed

lemma map_run_inv:
  assumes "(map_step key handle ks xs)\<^sup>*\<^sup>* s0 s" "map_start ks xs s0" "answering f handle (pool_exec (map_pool s0))"
  shows "map_inv f ks xs s" "roomy key xs s0 \<Longrightarrow> kept f ks xs s \<and> roomy key xs s"
    "working (map_pool s) = working (map_pool s0)" "n_workers (map_pool s) = n_workers (map_pool s0)"
proof -
  have "map_inv f ks xs s \<and> (roomy key xs s0 \<longrightarrow> kept f ks xs s \<and> roomy key xs s) \<and> pool_exec (map_pool s) = pool_exec (map_pool s0)
    \<and> working (map_pool s) = working (map_pool s0) \<and> n_workers (map_pool s) = n_workers (map_pool s0)"
    using assms(1)
  proof induction
    case base
    then show ?case using map_start_inv [OF assms(2)] by blast
  next
    case (step s s')
    then show ?case using map_step_inv [OF step(2), of f] assms(3) by simp
  qed
  then show "map_inv f ks xs s" "roomy key xs s0 \<Longrightarrow> kept f ks xs s \<and> roomy key xs s"
    "working (map_pool s) = working (map_pool s0)" "n_workers (map_pool s) = n_workers (map_pool s0)" by blast+
qed

subsection \<open>The result\<close>

lemma those_Some: "those xs = Some ys \<longleftrightarrow> xs = map Some ys"
proof (induction xs arbitrary: ys)
  case (Cons x xs)
  then show ?case by (cases x; cases ys) (auto split: option.splits)
qed auto

lemma gather_values:
  "gather rx n done = Some (Inr rs) \<Longrightarrow> length rs = n \<and> (\<forall>i < n. map_of done i = Some (rs ! i)) \<and> (rx \<or> first_failure done = None)"
  by (auto simp: gather_def those_Some list_eq_iff_nth_eq split: option.splits if_splits)

lemma gather_waits: "gather rx n done = None \<Longrightarrow> \<exists>i < n. map_of done i = None"
proof (rule ccontr)
  assume g: "gather rx n done = None" and "\<not> (\<exists>i < n. map_of done i = None)"
  then have "map (map_of done) [0..<n] = map Some (map (\<lambda>i. the (map_of done i)) [0..<n])" by simp
  then have "those (map (map_of done) [0..<n]) = Some (map (\<lambda>i. the (map_of done i)) [0..<n])" unfolding those_Some .
  with g show False by (simp add: gather_def split: option.splits)
qed

lemma first_failure_iff: "first_failure done = None \<longleftrightarrow> (\<forall>(i, r) \<in> set done. \<not> isl r)"
  "first_failure done = Some e \<Longrightarrow> \<exists>i. (i, Inl e) \<in> set done"
  by (induction "done" rule: first_failure.induct) auto

text \<open>C14. \<^verbatim>\<open>PoolRef.map\<close> returns the answers in the order of the items, whichever worker has handled them and in whatever order they came,
  also while others use the pool: every value in its result is the answer to the item at its position.
  It fails only with the timeout of an item, never with an exception of a handler, which stays in
  the pool; and without a result some item has not been asked or still waits. When no ask is left
  waiting, every hidden mailbox is gone.\<close>

theorem pool_map_in_order:
  assumes "map_start ks xs s0" "answering f handle (pool_exec (map_pool s0))" "(map_step key handle ks xs)\<^sup>*\<^sup>* s0 s"
  shows "(case pool_map return_exceptions xs s of
       None \<Rightarrow> asked s < length xs \<or> waiting s \<noteq> []
     | Some (Inl e) \<Rightarrow> \<not> return_exceptions \<and> e = TimeoutError []
     | Some (Inr rs) \<Rightarrow> length rs = length xs
         \<and> (\<forall>i < length xs. rs ! i = f (xs ! i) \<and> \<not> isl (rs ! i) \<or> return_exceptions \<and> rs ! i = Inl (TimeoutError [])))
    \<and> (waiting s = [] \<longrightarrow> (\<forall>k \<in> set ks. map_of (mailboxes (map_node s)) (ask_name k) = None))"
proof -
  note inv = map_run_inv(1) [OF assms(3,1,2)]
  have b: "books xs s" "boxes f ks xs (waiting s) (map_node s)" "length ks = length xs" and o: "\<forall>(i, r) \<in> set (outcomes s). due f (xs ! i) r"
    using inv by (simp_all add: map_inv_def set_up_def)
  have "case pool_map return_exceptions xs s of
       None \<Rightarrow> asked s < length xs \<or> waiting s \<noteq> []
     | Some (Inl e) \<Rightarrow> \<not> return_exceptions \<and> e = TimeoutError []
     | Some (Inr rs) \<Rightarrow> length rs = length xs
         \<and> (\<forall>i < length xs. rs ! i = f (xs ! i) \<and> \<not> isl (rs ! i) \<or> return_exceptions \<and> rs ! i = Inl (TimeoutError []))"
  proof (cases "pool_map return_exceptions xs s")
    case None
    then obtain i where i: "i < length xs" "map_of (outcomes s) i = None" using gather_waits unfolding pool_map_def by blast
    then have "i \<notin> set (keys (outcomes s))" by (simp add: map_of_eq_None_iff)
    then have "i \<in> set (keys (waiting s)) \<or> asked s \<le> i" using b(1) unfolding books_def by (metis Un_iff lessThan_iff not_le)
    then have "asked s < length xs \<or> waiting s \<noteq> []" using i(1) by auto
    then show ?thesis using None by simp
  next
    case (Some res)
    show ?thesis
    proof (cases res)
      case (Inl e)
      then have "\<not> return_exceptions" "first_failure (outcomes s) = Some e"
        using Some by (auto simp: pool_map_def gather_def split: option.splits if_splits)
      then show ?thesis using Some Inl o first_failure_iff(2) [of "outcomes s" e] by (auto simp: due_def)
    next
      case (Inr rs)
      then have g: "length rs = length xs" "\<forall>i < length xs. map_of (outcomes s) i = Some (rs ! i)" "return_exceptions \<or> first_failure (outcomes s) = None"
        using Some gather_values [of return_exceptions "length xs" "outcomes s" rs] by (simp_all add: pool_map_def)
      have "rs ! i = f (xs ! i) \<and> \<not> isl (rs ! i) \<or> return_exceptions \<and> rs ! i = Inl (TimeoutError [])" if "i < length xs" for i
      proof -
        have m: "(i, rs ! i) \<in> set (outcomes s)" using g(2) that map_of_SomeD by fast
        have "due f (xs ! i) (rs ! i)" using bspec [OF o m] by simp
        moreover have "return_exceptions \<or> \<not> isl (rs ! i)" using g(3) first_failure_iff(1) [of "outcomes s"] m by fast
        ultimately show ?thesis by (auto simp: due_def)
      qed
      then show ?thesis using Some Inr g(1) by simp
    qed
  qed
  moreover have "\<forall>k \<in> set ks. map_of (mailboxes (map_node s)) (ask_name k) = None" if "waiting s = []"
    using b(2,3) that by (auto simp: boxes_def in_set_conv_nth)
  ultimately show ?thesis by blast
qed

subsection \<open>No request is lost\<close>

lemma worker_takes:
  assumes "pool_wf p" "set (working p) = {..<n_workers p}" "0 < n_workers p" "load p \<noteq> {#}"
  shows "\<exists>w m p' n'. worker_step handle w (p, n) = (Some m, p', n')"
proof -
  from assms(4) obtain x where "x \<in> set (pool_queues p)" "items x \<noteq> []" by (auto simp: load_def)
  then obtain j where j: "j < length (pool_queues p)" "items (pool_queues p ! j) \<noteq> []" by (auto simp: in_set_conv_nth)
  have "\<exists>w \<in> set (working p). worker_queue p w = j"
  proof (cases "sharded p")
    case True
    then show ?thesis using assms(1,2) j(1) by (intro bexI [of _ j]) (simp_all add: pool_wf_def worker_queue_def)
  next
    case False
    then show ?thesis using assms(1-3) j(1) by (intro bexI [of _ 0]) (simp_all add: pool_wf_def worker_queue_def)
  qed
  then obtain w where w: "w \<in> set (working p)" "worker_queue p w = j" by blast
  obtain m ms where m: "items (pool_queues p ! j) = m # ms" using j(2) by (cases "items (pool_queues p ! j)") auto
  obtain r n1 where "work handle (pool_exec p) m n = (r, n1)" by fastforce
  then have "fst (worker_step handle w (p, n)) = Some m"
    using w m by (cases r) (simp_all add: worker_step_def get_item_def Let_def)
  then show ?thesis by (metis prod.collapse)
qed

lemma dispatcher_takes: "mail n d \<noteq> [] \<Longrightarrow> \<exists>m n'. take_mail d n = Some (m, n')"
  by (auto simp: mail_def take_mail_def get_item_def split: option.splits list.splits)


subsection \<open>A concrete call\<close>

definition demo_pool :: pool where
  "demo_pool = (new_pool ''pool'' 1 None False (Some True))\<lparr>working := [0]\<rparr>"

definition demo_call :: "node \<Rightarrow> map_run" where
  "demo_call n = \<lparr>map_node = n, map_pool = demo_pool, asked = 0, waiting = [], outcomes = []\<rparr>"

definition echo :: "message \<Rightarrow> node \<Rightarrow> pyval res \<times> node" where
  "echo m n = (Inr (fst m), n)"

lemma demo_pool_fields: "pool_wf demo_pool" "pool_name demo_pool = ''pool''" "pool_exec demo_pool = Some True" "load demo_pool = {#}"
  "working demo_pool = [0]" "n_workers demo_pool = 1" "map maxsize (pool_queues demo_pool) = [0]" "sharded demo_pool = False"
  by (simp_all add: demo_pool_def new_pool_def pool_wf_def load_def new_queue_def)

lemma demo_call_starts:
  obtains n where "map_start [1] [PInt 7] (demo_call n)" "roomy (\<lambda>_. Inr 0) [PInt 7] (demo_call n)"
    "answering (\<lambda>x. Inr x) echo (pool_exec (map_pool (demo_call n)))"
proof -
  obtain n where n: "fresh sample_env (\<lambda>_. 10) (demo_id ''api'' 1) {''pool''} n"
    by (rule demo_up [OF demo_ids(1), of "[''pool'']"]) simp_all
  then have h: "healthy n" "\<forall>a. mail n a = []" "dom (map_of (mailboxes n)) = {''pool''}" by (simp_all add: fresh_def)
  have "ask_name 1 \<notin> dom (map_of (mailboxes n))" by (simp only: h(3)) (simp add: ask_name_def)
  then have free: "map_of (mailboxes n) (ask_name 1) = None" by (simp add: domIff)
  have "''pool'' \<in> dom (map_of (mailboxes n))" by (simp only: h(3)) simp
  then obtain q where q: "map_of (mailboxes n) ''pool'' = Some q" by (simp add: domIff) blast
  have "maxsize (queue_at n q) \<le> 0" using h(1) ranI [of "map_of (mailboxes n)", OF q] by (simp add: healthy_def)
  with q have "unbounded ''pool'' n" by (simp add: unbounded_def)
  then have "roomy (\<lambda>_. Inr 0) [PInt 7] (demo_call n)"
    by (simp add: roomy_def demo_call_def demo_pool_fields shard_of_def)
  moreover have "map_start [1] [PInt 7] (demo_call n)"
    using h(1,2) free q by (simp add: map_start_def demo_call_def demo_pool_fields pipeline_def healthy_def domIff)
  moreover have "echo = (\<lambda>m n. (Inr (fst m), n))" by (intro ext) (simp add: echo_def)
  then have "answering (\<lambda>x. Inr x) echo (pool_exec (map_pool (demo_call n)))"
    using answering_executor [of "\<lambda>x. Inr x"] by (simp add: demo_call_def demo_pool_fields)
  ultimately show thesis by (intro that)
qed

text \<open>The one item of the call has been asked and waits.\<close>

lemma demo_asked:
  obtains n s q where "map_start [1] [PInt 7] (demo_call n)" "roomy (\<lambda>_. Inr 0) [PInt 7] (demo_call n)"
    "answering (\<lambda>x. Inr x) echo (pool_exec (map_pool (demo_call n)))" "(map_step (\<lambda>_. Inr 0) echo [1] [PInt 7])\<^sup>*\<^sup>* (demo_call n) s"
    "map_of (waiting s) 0 = Some q" "items (queue_at (map_node s) q) = []" "outcomes s = []" "waiting s = [(0, q)]"
proof -
  obtain n where n: "map_start [1] [PInt 7] (demo_call n)" "roomy (\<lambda>_. Inr 0) [PInt 7] (demo_call n)"
    "answering (\<lambda>x. Inr x) echo (pool_exec (map_pool (demo_call n)))" by (rule demo_call_starts)
  let ?c = "demo_call n"
  obtain res n1 where a: "pool_ask (map_pool ?c) ([1] ! asked ?c) (map_node ?c) ([PInt 7] ! asked ?c) = (res, n1)" by fastforce
  have inv: "map_inv (\<lambda>x. Inr x) [1] [PInt 7] ?c" by (rule map_start_inv(1) [OF n(1)])
  have l: "asked ?c < length [PInt 7]" by (simp add: demo_call_def)
  have b: "boxes (\<lambda>x. Inr x) [1] [PInt 7] (waiting ?c) (map_node ?c)" "pool_name (map_pool ?c) \<in> dom (map_of (mailboxes (map_node ?c)))"
    "\<forall>k \<in> set [1]. pool_name (map_pool ?c) \<noteq> ask_name k" using inv by (simp_all add: map_inv_def set_up_def)
  obtain q where q: "res = Inr q" "items (queue_at n1 q) = []"
    using pool_asks [OF b(1) _ _ l _ a refl b(2,3)] by (auto simp: demo_call_def)
  let ?s = "?c\<lparr>map_node := n1, asked := asked ?c + 1, waiting := dict_set (asked ?c) q (waiting ?c)\<rparr>"
  have "map_step (\<lambda>_. Inr 0) echo [1] [PInt 7] ?c ?s" by (rule map_step.ask [OF l a [unfolded q(1)]])
  then show thesis by (intro that [OF n, of ?s q]) (use q(2) in \<open>simp_all add: demo_call_def\<close>)
qed


text \<open>Its timeout ends the call.\<close>

theorem pool_map_in_order_witness:
  "\<exists>n s. map_start [1] [PInt 7] (demo_call n) \<and> (map_step (\<lambda>_. Inr 0) echo [1] [PInt 7])\<^sup>*\<^sup>* (demo_call n) s
    \<and> pool_map False [PInt 7] s = Some (Inl (TimeoutError [])) \<and> map_of (mailboxes (map_node s)) (ask_name 1) = None"
proof -
  obtain n s q where d: "map_start [1] [PInt 7] (demo_call n)" "roomy (\<lambda>_. Inr 0) [PInt 7] (demo_call n)"
    "answering (\<lambda>x. Inr x) echo (pool_exec (map_pool (demo_call n)))" "(map_step (\<lambda>_. Inr 0) echo [1] [PInt 7])\<^sup>*\<^sup>* (demo_call n) s"
    "map_of (waiting s) 0 = Some q" "items (queue_at (map_node s) q) = []" "outcomes s = []" "waiting s = [(0, q)]" by (rule demo_asked)
  obtain r n' where f: "ask_finish ([1] ! 0) q (map_node s) = (r, n')" by fastforce
  let ?s = "s\<lparr>map_node := n', waiting := dict_del 0 (waiting s), outcomes := outcomes s @ [(0, r)]\<rparr>"
  have run: "(map_step (\<lambda>_. Inr 0) echo [1] [PInt 7])\<^sup>*\<^sup>* (demo_call n) ?s"
    by (rule rtranclp.rtrancl_into_rtrancl [OF d(4) map_step.finish [OF d(5) f]])
  have "isl r" using f d(6) by (auto simp: ask_finish_def get_item_def ask_cleanup_def split: prod.splits sum.splits)
  then obtain e where r: "r = Inl e" by (cases r) simp_all
  then have "pool_map False [PInt 7] ?s = Some (Inl e)" using d(7) by (simp add: pool_map_def gather_def)
  moreover have "waiting ?s = []" using d(8) by simp
  ultimately have "e = TimeoutError []" "map_of (mailboxes (map_node ?s)) (ask_name 1) = None"
    using pool_map_in_order [OF d(1,3) run, of False] by simp_all
  then show ?thesis using d(1) run \<open>pool_map False [PInt 7] ?s = Some (Inl e)\<close> by (intro exI [of _ n] exI [of _ ?s]) simp
qed

end
