(* ===== verification/Contexts.thy ===== *)
theory Contexts
  imports Pool Links
begin

text \<open>
  The context variables (\<^verbatim>\<open>current\<close> and \<^verbatim>\<open>current_actor\<close> in \<^verbatim>\<open>src/lapinbeam/context.py\<close>). Every task has its own context, a copy
  of the context of the code that created it; the driver of an actor and the worker of a pool set
  the variables and reset them with the tokens they kept. The step relation follows the tasks, and
  \<open>actor_of\<close> and \<open>message_of\<close> say which actor and which message their code should see.
\<close>

subsection \<open>Contexts\<close>

record ctx_vars =
  cur_message :: "meta option"
  cur_actor :: "string option"

definition current_message :: "ctx_vars \<Rightarrow> meta option" where
  "current_message c = cur_message c"

definition current_actor_ref :: "ctx_vars \<Rightarrow> string option" where
  "current_actor_ref c = cur_actor c"

text \<open>What a task is doing. \<open>Plain\<close> is a task that an application makes, or the main program, or a nested
  supervisor with its recipe; it keeps the actor and the message that its maker saw. \<open>Minding\<close> is the
  task of a child, which runs the constructor before each generation. The others are
  a driver: created, waiting for mail, in a handler, and in the loop of a pool worker on one message.
  A function that an executor calls is not part of a task and sees no context.\<close>

datatype activity =
    Plain "string option" "meta option"
  | Minding string "string option" "meta option"
  | Created string
  | Awaiting string
  | Handling string meta
  | Serving string meta meta
  | Over

fun actor_of :: "activity \<Rightarrow> string option" where
  "actor_of (Plain a m) = a"
| "actor_of (Minding name a m) = a"
| "actor_of (Handling name m) = Some name"
| "actor_of (Serving name m0 m) = Some name"
| "actor_of _ = None"

fun message_of :: "activity \<Rightarrow> meta option" where
  "message_of (Plain a m) = m"
| "message_of (Minding name a m) = m"
| "message_of (Handling name m) = Some m"
| "message_of (Serving name m0 m) = Some m"
| "message_of _ = None"

text \<open>The activities in which code of an application runs.\<close>

fun user_code :: "activity \<Rightarrow> bool" where
  "user_code (Created name) = False"
| "user_code (Awaiting name) = False"
| "user_code Over = False"
| "user_code _ = True"

subsection \<open>Tasks\<close>

text \<open>A task with its context and the tokens it holds, the last one first.\<close>

record ctx_task =
  doing :: activity
  ctx :: ctx_vars
  actor_token :: "string option"
  tokens :: "meta option list"

definition new_task :: "activity \<Rightarrow> ctx_task \<Rightarrow> ctx_task" where
  "new_task act r = \<lparr>doing = act, ctx = ctx r, actor_token = None, tokens = []\<rparr>"

text \<open>\<^verbatim>\<open>_drive\<close>: the actor is bound once, the message for each call of the handler.\<close>

definition drive_enter :: "string \<Rightarrow> ctx_task \<Rightarrow> ctx_task" where
  "drive_enter name r = r\<lparr>doing := Awaiting name, actor_token := cur_actor (ctx r), ctx := (ctx r)\<lparr>cur_actor := Some name\<rparr>\<rparr>"

definition set_message :: "activity \<Rightarrow> meta \<Rightarrow> ctx_task \<Rightarrow> ctx_task" where
  "set_message act m r = r\<lparr>doing := act, tokens := cur_message (ctx r) # tokens r, ctx := (ctx r)\<lparr>cur_message := Some m\<rparr>\<rparr>"

definition reset_message :: "activity \<Rightarrow> ctx_task \<Rightarrow> ctx_task" where
  "reset_message act r = r\<lparr>doing := act, tokens := tl (tokens r), ctx := (ctx r)\<lparr>cur_message := hd (tokens r)\<rparr>\<rparr>"

text \<open>The finally clauses when the driver ends: the messages from the inside out, then the actor.\<close>

definition drive_exit :: "ctx_task \<Rightarrow> ctx_task" where
  "drive_exit r = r\<lparr>doing := Over, tokens := [],
     ctx := \<lparr>cur_message = last (cur_message (ctx r) # tokens r), cur_actor = actor_token r\<rparr>\<rparr>"

type_synonym task_table = "(nat, ctx_task) dict"

definition main_program :: task_table where
  "main_program = [(0, \<lparr>doing = Plain None None, ctx = \<lparr>cur_message = None, cur_actor = None\<rparr>, actor_token = None, tokens = []\<rparr>)]"

definition spawn_task :: "ctx_task \<Rightarrow> string \<Rightarrow> ctx_task" where
  "spawn_task r name = new_task (Minding name (actor_of (doing r)) (message_of (doing r))) r"

text \<open>
  A task that runs code of an application may create tasks and spawn actors; the task of a child that restarts
  a sibling spawns it again. A child may begin a generation whenever it likes, which allows more than
  the supervisor does.
\<close>

inductive ctx_step :: "task_table \<Rightarrow> task_table \<Rightarrow> bool" where
  create: "map_of s t = Some r \<Longrightarrow> user_code (doing r) \<Longrightarrow> map_of s u = None \<Longrightarrow>
    ctx_step s (dict_set u (new_task (Plain (actor_of (doing r)) (message_of (doing r))) r) s)"
| spawn: "map_of s t = Some r \<Longrightarrow> user_code (doing r) \<Longrightarrow> map_of s u = None \<Longrightarrow> ctx_step s (dict_set u (spawn_task r name) s)"
| generation: "map_of s t = Some r \<Longrightarrow> doing r = Minding name a m \<Longrightarrow> map_of s u = None \<Longrightarrow>
    ctx_step s (dict_set u (new_task (Created name) r) s)"
| start: "map_of s t = Some r \<Longrightarrow> doing r = Created name \<Longrightarrow> ctx_step s (dict_set t (drive_enter name r) s)"
| receive: "map_of s t = Some r \<Longrightarrow> doing r = Awaiting name \<Longrightarrow> ctx_step s (dict_set t (set_message (Handling name m) m r) s)"
| handled: "map_of s t = Some r \<Longrightarrow> doing r = Handling name m \<Longrightarrow> ctx_step s (dict_set t (reset_message (Awaiting name) r) s)"
| take: "map_of s t = Some r \<Longrightarrow> doing r = Handling name m0 \<Longrightarrow> ctx_step s (dict_set t (set_message (Serving name m0 m) m r) s)"
| served: "map_of s t = Some r \<Longrightarrow> doing r = Serving name m0 m \<Longrightarrow> ctx_step s (dict_set t (reset_message (Handling name m0) r) s)"
| stop_drive: "map_of s t = Some r \<Longrightarrow> doing r \<in> {Awaiting name, Handling name m, Serving name m0 m} \<Longrightarrow>
    ctx_step s (dict_set t (drive_exit r) s)"
| stop: "map_of s t = Some r \<Longrightarrow> doing r \<in> {Plain a m, Minding name a m, Created name} \<Longrightarrow>
    ctx_step s (dict_set t (r\<lparr>doing := Over\<rparr>) s)"

subsection \<open>The invariant\<close>

fun ctx_ok :: "ctx_task \<Rightarrow> bool" where
  "ctx_ok r \<longleftrightarrow>
     (case doing r of
        Plain a m \<Rightarrow> ctx r = \<lparr>cur_message = m, cur_actor = a\<rparr>
      | Minding name a m \<Rightarrow> ctx r = \<lparr>cur_message = m, cur_actor = a\<rparr>
      | Awaiting name \<Rightarrow> cur_actor (ctx r) = Some name \<and> tokens r = []
      | Handling name m \<Rightarrow> ctx r = \<lparr>cur_message = Some m, cur_actor = Some name\<rparr> \<and> length (tokens r) = 1
      | Serving name m0 m \<Rightarrow> ctx r = \<lparr>cur_message = Some m, cur_actor = Some name\<rparr>
          \<and> length (tokens r) = 2 \<and> hd (tokens r) = Some m0
      | Created name \<Rightarrow> tokens r = []
      | Over \<Rightarrow> True)"

definition ctxs_ok :: "task_table \<Rightarrow> bool" where
  "ctxs_ok s \<longleftrightarrow> (\<forall>t r. map_of s t = Some r \<longrightarrow> ctx_ok r)"

lemma ctxs_okD: "ctxs_ok s \<Longrightarrow> map_of s t = Some r \<Longrightarrow> ctx_ok r"
  unfolding ctxs_ok_def by blast

lemma ctxs_ok_set: "ctxs_ok s \<Longrightarrow> ctx_ok r \<Longrightarrow> ctxs_ok (dict_set t r s)"
  by (simp add: ctxs_ok_def update_conv')

lemma ctx_ok_code: "ctx_ok r \<Longrightarrow> user_code (doing r) \<Longrightarrow> ctx r = \<lparr>cur_message = message_of (doing r), cur_actor = actor_of (doing r)\<rparr>"
  by (cases "doing r") simp_all

lemma ctx_step_ok: "ctx_step s s' \<Longrightarrow> ctxs_ok s \<Longrightarrow> ctxs_ok s'"
proof (induction rule: ctx_step.induct)
  case (create s t r u)
  with ctx_ok_code [OF ctxs_okD] show ?case by (intro ctxs_ok_set) (auto simp: new_task_def)
next
  case (spawn s t r u name)
  with ctx_ok_code [OF ctxs_okD] show ?case by (intro ctxs_ok_set) (auto simp: new_task_def spawn_task_def)
qed (rule ctxs_ok_set, assumption, drule (1) ctxs_okD,
  auto simp: new_task_def drive_enter_def set_message_def reset_message_def drive_exit_def length_Suc_conv numeral_2_eq_2)+

lemma main_program_ok: "ctxs_ok main_program"
  by (simp add: ctxs_ok_def main_program_def)

lemma reachable_ok: "ctx_step\<^sup>*\<^sup>* main_program s \<Longrightarrow> ctxs_ok s"
  by (induction rule: rtranclp_induct) (rule main_program_ok, rule ctx_step_ok)

text \<open>C25. The context variables name the right actor and the right message under every interleaving of spawns,
  restarts, messages and tasks of applications: a handler sees its own actor and the message it
  handles, the handler of a pool sees the worker and the message that was sent to the pool, and a task
  that a handler created keeps seeing the actor and the message of that handler, however many
  messages the actor has handled since. Outside of actors both are None.\<close>

theorem context_names_running_code:
  assumes "ctx_step\<^sup>*\<^sup>* main_program s" "map_of s t = Some r" "user_code (doing r)"
  shows "current_actor_ref (ctx r) = actor_of (doing r) \<and> current_message (ctx r) = message_of (doing r)"
  using ctx_ok_code [OF ctxs_okD [OF reachable_ok [OF assms(1)] assms(2)] assms(3)]
  by (simp add: current_actor_ref_def current_message_def)

lemma child_task_stays:
  assumes "ctx_step\<^sup>*\<^sup>* s s'" "map_of s u = Some r" "doing r = Minding name a m"
  shows "\<exists>r'. map_of s' u = Some r' \<and> doing r' \<in> {Over, Minding name a m}"
  using assms(1)
proof (induction rule: rtranclp_induct)
  case (step y z)
  from step.hyps(2) step.IH show ?case
    by cases (auto simp: update_conv')
qed (use assms in simp)

text \<open>A program for examples: the main program spawns a, whose handler is running and spawns b.\<close>

definition task_meta :: meta where
  "task_meta = \<lparr>m_src = None, m_reply_to = None, m_correlation_id = Some 7, m_msg_id = None\<rparr>"

definition demo_tasks :: task_table where
  "demo_tasks =
     (let w = spawn_task (snd (hd main_program)) ''a''; d = drive_enter ''a'' (new_task (Created ''a'') w)
      in [hd main_program, (1, w), (2, set_message (Handling ''a'' task_meta) task_meta d)])"

lemmas ctx_defs = demo_tasks_def main_program_def spawn_task_def new_task_def drive_enter_def set_message_def Let_def

lemma demo_tasks_reachable: "ctx_step\<^sup>*\<^sup>* main_program demo_tasks"
proof -
  let ?w = "spawn_task (snd (hd main_program)) ''a''" let ?c = "new_task (Created ''a'') ?w"
  let ?d = "drive_enter ''a'' ?c" let ?h = "set_message (Handling ''a'' task_meta) task_meta ?d"
  let ?m = "hd main_program"
  have 1: "ctx_step main_program [?m, (1, ?w)]"
    using ctx_step.spawn [of main_program 0 "snd ?m" 1 "''a''"] by (simp add: main_program_def)
  have 2: "ctx_step [?m, (1, ?w)] [?m, (1, ?w), (2, ?c)]"
    using ctx_step.generation [of "[?m, (1, ?w)]" 1 ?w "''a''" None None 2]
    by (simp add: main_program_def spawn_task_def new_task_def)
  have 3: "ctx_step [?m, (1, ?w), (2, ?c)] [?m, (1, ?w), (2, ?d)]"
    using ctx_step.start [of "[?m, (1, ?w), (2, ?c)]" 2 ?c "''a''"] by (simp add: main_program_def new_task_def)
  have 4: "ctx_step [?m, (1, ?w), (2, ?d)] [?m, (1, ?w), (2, ?h)]"
    using ctx_step.receive [of "[?m, (1, ?w), (2, ?d)]" 2 ?d "''a''" task_meta] by (simp add: main_program_def drive_enter_def)
  have 5: "demo_tasks = [?m, (1, ?w), (2, ?h)]" by (simp add: demo_tasks_def Let_def)
  show ?thesis unfolding 5
    by (intro converse_rtranclp_into_rtranclp [where r = ctx_step, OF 1] converse_rtranclp_into_rtranclp [where r = ctx_step, OF 2]
        converse_rtranclp_into_rtranclp [where r = ctx_step, OF 3] converse_rtranclp_into_rtranclp [where r = ctx_step, OF 4] rtranclp.rtrancl_refl)
qed

lemma demo_handler:
  "map_of demo_tasks 2 = Some (the (map_of demo_tasks 2))" "doing (the (map_of demo_tasks 2)) = Handling ''a'' task_meta"
  "map_of demo_tasks 3 = None"
  by (simp_all add: ctx_defs)

theorem context_names_running_code_witness:
  "current_actor_ref (ctx (the (map_of demo_tasks 2))) = Some ''a''
   \<and> current_message (ctx (the (map_of demo_tasks 2))) = Some task_meta"
  using context_names_running_code [OF demo_tasks_reachable demo_handler(1)] by (simp add: demo_handler(2))

text \<open>C40. The constructor of an actor runs before its driver binds the actor, so \<^verbatim>\<open>trap_exit\<close> called there, as its documentation
  advises, does not concern the new actor in any generation: it sets the flag of the actor whose code
  spawned this one, and when that was no actor it raises and the generation fails.\<close>

theorem constructor_acts_as_spawner:
  assumes "ctx_step\<^sup>*\<^sup>* main_program s" "map_of s t = Some r" "user_code (doing r)" "map_of s u = None"
    and "ctx_step\<^sup>*\<^sup>* (dict_set u (spawn_task r name) s) s'" "map_of s' u = Some r'" "doing r' \<noteq> Over"
  shows "case actor_of (doing r) of
      None \<Rightarrow> begin_generation now (fst (trap_exit n (current_actor_ref (ctx r')) enabled)) i (n, sv)
        = generation_failed now i (RuntimeError ''link()/unlink()/trap_exit() must be called from inside a running actor'') (n, sv)
    | Some me \<Rightarrow> trap_exit n (current_actor_ref (ctx r')) enabled
        = (Inr (), n\<lparr>trap_exit_flags := dict_set me enabled (trap_exit_flags n)\<rparr>)"
proof -
  let ?d = "Minding name (actor_of (doing r)) (message_of (doing r))"
  have s1: "ctx_step\<^sup>*\<^sup>* main_program (dict_set u (spawn_task r name) s)"
    using assms(1) ctx_step.spawn [OF assms(2-4)] by (rule rtranclp.rtrancl_into_rtrancl)
  have "\<exists>r'. map_of s' u = Some r' \<and> doing r' \<in> {Over, ?d}"
    by (rule child_task_stays [OF assms(5), of u "spawn_task r name"]) (simp_all add: update_conv' spawn_task_def new_task_def)
  then have d: "doing r' = ?d" using assms(6,7) by auto
  have "ctx_ok r'" using reachable_ok [OF rtranclp_trans [OF s1 assms(5)]] assms(6) by (rule ctxs_okD)
  from ctx_ok_code [OF this] have a: "current_actor_ref (ctx r') = actor_of (doing r)" by (simp add: d current_actor_ref_def)
  show ?thesis unfolding a
    by (cases "actor_of (doing r)") (simp_all add: trap_exit_def link_me_def begin_generation_def)
qed

theorem constructor_acts_as_spawner_witness:
  "let r = the (map_of demo_tasks 2)
   in trap_exit demo_running (current_actor_ref (ctx (spawn_task r ''b''))) True
      = (Inr (), demo_running\<lparr>trap_exit_flags := dict_set ''a'' True (trap_exit_flags demo_running)\<rparr>)"
proof -
  let ?r = "the (map_of demo_tasks 2)" let ?b = "spawn_task ?r ''b''" let ?s = "dict_set 3 ?b demo_tasks"
  have b: "map_of ?s 3 = Some ?b" "doing ?b \<noteq> Over" by (simp_all add: update_conv' spawn_task_def new_task_def)
  have u: "user_code (doing ?r)" by (simp only: demo_handler(2) user_code.simps)
  note w = constructor_acts_as_spawner [OF demo_tasks_reachable demo_handler(1) u demo_handler(3) rtranclp.rtrancl_refl b]
  have "trap_exit demo_running (current_actor_ref (ctx ?b)) True
      = (Inr (), demo_running\<lparr>trap_exit_flags := dict_set ''a'' True (trap_exit_flags demo_running)\<rparr>)"
    by (rule w [unfolded demo_handler(2) actor_of.simps option.case])
  then show ?thesis by (simp only: Let_def)
qed

end
