(* ===== verification/Spec2Isabelle.thy ===== *)
theory Spec2Isabelle
  imports Node_Steps Cluster Pool Nested Transport Supervisor_Steps
    Codec_Types Warehouse_Laws Order_Viewers Ping Hub Seeds Pool_Map_Laws Contexts
begin

text \<open>
  \<^bold>\<open>lapinbeam: a verification of an actor runtime\<close>

  lapinbeam is a distributed actor runtime: a Python package (\<^verbatim>\<open>src/lapinbeam\<close>) over a native transport
  written in Rust (\<^verbatim>\<open>src/src\<close>). A \<^emph>\<open>node\<close> owns the mailboxes of its actors and a transport with
  connections to other nodes. \<^emph>\<open>Supervisors\<close> spawn actors, feed them messages and restart them when they
  crash. References send messages to local and remote actors and ask questions. On top of these sit
  the cluster modules, each with a reserved actor that answers its peers: links, monitors, process
  groups, a registry of names and the discovery of nodes. A payload crosses a connection as JSON
  inside a frame; the codec turns dataclasses and pydantic models into tagged JSON and back. The
  programs under \<^verbatim>\<open>src/examples\<close> are applications of the library: a sales warehouse of three nodes, a stream
  of orders with a database and viewers, a hub that supervises workers of other nodes, two pairs of
  nodes that exchange tasks, and nodes that find each other through seeds.

  \<^bold>\<open>How the code is modelled\<close>

  A Python exception is a value: \<open>exn\<close> has the name of its type and its text, and an operation that
  may raise returns \<open>'a res = exn + 'a\<close>. An operation with effects takes a node and returns its
  result with the node it leaves behind, also when it raises. A dict is an association list in
  insertion order, a set is a list without duplicates. Objects that the code compares or shares by
  identity (mailboxes, futures, children, connections) are numbers into stores of the node. Times
  are rationals, ports and bytes are machine words, Python integers are integers.

  Coroutines are cut at their suspension points: each definition is the code from one \<^verbatim>\<open>await\<close> that may
  suspend to the next, and the pieces may be interleaved with anything else. \<^verbatim>\<open>asyncio.create_task\<close>
  appends to the node's list of tasks; a task that never suspends is the one call it makes.
  The constructors and handlers of applications, the recipes of supervision trees, the serialisation
  library of the transport, the hash of the handshake, the random references of monitors, the
  process-wide counter of asks, the clock and what the operating system or the cluster answers are
  arguments of the definitions that use them. So are, for the examples, the database server (\<open>exec\<close>, with
  \<open>lawful\<close> as what the code relies on), the products that are picked at random, the answers of the file
  system, and what else happens on a node while a program sleeps or waits for a connection.

  \<^bold>\<open>The theories\<close>

    \<^item> \<^verbatim>\<open>Prelude\<close>: exceptions, results, dicts, sets, buckets of sets, the representation of strings; the
      collections \<open>dict_simps\<close> and \<open>wf_intros\<close>.
    \<^item> \<^verbatim>\<open>Py_Values\<close>, \<^verbatim>\<open>Codec\<close> (\<^verbatim>\<open>codec.py\<close>, \<^verbatim>\<open>py/convert.rs\<close>): values, JSON, the encoder and the decoder. The locale
      \<open>payload_channel\<close> is what senders rely on; its interpretation is the codec over the wire.
      A portable payload arrives as itself with tuples as lists; a nested dataclass does not.
      \<^verbatim>\<open>Codec_Types\<close>: the type of the payloads that can be sent, and of what arrives.
    \<^item> \<^verbatim>\<open>Actor\<close> (\<^verbatim>\<open>actor.py\<close>): decorators, metadata, and the choice of a handler, characterised by the marks
      of the class.
    \<^item> \<^verbatim>\<open>Mailbox\<close>: \<^verbatim>\<open>asyncio.Queue\<close>; the locale \<open>bounded_fifo\<close> with its laws of order and loss.
    \<^item> \<^verbatim>\<open>Node_Id\<close> (\<^verbatim>\<open>runtime/node_id.rs\<close>): parsing and printing of ids, with their round trip.
    \<^item> \<^verbatim>\<open>Node_State\<close> (\<^verbatim>\<open>node.py\<close>, \<^verbatim>\<open>py/node.rs\<close>): the record of a node, the native core as the Python side
      sees it, events and tasks.
    \<^item> \<^verbatim>\<open>Peer_Store\<close>: the locale \<open>peer_store\<close> of tables that drop the entries of a lost peer, interpreted for
      groups, names, links and watchers; the fields of control messages.
    \<^item> \<^verbatim>\<open>Process_Groups\<close> (\<^verbatim>\<open>groups.py\<close>), \<^verbatim>\<open>Registry\<close> and \<^verbatim>\<open>Registry_Actor\<close> (\<^verbatim>\<open>registry.py\<close>): membership and names,
      and the refinement of the owner's table by the table of a peer that received its snapshot and
      deltas.
    \<^item> \<^verbatim>\<open>Node_Events\<close>, \<^verbatim>\<open>Node\<close>, \<^verbatim>\<open>Node_Laws\<close> (\<^verbatim>\<open>node.py\<close>, \<^verbatim>\<open>transport/mod.rs\<close>): the event handler and its cascade, the
      operations of a node, the invariant \<open>node_wf\<close>, and what sends, registrations and
      connection attempts guarantee.
    \<^item> \<^verbatim>\<open>Links\<close> (\<^verbatim>\<open>links.py\<close>), \<^verbatim>\<open>Monitors\<close> (\<^verbatim>\<open>monitors.py\<close>): exits and downs, local and remote.
    \<^item> \<^verbatim>\<open>Restart_Budget\<close>, \<^verbatim>\<open>Supervisor\<close>, \<^verbatim>\<open>Supervisor_Laws\<close>, \<^verbatim>\<open>Supervisor_Steps\<close> (\<^verbatim>\<open>supervisor.py\<close>): the sliding window of
      restarts, the tasks of the children as phases, what one restart or giving up does, and an
      inductive step relation over all interleavings with the invariant that every running actor is
      reachable.
    \<^item> \<^verbatim>\<open>Nested\<close>: supervision trees. \<^verbatim>\<open>Pool\<close>: the driver of an actor and the worker pools, over all runs of sends
      and workers.
    \<^item> \<^verbatim>\<open>Pool_Ref\<close>, \<^verbatim>\<open>Pool_Map\<close>, \<^verbatim>\<open>Pool_Map_Laws\<close> (\<^verbatim>\<open>PoolRef\<close> in \<^verbatim>\<open>refs.py\<close>, \<^verbatim>\<open>_PoolSpawn\<close> in \<^verbatim>\<open>supervisor.py\<close>): building and leaving
      a pool, and \<^verbatim>\<open>map\<close> as a step relation over its asks, the dispatcher, the workers, the timeouts and
      other users of the node.
    \<^item> \<^verbatim>\<open>Contexts\<close> (\<^verbatim>\<open>context.py\<close>, \<^verbatim>\<open>_drive\<close> in \<^verbatim>\<open>supervisor.py\<close>): the context variables of all tasks, and that they name
      the actor and the message of the running code.
    \<^item> \<^verbatim>\<open>Node_Loop\<close>, \<^verbatim>\<open>Node_Steps\<close>: the tasks a node schedules and the loop that runs them; the relation of
      everything that can happen on a node and the invariant of its reachable states.
    \<^item> \<^verbatim>\<open>Ask\<close> (\<^verbatim>\<open>refs.py\<close>, \<^verbatim>\<open>context.py\<close>): asks, replies and streams, on one node and across two.
    \<^item> \<^verbatim>\<open>Cluster\<close> (\<^verbatim>\<open>discovery.py\<close> and the \<^verbatim>\<open>register_...\<close> functions): setting up a node and joining a cluster.
    \<^item> \<^verbatim>\<open>Framing\<close>, \<^verbatim>\<open>Transport\<close> (\<^verbatim>\<open>wire\<close>, \<^verbatim>\<open>transport/mod.rs\<close>): frames, the incremental decoder, handshakes, the choice
      between two connections, reconnection.
    \<^item> \<^verbatim>\<open>Network\<close>, \<^verbatim>\<open>Startup\<close>: sequences of operations, traffic between several nodes, and how the programs of the
      examples come up and connect.
    \<^item> \<^verbatim>\<open>Warehouse\<close>, \<^verbatim>\<open>Warehouse_Laws\<close> (\<^verbatim>\<open>examples/sales_warehouse\<close>): the stages of an order, the tracker and the
      archive, composed over three nodes.
    \<^item> \<^verbatim>\<open>Order_Stream\<close>, \<^verbatim>\<open>Order_Stream_Laws\<close>, \<^verbatim>\<open>Order_Viewers\<close> (\<^verbatim>\<open>examples/order_stream\<close>): the statements sent to the
      database, the worker, and the relation of the worker, the relay, the publisher and a viewer.
    \<^item> \<^verbatim>\<open>Hub\<close> (\<^verbatim>\<open>examples/cluster_supervision\<close>), \<^verbatim>\<open>Ping\<close> (the two-node examples) and \<^verbatim>\<open>Seeds\<close> (\<^verbatim>\<open>examples/seed_discovery\<close>).

  \<^bold>\<open>What is shown\<close>

  Messages: a payload, a frame and a request survive the way to another node and back; mail is
  delivered in order, to one mailbox, or its loss is reported. State: the tables of a node agree in
  every reachable state, names are never taken over by a registration, and a generation of an actor
  that ends leaves no trace. Supervision: no window holds more restarts than the budget, restarts
  keep the pending mail, giving up is isolated, and running actors are reachable under every
  interleaving. Cluster: replicas of groups and names follow their owner, the loss of a peer reaches
  every linked actor, a join ends and finds the whole reachable cluster, and two nodes that dial
  each other agree on one connection. Pools keep the order of each key and lose nothing they
  accepted; a map over a pool returns the answers in the order of its items, whatever else runs.
  Handlers and the tasks they create see their own actor and message. Examples: an order of the
  warehouse is archived with its sum and decision and tracked through five reports; the stream of an
  order always ends and a viewer misses no update; acknowledged tasks are counted once and in order,
  also under faults; a crash on a worker node reaches the hub as one exit and one down. A further group of theorems states where the code does less than it means to: each is
  the precise behaviour, with the situation in which it occurs as its hypotheses.

  \<^bold>\<open>Termination and bounds\<close>

  No fuel is used for the code's own loops: they are structural, or recursive with a measure (the
  codec, the decoder of frames), except \<open>join_loop\<close>, which may run for ever in an unbounded cluster
  and is a partial function whose termination is a theorem. \<open>run_loop\<close> takes the number of turns to
  run; \<open>loop_drains\<close> says how many empty the loop. The relation of the viewer comes with a measure that every
  step of the worker, the relay and the viewer decreases. Lengths of frames keep their width of 32 bits,
  ports theirs of 16 bits; correlation ids are checked against 64 bits where the code converts
  them.

  \<^bold>\<open>Not modelled\<close>

  Sockets, heartbeats, read timeouts and the threads of the native part: their outcomes are events
  and arguments. The operations of a node take the running actor and the current message as
  arguments; \<^verbatim>\<open>Contexts\<close> says what these are. The executors of pools beyond whether they accept work, and
  recipes of nested supervisors that suspend. A start that fails to bind is modelled, but not what
  may follow it without a successful start. The process-wide current node, the accessors of
  \<^verbatim>\<open>SupervisorRef\<close>, log output and representation strings. Of the examples: the static page, the text
  format of an event and the closing of the database of the order stream, printed lines and delays,
  and the load tests. The benchmarks under \<^verbatim>\<open>src/bench\<close>, which measure time and memory and hold no
  behaviour of the library.
\<close>

end
